(* ===== verification/Prelude.thy ===== *)
theory Prelude
  imports Complex_Main "HOL-Library.Multiset"
begin

section \<open>Shared vocabulary of the development\<close>

text \<open>
  Exceptions as values, programs over an explicit state, Python's bounded deque, Python's
  \<open>max(..., key=...)\<close> and \<open>min(..., key=...)\<close>, rounding, and the contracts (locales)
  that several components share: a system of steps that keeps an invariant, a counter that
  counts every step once, and a buffer that remembers the latest items.

  Python \<open>float\<close>s are real numbers here and Python \<open>int\<close>s are integers: rounding errors,
  infinities and NaN are not modelled.
\<close>

named_theorems py_simps \<open>computation rules of the Python operations\<close>

subsection \<open>Exceptions and programs\<close>

text \<open>
  The exceptions the source raises or catches. \<open>ExternalError\<close> stands for whatever a call
  into a service or a third-party package raises.
\<close>

datatype exn =
    KeyError
  | TypeError
  | ValueError
  | IndexError
  | AttributeError
  | BufferError
  | RuntimeError string
  | ExternalError string

text \<open>
  A program over a state \<open>'s\<close> returns a value or raises, and in both cases leaves a state:
  what was done before an exception stays done.
\<close>

type_synonym ('s, 'a) prog = "'s \<Rightarrow> (exn + 'a) \<times> 's"

definition ret :: "'a \<Rightarrow> ('s, 'a) prog" where
  "ret x s = (Inr x, s)"

definition raise :: "exn \<Rightarrow> ('s, 'a) prog" where
  "raise e s = (Inl e, s)"

definition bnd :: "('s, 'a) prog \<Rightarrow> ('a \<Rightarrow> ('s, 'b) prog) \<Rightarrow> ('s, 'b) prog" where
  "bnd m f s = (case m s of (Inl e, t) \<Rightarrow> (Inl e, t) | (Inr x, t) \<Rightarrow> f x t)"

definition catch :: "('s, 'a) prog \<Rightarrow> (exn \<Rightarrow> ('s, 'a) prog) \<Rightarrow> ('s, 'a) prog" where
  "catch m h s = (case m s of (Inl e, t) \<Rightarrow> h e t | (Inr x, t) \<Rightarrow> (Inr x, t))"

text \<open>A pure computation that may raise, run inside a program.\<close>

definition lift_res :: "exn + 'a \<Rightarrow> ('s, 'a) prog" where
  "lift_res r s = (r, s)"

definition modify :: "('s \<Rightarrow> 's) \<Rightarrow> ('s, unit) prog" where
  "modify f s = (Inr (), f s)"

definition gets :: "('s \<Rightarrow> 'a) \<Rightarrow> ('s, 'a) prog" where
  "gets f s = (Inr (f s), s)"

text \<open>Sequencing of pure computations that may raise.\<close>

definition rbind :: "exn + 'a \<Rightarrow> ('a \<Rightarrow> exn + 'b) \<Rightarrow> exn + 'b" where
  "rbind r f = (case r of Inl e \<Rightarrow> Inl e | Inr x \<Rightarrow> f x)"

lemma rbind_simps [simp, py_simps]:
  "rbind (Inl e) f = Inl e"
  "rbind (Inr x) f = f x"
  by (simp_all add: rbind_def)

lemmas prog_defs = ret_def raise_def bnd_def catch_def lift_res_def modify_def gets_def

lemma ret_bnd [simp]: "bnd (ret x) f = f x"
  by (rule ext) (simp add: prog_defs)

lemma raise_bnd [simp]: "bnd (raise e) f = raise e"
  by (rule ext) (simp add: prog_defs)

lemma bnd_assoc: "bnd (bnd m f) g = bnd m (\<lambda>x. bnd (f x) g)"
  by (rule ext) (simp add: prog_defs split: prod.splits sum.splits)

lemma catch_never_raises:
  assumes "\<And>e t. \<exists>x t'. h e t = (Inr x, t')"
  shows "\<exists>x t'. catch m h s = (Inr x, t')"
  using assms by (auto simp: catch_def split: prod.splits sum.splits)

lemma ex_not [simp]: "Ex Not"
  by (rule exI [of _ False]) simp

lemma ex_self [simp]: "\<exists>a. a"
  by (rule exI [of _ True]) simp

subsection \<open>Lists\<close>

text \<open>The last \<open>n\<close> items, which is what \<open>collections.deque(maxlen=n)\<close> keeps.\<close>

definition take_last :: "nat \<Rightarrow> 'a list \<Rightarrow> 'a list" where
  "take_last n xs = drop (length xs - n) xs"

text \<open>\<open>d.append(x)\<close> for a \<open>deque(maxlen=n)\<close>.\<close>

definition deque_append :: "nat \<Rightarrow> 'a \<Rightarrow> 'a list \<Rightarrow> 'a list" where
  "deque_append n x xs = take_last n (xs @ [x])"

lemma length_take_last [simp]: "length (take_last n xs) = min n (length xs)"
  by (simp add: take_last_def)

lemma take_last_all: "length xs \<le> n \<Longrightarrow> take_last n xs = xs"
  by (simp add: take_last_def)

lemma take_last_append_take_last:
  "take_last n (take_last n xs @ ys) = take_last n (xs @ ys)"
proof (cases "length xs \<le> n")
  case True
  then show ?thesis by (simp add: take_last_all)
next
  case False
  then show ?thesis
    by (simp add: take_last_def) (cases "length ys \<le> n"; simp add: algebra_simps)
qed

lemma take_last_map: "take_last n (map f xs) = map f (take_last n xs)"
  by (simp add: take_last_def drop_map)

lemma set_take_last_subset: "set (take_last n xs) \<subseteq> set xs"
  by (simp add: take_last_def set_drop_subset)

lemma filter_unique_key:
  "distinct (map f xs) \<Longrightarrow> x \<in> set xs \<Longrightarrow> filter (\<lambda>y. f y = f x) xs = [x]"
proof (induction xs)
  case (Cons a xs)
  have "filter (\<lambda>y. f y = f a) xs = []" using Cons.prems(1) by (auto simp: filter_empty_conv image_iff)
  with Cons show ?case by (cases "x = a") auto
qed simp

lemma last_separator:
  assumes "xs @ c # ys = xs' @ c # ys'" and "c \<notin> set ys" and "c \<notin> set ys'"
  shows "xs = xs' \<and> ys = ys'"
proof -
  from assms(1) have eq: "rev ys @ c # rev xs = rev ys' @ c # rev xs'"
    by (metis append_Cons append_Nil append_assoc rev.simps(2) rev_append rev_rev_ident)
  have "takeWhile (\<lambda>d. d \<noteq> c) (rev zs @ c # ws) = rev zs" if "c \<notin> set zs" for zs ws
    using that by (subst takeWhile_append2) auto
  with assms(2,3) eq have "rev ys = rev ys'" by metis
  with eq show ?thesis by simp
qed

text \<open>Lists of pieces with keys of their own, where a name tells from which piece it is.\<close>

lemma distinct_concat_by_key:
  assumes "distinct (map key xs)" and "\<And>x. x \<in> set xs \<Longrightarrow> distinct (map nm (g x))"
    and "\<And>x y d e. x \<in> set xs \<Longrightarrow> y \<in> set xs \<Longrightarrow> d \<in> set (g x) \<Longrightarrow> e \<in> set (g y) \<Longrightarrow> nm d = nm e \<Longrightarrow> key x = key y"
  shows "distinct (map nm (concat (map g xs)))"
  using assms
proof (induction xs)
  case (Cons x xs)
  have "set (map nm (g x)) \<inter> set (map nm (concat (map g xs))) = {}"
    using Cons.prems(1) Cons.prems(3) [of x] by fastforce
  with Cons show ?case by simp
qed simp

text \<open>
  \<open>max(xs, key=f)\<close> and \<open>min(xs, key=f)\<close>: the first of the elements with the extreme key.
  On an empty sequence Python raises \<open>ValueError\<close>.
\<close>

fun max_key_from :: "('a \<Rightarrow> 'k::linorder) \<Rightarrow> 'a \<Rightarrow> 'a list \<Rightarrow> 'a" where
  "max_key_from f b [] = b"
| "max_key_from f b (x # xs) = max_key_from f (if f b < f x then x else b) xs"

definition py_max_key :: "('a \<Rightarrow> 'k::linorder) \<Rightarrow> 'a list \<Rightarrow> exn + 'a" where
  "py_max_key f xs = (case xs of [] \<Rightarrow> Inl ValueError | x # ys \<Rightarrow> Inr (max_key_from f x ys))"

fun min_key_from :: "('a \<Rightarrow> 'k::linorder) \<Rightarrow> 'a \<Rightarrow> 'a list \<Rightarrow> 'a" where
  "min_key_from f b [] = b"
| "min_key_from f b (x # xs) = min_key_from f (if f x < f b then x else b) xs"

definition py_min_key :: "('a \<Rightarrow> 'k::linorder) \<Rightarrow> 'a list \<Rightarrow> exn + 'a" where
  "py_min_key f xs = (case xs of [] \<Rightarrow> Inl ValueError | x # ys \<Rightarrow> Inr (min_key_from f x ys))"

lemma max_key_from_in: "max_key_from f b xs \<in> insert b (set xs)"
  by (induction f b xs rule: max_key_from.induct) auto

lemma max_key_from_ge: "y \<in> insert b (set xs) \<Longrightarrow> f y \<le> f (max_key_from f b xs)"
proof (induction f b xs arbitrary: y rule: max_key_from.induct)
  case (1 f b)
  then show ?case by simp
next
  case (2 f b x xs)
  let ?c = "if f b < f x then x else b"
  have c: "f ?c \<le> f (max_key_from f ?c xs)" by (rule "2.IH") simp
  show ?case
  proof (cases "y \<in> set xs")
    case True
    then show ?thesis using "2.IH" [of y] by simp
  next
    case False
    with "2.prems" have "f y \<le> f ?c" by auto
    from this c have "f y \<le> f (max_key_from f ?c xs)" by (rule order_trans)
    then show ?thesis by simp
  qed
qed

lemma min_key_from_in: "min_key_from f b xs \<in> insert b (set xs)"
  by (induction f b xs rule: min_key_from.induct) auto

lemma min_key_from_le: "y \<in> insert b (set xs) \<Longrightarrow> f (min_key_from f b xs) \<le> f y"
proof (induction f b xs arbitrary: y rule: min_key_from.induct)
  case (1 f b)
  then show ?case by simp
next
  case (2 f b x xs)
  let ?c = "if f x < f b then x else b"
  have c: "f (min_key_from f ?c xs) \<le> f ?c" by (rule "2.IH") simp
  show ?case
  proof (cases "y \<in> set xs")
    case True
    then show ?thesis using "2.IH" [of y] by simp
  next
    case False
    with "2.prems" have "f ?c \<le> f y" by auto
    from c this have "f (min_key_from f ?c xs) \<le> f y" by (rule order_trans)
    then show ?thesis by simp
  qed
qed

lemma py_max_key_Inr:
  assumes "py_max_key f xs = Inr m"
  shows "m \<in> set xs" and "\<And>y. y \<in> set xs \<Longrightarrow> f y \<le> f m"
  using assms max_key_from_in [of f] max_key_from_ge [of _ _ _ f]
  by (auto simp: py_max_key_def split: list.splits)

lemma py_min_key_Inr:
  assumes "py_min_key f xs = Inr m"
  shows "m \<in> set xs" and "\<And>y. y \<in> set xs \<Longrightarrow> f m \<le> f y"
  using assms min_key_from_in [of f] min_key_from_le [of _ _ _ f]
  by (auto simp: py_min_key_def split: list.splits)

lemma py_key_nonempty:
  "xs \<noteq> [] \<Longrightarrow> \<exists>m. py_max_key f xs = Inr m"
  "xs \<noteq> [] \<Longrightarrow> \<exists>m. py_min_key f xs = Inr m"
  by (auto simp: py_max_key_def py_min_key_def split: list.splits)

subsection \<open>Rounding and means\<close>

text \<open>Python's \<open>round(x)\<close> and pandas' \<open>round\<close>: to the nearest integer, ties to the even one.\<close>

definition round_half_even :: "real \<Rightarrow> int" where
  "round_half_even x =
     (let f = \<lfloor>x\<rfloor>; d = x - of_int f
      in if d < 1 / 2 then f else if 1 / 2 < d then f + 1 else if even f then f else f + 1)"

text \<open>\<open>round(x, n)\<close>.\<close>

definition py_round :: "nat \<Rightarrow> real \<Rightarrow> real" where
  "py_round n x = of_int (round_half_even (x * 10 ^ n)) / 10 ^ n"

definition mean :: "real list \<Rightarrow> real" where
  "mean xs = sum_list xs / real (length xs)"

lemma round_half_even_close: "\<bar>of_int (round_half_even x) - x\<bar> \<le> 1 / 2"
  by (simp add: round_half_even_def Let_def)

lemma round_half_even_mono:
  assumes "x \<le> y"
  shows "round_half_even x \<le> round_half_even y"
proof (cases "\<lfloor>x\<rfloor> = \<lfloor>y\<rfloor>")
  case True
  with assms show ?thesis by (auto simp: round_half_even_def Let_def)
next
  case False
  with assms have "\<lfloor>x\<rfloor> < \<lfloor>y\<rfloor>" using floor_mono [of x y] by linarith
  then show ?thesis by (auto simp: round_half_even_def Let_def)
qed

lemma round_half_even_int [simp]: "round_half_even (of_int n) = n"
  by (simp add: round_half_even_def)

lemma py_round_mono: "x \<le> y \<Longrightarrow> py_round n x \<le> py_round n y"
  by (simp add: py_round_def divide_right_mono round_half_even_mono)

lemma py_round_close: "\<bar>py_round n x - x\<bar> \<le> 1 / (2 * 10 ^ n)"
  using round_half_even_close [of "x * 10 ^ n"]
  by (simp add: py_round_def field_simps abs_le_iff)

lemma py_round_int [simp]: "py_round n (of_int m) = of_int m"
proof -
  have "(of_int m :: real) * 10 ^ n = of_int (m * 10 ^ n)" by simp
  then show ?thesis unfolding py_round_def by (simp only: round_half_even_int) simp
qed

subsection \<open>Contracts shared by several components\<close>

text \<open>
  A component driven by a sequence of events whose every step keeps an invariant. The
  events of a run are folded in order.
\<close>

locale step_system =
  fixes step :: "'e \<Rightarrow> 's \<Rightarrow> 's" and inv :: "'s \<Rightarrow> bool"
  assumes step_inv: "inv s \<Longrightarrow> inv (step e s)"
begin

lemma run_inv: "inv s \<Longrightarrow> inv (fold step es s)"
  by (induction es arbitrary: s) (auto intro: step_inv)

lemma run_append_inv: "inv s \<Longrightarrow> inv (fold step (es @ fs) s)"
  by (rule run_inv)

end

text \<open>A component whose accounting grows by exactly one in every step.\<close>

locale metered_system = step_system step inv
  for step :: "'e \<Rightarrow> 's \<Rightarrow> 's" and inv :: "'s \<Rightarrow> bool" +
  fixes total :: "'s \<Rightarrow> nat"
  assumes step_total: "inv s \<Longrightarrow> total (step e s) = Suc (total s)"
begin

lemma run_total: "inv s \<Longrightarrow> total (fold step es s) = total s + length es"
  by (induction es arbitrary: s) (simp_all add: step_total step_inv)

end

text \<open>A buffer that keeps the latest \<open>cap\<close> of the items pushed into it.\<close>

locale recent_buffer =
  fixes push :: "'a \<Rightarrow> 'b \<Rightarrow> 'b" and items :: "'b \<Rightarrow> 'a list" and cap :: nat
  assumes items_push: "items (push x b) = take_last cap (items b @ [x])"
begin

lemma length_items_push: "length (items (push x b)) \<le> cap"
  by (simp add: items_push)

lemma items_run:
  assumes "length (items b) \<le> cap"
  shows "items (fold push xs b) = take_last cap (items b @ xs)"
  using assms
proof (induction xs arbitrary: b)
  case Nil
  then show ?case by (simp add: take_last_all)
next
  case (Cons x xs)
  have "items (fold push (x # xs) b) = take_last cap (items (push x b) @ xs)"
    using Cons.IH [OF length_items_push] by simp
  also have "\<dots> = take_last cap (items b @ x # xs)"
    by (simp add: items_push take_last_append_take_last)
  finally show ?case .
qed

lemma length_items_run:
  "length (items b) \<le> cap \<Longrightarrow> length (items (fold push xs b)) \<le> cap"
  by (simp add: items_run)

end

text \<open>
  An operation tried a bounded number of times: \<open>n\<close> attempts are left, \<open>l\<close> is what is known of the last failure,
  \<open>again n\<close> is done between a failure and the next attempt, or before giving up.
\<close>

locale bounded_retry =
  fixes attempt :: "('s, 'a) prog" and again :: "nat \<Rightarrow> 's \<Rightarrow> 's"
    and loop :: "nat \<Rightarrow> 'l \<Rightarrow> 's \<Rightarrow> 'r \<times> 's" and won :: "'a \<Rightarrow> 'r" and lost :: "'l \<Rightarrow> 'r" and failure :: "exn \<Rightarrow> 'l"
  assumes loop_none: "loop 0 l s = (lost l, s)"
    and loop_more: "loop (Suc n) l s =
      (case attempt s of (Inr x, t) \<Rightarrow> (won x, t) | (Inl e, t) \<Rightarrow> loop n (failure e) (again n t))"
begin

lemma loop_outcome:
  assumes "\<And>s. ok s \<Longrightarrow> ok (snd (attempt s))" and "\<And>n s. ok s \<Longrightarrow> ok (again n s)"
  shows "ok s \<Longrightarrow> loop n l s = (r, t) \<Longrightarrow>
     (\<exists>u x. ok u \<and> attempt u = (Inr x, t) \<and> r = won x) \<or>
     (ok t \<and> (\<exists>l. r = lost l) \<and> (n = 0 \<and> t = s \<or> (\<exists>u. t = again 0 u)))"
proof (induction n arbitrary: l s)
  case 0
  then show ?case by (auto simp: loop_none)
next
  case (Suc n)
  obtain q u where one: "attempt s = (q, u)" by fastforce
  with assms(1) [OF Suc.prems(1)] have u: "ok u" by simp
  show ?case
  proof (cases q)
    case (Inr x)
    with one Suc.prems show ?thesis by (auto simp: loop_more)
  next
    case (Inl e)
    with one Suc.prems(2) have "loop n (failure e) (again n u) = (r, t)" by (simp add: loop_more)
    from Suc.IH [OF assms(2) [OF u] this] show ?thesis by blast
  qed
qed

lemma loop_keeps:
  assumes "\<And>s. ok s \<Longrightarrow> ok (snd (attempt s))" and "\<And>n s. ok s \<Longrightarrow> ok (again n s)" and "ok s"
  shows "ok (snd (loop n l s))"
proof -
  obtain r t where run: "loop n l s = (r, t)" by fastforce
  from loop_outcome [of ok, OF assms run] show ?thesis using assms(1) run by (metis snd_conv)
qed

end

end
