(* ===== verification/Py_Values.thy ===== *)
theory Py_Values
  imports Prelude
begin

section \<open>Decoded JSON values and the Python operations on them\<close>

text \<open>
  Messages reach the consumers as whatever \<open>json.loads\<close> returns, so their fields can have
  any JSON type. This theory holds the value type and the operations of Python that the
  source applies to such values: \<open>d.get(k)\<close>, \<open>d[k]\<close>, truth testing, \<open>==\<close>, \<open><=\<close>,
  subtraction, \<open>len\<close>, iteration, hashing, slicing. An operation that Python refuses on a
  type raises \<open>TypeError\<close>; a missing key raises \<open>KeyError\<close>.
\<close>

datatype pyval =
    PNone
  | PBool bool
  | PInt int
  | PFloat real
  | PStr string
  | PList "pyval list"
  | PDict "(string \<times> pyval) list"

text \<open>A JSON object: its keys in insertion order (a parsed object has each key once).\<close>

type_synonym pydict = "(string \<times> pyval) list"

subsection \<open>Dictionary access\<close>

text \<open>\<open>d.get(k, default)\<close>, \<open>d.get(k)\<close>, \<open>d[k]\<close> and \<open>k in d\<close>.\<close>

definition dict_get_or :: "pydict \<Rightarrow> string \<Rightarrow> pyval \<Rightarrow> pyval" where
  "dict_get_or d k v = (case map_of d k of None \<Rightarrow> v | Some x \<Rightarrow> x)"

definition dict_get :: "pydict \<Rightarrow> string \<Rightarrow> pyval" where
  "dict_get d k = dict_get_or d k PNone"

definition dict_item :: "pydict \<Rightarrow> string \<Rightarrow> exn + pyval" where
  "dict_item d k = (case map_of d k of None \<Rightarrow> Inl KeyError | Some x \<Rightarrow> Inr x)"

lemmas dict_defs [py_simps] = dict_get_or_def dict_get_def dict_item_def

subsection \<open>Truth, numbers and order\<close>

text \<open>\<open>bool(v)\<close>.\<close>

fun truthy :: "pyval \<Rightarrow> bool" where
  "truthy PNone = False"
| "truthy (PBool b) = b"
| "truthy (PInt n) = (n \<noteq> 0)"
| "truthy (PFloat x) = (x \<noteq> 0)"
| "truthy (PStr s) = (s \<noteq> [])"
| "truthy (PList xs) = (xs \<noteq> [])"
| "truthy (PDict d) = (d \<noteq> [])"

text \<open>\<open>a or b\<close>.\<close>

definition py_or :: "pyval \<Rightarrow> pyval \<Rightarrow> pyval" where
  "py_or a b = (if truthy a then a else b)"

text \<open>The numeric value of an \<open>int\<close>, a \<open>float\<close> or a \<open>bool\<close> (which is an \<open>int\<close>).\<close>

fun num_of :: "pyval \<Rightarrow> real option" where
  "num_of (PBool b) = Some (if b then 1 else 0)"
| "num_of (PInt n) = Some (of_int n)"
| "num_of (PFloat x) = Some x"
| "num_of _ = None"

text \<open>\<open>a - b\<close> where the left operand is already a number.\<close>

definition num_minus :: "real \<Rightarrow> pyval \<Rightarrow> exn + real" where
  "num_minus x v = (case num_of v of None \<Rightarrow> Inl TypeError | Some y \<Rightarrow> Inr (x - y))"

text \<open>
  \<open>a == b\<close>. Numbers compare by value whatever their type; objects compare as mappings,
  whatever the order of their keys.
\<close>

function py_eq :: "pyval \<Rightarrow> pyval \<Rightarrow> bool" where
  "py_eq a b =
     (case (num_of a, num_of b) of
        (Some x, Some y) \<Rightarrow> x = y
      | _ \<Rightarrow>
        (case (a, b) of
           (PNone, PNone) \<Rightarrow> True
         | (PStr s, PStr t) \<Rightarrow> s = t
         | (PList xs, PList ys) \<Rightarrow>
             length xs = length ys \<and> list_all (\<lambda>(x, y). py_eq x y) (zip xs ys)
         | (PDict d, PDict e) \<Rightarrow>
             length d = length e \<and>
             list_all (\<lambda>(k, v). case map_of e k of None \<Rightarrow> False | Some w \<Rightarrow> py_eq v w) d
         | _ \<Rightarrow> False))"
  by pat_completeness auto

lemma size_in_dict: "(k, v) \<in> set d \<Longrightarrow> size v < Suc (size_list (size_prod (\<lambda>_. 0) size) d)"
  by (induction d) auto

lemma size_in_list: "v \<in> set xs \<Longrightarrow> size v < Suc (size_list size xs)"
  by (induction xs) auto

termination py_eq
  by (relation "measure (size \<circ> fst)")
    (auto dest!: set_zip_leftD dest: size_in_dict size_in_list)

declare py_eq.simps [simp del]

text \<open>Characters compare by code point.\<close>

fun str_le :: "string \<Rightarrow> string \<Rightarrow> bool" where
  "str_le [] t = True"
| "str_le (c # s) [] = False"
| "str_le (c # s) (e # t) =
     (if c = e then str_le s t else (of_char c :: nat) < of_char e)"

text \<open>
  \<open>a <= b\<close>: numbers by value, strings by code points, lists by their first differing
  elements. Every other pair of operands raises \<open>TypeError\<close>.
\<close>

function py_le :: "pyval \<Rightarrow> pyval \<Rightarrow> exn + bool" and
    py_le_list :: "pyval list \<Rightarrow> pyval list \<Rightarrow> exn + bool" where
  "py_le a b =
     (case (num_of a, num_of b) of
        (Some x, Some y) \<Rightarrow> Inr (x \<le> y)
      | _ \<Rightarrow>
        (case (a, b) of
           (PStr s, PStr t) \<Rightarrow> Inr (str_le s t)
         | (PList xs, PList ys) \<Rightarrow> py_le_list xs ys
         | _ \<Rightarrow> Inl TypeError))"
| "py_le_list [] ys = Inr True"
| "py_le_list (x # xs) [] = Inr False"
| "py_le_list (x # xs) (y # ys) = (if py_eq x y then py_le_list xs ys else py_le x y)"
  by pat_completeness auto
termination
  by (relation "measure (\<lambda>c. case c of Inl (a, b) \<Rightarrow> size a | Inr (xs, ys) \<Rightarrow> size_list size xs)")
    auto

declare py_le.simps [simp del]

lemma py_le_num: "num_of a = Some x \<Longrightarrow> num_of b = Some y \<Longrightarrow> py_le a b = Inr (x \<le> y)"
  by (simp add: py_le.simps)

lemma py_le_int [simp, py_simps]: "py_le (PInt m) (PInt n) = Inr (m \<le> n)"
  by (simp add: py_le_num)

text \<open>\<open>v < n\<close> for a number \<open>n\<close>.\<close>

definition py_lt_num :: "pyval \<Rightarrow> real \<Rightarrow> exn + bool" where
  "py_lt_num v y = (case num_of v of None \<Rightarrow> Inl TypeError | Some x \<Rightarrow> Inr (x < y))"

lemma py_lt_num_int [simp, py_simps]: "py_lt_num (PInt m) (of_int n) = Inr (m < n)"
  by (simp add: py_lt_num_def)

subsection \<open>Hashing, length, iteration, slicing\<close>

text \<open>
  The key under which a value is found in a \<open>dict\<close> or \<open>set\<close>: equal numbers of different
  types are one key, and a list or an object is not hashable.
\<close>

fun py_key :: "pyval \<Rightarrow> exn + pyval" where
  "py_key PNone = Inr PNone"
| "py_key (PStr s) = Inr (PStr s)"
| "py_key (PBool b) = Inr (PFloat (if b then 1 else 0))"
| "py_key (PInt n) = Inr (PFloat (of_int n))"
| "py_key (PFloat x) = Inr (PFloat x)"
| "py_key (PList xs) = Inl TypeError"
| "py_key (PDict d) = Inl TypeError"

fun py_len :: "pyval \<Rightarrow> exn + nat" where
  "py_len (PStr s) = Inr (length s)"
| "py_len (PList xs) = Inr (length xs)"
| "py_len (PDict d) = Inr (length d)"
| "py_len _ = Inl TypeError"

fun py_iter :: "pyval \<Rightarrow> exn + pyval list" where
  "py_iter (PStr s) = Inr (map (\<lambda>c. PStr [c]) s)"
| "py_iter (PList xs) = Inr xs"
| "py_iter (PDict d) = Inr (map (\<lambda>(k, v). PStr k) d)"
| "py_iter _ = Inl TypeError"

fun py_keys_of :: "pyval list \<Rightarrow> exn + pyval list" where
  "py_keys_of [] = Inr []"
| "py_keys_of (v # vs) = rbind (py_key v) (\<lambda>k. rbind (py_keys_of vs) (\<lambda>ks. Inr (k # ks)))"

text \<open>\<open>set(v)\<close>, as the list of the elements' keys.\<close>

definition py_set :: "pyval \<Rightarrow> exn + pyval list" where
  "py_set v = rbind (py_iter v) py_keys_of"

text \<open>\<open>v[:n]\<close>.\<close>

fun py_prefix :: "nat \<Rightarrow> pyval \<Rightarrow> exn + pyval" where
  "py_prefix n (PStr s) = Inr (PStr (take n s))"
| "py_prefix n (PList xs) = Inr (PList (take n xs))"
| "py_prefix n _ = Inl TypeError"

text \<open>\<open>', '.join(v)\<close>: every element must be a string.\<close>

fun join_strs :: "string \<Rightarrow> string list \<Rightarrow> string" where
  "join_strs sep [] = []"
| "join_strs sep [s] = s"
| "join_strs sep (s # t # ts) = s @ sep @ join_strs sep (t # ts)"

fun strs_of :: "pyval list \<Rightarrow> exn + string list" where
  "strs_of [] = Inr []"
| "strs_of (PStr s # vs) = rbind (strs_of vs) (\<lambda>ss. Inr (s # ss))"
| "strs_of (v # vs) = Inl TypeError"

definition py_join :: "string \<Rightarrow> pyval \<Rightarrow> exn + string" where
  "py_join sep v = rbind (py_iter v) (\<lambda>vs. rbind (strs_of vs) (\<lambda>ss. Inr (join_strs sep ss)))"

lemma strs_of_map_PStr [simp, py_simps]: "strs_of (map PStr ss) = Inr ss"
  by (induction ss) simp_all

lemma py_keys_of_map_PStr [simp, py_simps]: "py_keys_of (map PStr ss) = Inr (map PStr ss)"
  by (induction ss) simp_all

lemma py_key_idem: "py_key v = Inr k \<Longrightarrow> py_key k = Inr k"
  by (cases v) auto

subsection \<open>Formatting\<close>

text \<open>Decimal digits of a number, as \<open>str\<close> of an \<open>int\<close> writes them.\<close>

fun nat_str :: "nat \<Rightarrow> string" where
  "nat_str n = (if n < 10 then [char_of (48 + n)] else nat_str (n div 10) @ [char_of (48 + n mod 10)])"

declare nat_str.simps [simp del]

definition int_str :: "int \<Rightarrow> string" where
  "int_str i = (if i < 0 then CHR ''-'' # nat_str (nat (- i)) else nat_str (nat i))"

text \<open>What \<open>str\<close> writes of a number can be read back, and contains digits and a sign only.\<close>

definition is_digit :: "char \<Rightarrow> bool" where
  "is_digit c \<longleftrightarrow> 48 \<le> (of_char c :: nat) \<and> (of_char c :: nat) \<le> 57"

definition dec_nat :: "string \<Rightarrow> nat" where
  "dec_nat s = foldl (\<lambda>a c. 10 * a + (of_char c - 48)) 0 s"

lemma nat_str_digits: "nat_str n \<noteq> [] \<and> list_all is_digit (nat_str n) \<and> dec_nat (nat_str n) = n"
proof (induction n rule: nat_str.induct)
  case (1 n)
  have digit: "of_char (char_of (48 + d) :: char) = (48 + d :: nat)" if "d < 10" for d :: nat
    using that by (simp add: of_char_of)
  show ?case
  proof (cases "n < 10")
    case True
    then have "nat_str n = [char_of (48 + n)]" by (subst nat_str.simps) simp
    with True digit [OF True] show ?thesis by (simp add: is_digit_def dec_nat_def)
  next
    case False
    then have "nat_str n = nat_str (n div 10) @ [char_of (48 + n mod 10)]" by (subst nat_str.simps) simp
    moreover from False 1 have "list_all is_digit (nat_str (n div 10))" "dec_nat (nat_str (n div 10)) = n div 10"
      by auto
    moreover have "n mod 10 < 10" by simp
    moreover from digit [OF this] this have "is_digit (char_of (48 + n mod 10))" by (simp add: is_digit_def)
    ultimately show ?thesis using digit [of "n mod 10"] by (simp add: dec_nat_def)
  qed
qed

lemma nat_str_inj: "nat_str m = nat_str n \<Longrightarrow> m = n"
  using nat_str_digits by metis

lemma nat_str_no_sign: "nat_str n \<noteq> CHR ''-'' # cs"
proof
  assume "nat_str n = CHR ''-'' # cs"
  with nat_str_digits [of n] have "is_digit CHR ''-''" by simp
  then show False by (simp add: is_digit_def)
qed

lemma int_str_inj:
  assumes "int_str m = int_str n"
  shows "m = n"
proof (cases "m < 0")
  case True
  then have "n < 0" using assms nat_str_no_sign by (metis int_str_def)
  with True assms have "nat (- m) = nat (- n)" by (simp add: int_str_def nat_str_inj)
  with True \<open>n < 0\<close> show ?thesis by simp
next
  case False
  then have "\<not> n < 0" using assms nat_str_no_sign by (metis int_str_def)
  with False assms have "nat m = nat n" by (simp add: int_str_def nat_str_inj)
  with False \<open>\<not> n < 0\<close> show ?thesis by simp
qed

lemma int_str_avoids: "\<not> is_digit c \<Longrightarrow> c \<noteq> CHR ''-'' \<Longrightarrow> c \<notin> set (int_str n)"
  using nat_str_digits by (auto simp: int_str_def list_all_iff)

text \<open>\<open>str(v)\<close>; \<open>render\<close> writes floats and containers.\<close>

fun py_str :: "(pyval \<Rightarrow> string) \<Rightarrow> pyval \<Rightarrow> string" where
  "py_str render PNone = ''None''"
| "py_str render (PBool b) = (if b then ''True'' else ''False'')"
| "py_str render (PInt i) = int_str i"
| "py_str render (PStr s) = s"
| "py_str render v = render v"

end
