(* ===== verification/IncidentFilter.thy ===== *)
theory IncidentFilter
  imports Py_Values
begin

section \<open>The incident filter of the orchestrator\<close>

text \<open>
  \<open>orchestrator/incident_filter.py\<close>: the ordered set of incident ids already seen (bounded,
  oldest evicted first) and, per root-cause service, when and at which severity it was last
  acted on. \<open>check\<close> decides whether an incident is acted on.
\<close>

record filter_config =
  cooldown_seconds :: int
  max_age_seconds :: int
  max_seen :: nat

text \<open>The values \<open>main.run\<close> uses (defaults of \<open>orchestrator/config.py\<close>).\<close>

definition default_filter_config :: filter_config where
  "default_filter_config = \<lparr>cooldown_seconds = 300, max_age_seconds = 3600, max_seen = 2000\<rparr>"

record filter_state =
  seen :: "pyval list"
  last_acted :: "pyval \<rightharpoonup> real \<times> pyval"

definition init_filter :: filter_state where
  "init_filter = \<lparr>seen = [], last_acted = Map.empty\<rparr>"

text \<open>Why an incident is skipped; \<open>reason_label\<close> is the metric label \<open>main._dispatch\<close> cuts out.\<close>

datatype reason = Duplicate | Stale int | Cooldown pyval int pyval

datatype verdict = Act | Skip reason

fun reason_label :: "reason \<Rightarrow> string" where
  "reason_label Duplicate = ''duplicate''"
| "reason_label (Stale age) = ''stale''"
| "reason_label (Cooldown rc ago sev) = ''cooldown''"

text \<open>\<open>while len(self._seen) > self._max_seen: self._seen.popitem(last=False)\<close>\<close>

function evict :: "nat \<Rightarrow> 'a list \<Rightarrow> 'a list" where
  "evict n xs = (if length xs > n then evict n (tl xs) else xs)"
  by pat_completeness auto
termination
  by (relation "measure (\<lambda>(n, xs). length xs)") auto

declare evict.simps [simp del]

text \<open>Python's \<open>int(x)\<close> truncates towards zero.\<close>

definition py_int :: "real \<Rightarrow> int" where
  "py_int x = (if 0 \<le> x then \<lfloor>x\<rfloor> else \<lceil>x\<rceil>)"

text \<open>
  \<open>closed_at is not None and now - closed_at > max_age\<close>: the age if the incident is stale.
\<close>

definition stale_age :: "filter_config \<Rightarrow> real \<Rightarrow> pydict \<Rightarrow> exn + real option" where
  "stale_age cfg now i =
     (if dict_get i ''closed_at'' = PNone then Inr None
      else rbind (num_minus now (dict_get i ''closed_at''))
             (\<lambda>age. Inr (if age > of_int (max_age_seconds cfg) then Some age else None)))"

text \<open>\<open>incident.get("severity") or 0\<close>\<close>

definition severity_of :: "pydict \<Rightarrow> pyval" where
  "severity_of i = py_or (dict_get i ''severity'') (PInt 0)"

text \<open>The cooldown test against the last time this root cause was acted on.\<close>

definition in_cooldown :: "filter_config \<Rightarrow> real \<Rightarrow> pyval \<Rightarrow> (real \<times> pyval) option \<Rightarrow> exn + bool" where
  "in_cooldown cfg now sev prev =
     (case prev of
        None \<Rightarrow> Inr False
      | Some (acted_at, last_sev) \<Rightarrow>
          if now - acted_at < of_int (cooldown_seconds cfg) then py_le sev last_sev else Inr False)"

definition filter_check :: "filter_config \<Rightarrow> real \<Rightarrow> pydict \<Rightarrow> (filter_state, verdict) prog" where
  "filter_check cfg now i s =
     (case py_key (dict_get i ''incident_id'') of
        Inl e \<Rightarrow> (Inl e, s)
      | Inr iid \<Rightarrow>
          if iid \<in> set (seen s) then (Inr (Skip Duplicate), s)
          else
            let s1 = s\<lparr>seen := evict (max_seen cfg) (seen s @ [iid])\<rparr> in
            (case stale_age cfg now i of
               Inl e \<Rightarrow> (Inl e, s1)
             | Inr (Some age) \<Rightarrow> (Inr (Skip (Stale (py_int age))), s1)
             | Inr None \<Rightarrow>
                 (case py_key (dict_get i ''root_cause_service'') of
                    Inl e \<Rightarrow> (Inl e, s1)
                  | Inr rc \<Rightarrow>
                      (case in_cooldown cfg now (severity_of i) (last_acted s1 rc) of
                         Inl e \<Rightarrow> (Inl e, s1)
                       | Inr True \<Rightarrow>
                           (Inr (Skip (Cooldown (dict_get i ''root_cause_service'')
                                         (py_int (now - fst (the (last_acted s1 rc))))
                                         (snd (the (last_acted s1 rc))))), s1)
                       | Inr False \<Rightarrow>
                           (Inr Act,
                            s1\<lparr>last_acted := (last_acted s1)(rc \<mapsto> (now, severity_of i))\<rparr>)))))"

subsection \<open>The ids remembered\<close>

lemma evict_eq: "evict n xs = take_last n xs"
proof (induction n xs rule: evict.induct)
  case (1 n xs)
  show ?case
  proof (cases "length xs > n")
    case True
    then have "take_last n (tl xs) = take_last n xs"
      by (cases xs) (auto simp: take_last_def Suc_diff_le)
    with True 1 show ?thesis by (simp add: evict.simps [of n xs])
  next
    case False
    then show ?thesis by (simp add: evict.simps [of n xs] take_last_all)
  qed
qed

text \<open>What a check does to the remembered ids, whatever it answers.\<close>

lemma filter_check_seen:
  "seen (snd (filter_check cfg now i s)) =
     (case py_key (dict_get i ''incident_id'') of
        Inl e \<Rightarrow> seen s
      | Inr iid \<Rightarrow> if iid \<in> set (seen s) then seen s else take_last (max_seen cfg) (seen s @ [iid]))"
  by (auto simp: filter_check_def evict_eq Let_def split: sum.splits option.splits bool.splits)

definition filter_inv :: "filter_config \<Rightarrow> filter_state \<Rightarrow> bool" where
  "filter_inv cfg s \<longleftrightarrow> distinct (seen s) \<and> length (seen s) \<le> max_seen cfg"

lemma filter_inv_init: "filter_inv cfg init_filter"
  by (simp add: filter_inv_def init_filter_def)

lemma distinct_take_last: "distinct xs \<Longrightarrow> distinct (take_last n xs)"
  by (simp add: take_last_def)

lemma filter_check_inv: "filter_inv cfg s \<Longrightarrow> filter_inv cfg (snd (filter_check cfg now i s))"
  by (auto simp: filter_inv_def filter_check_seen distinct_take_last split: sum.splits)

text \<open>A run of checks: the state after each incident, given the clock reading of each.\<close>

definition filter_step :: "filter_config \<Rightarrow> real \<times> pydict \<Rightarrow> filter_state \<Rightarrow> filter_state" where
  "filter_step cfg e s = snd (filter_check cfg (fst e) (snd e) s)"

interpretation flt: step_system "filter_step cfg" "filter_inv cfg" for cfg
  by unfold_locales (simp add: filter_step_def filter_check_inv)

subsection \<open>Acting on an incident\<close>

lemma filter_check_Act:
  assumes "filter_check cfg now i s = (Inr Act, t)"
  obtains iid rc where
    "py_key (dict_get i ''incident_id'') = Inr iid" and "iid \<notin> set (seen s)"
    and "stale_age cfg now i = Inr None"
    and "py_key (dict_get i ''root_cause_service'') = Inr rc"
    and "in_cooldown cfg now (severity_of i) (last_acted s rc) = Inr False"
    and "last_acted t = (last_acted s)(rc \<mapsto> (now, severity_of i))"
  using assms
  by (auto simp: filter_check_def Let_def split: sum.splits option.splits bool.splits if_splits)

lemma filter_check_not_Act:
  assumes "fst (filter_check cfg now i s) \<noteq> Inr Act"
  shows "last_acted (snd (filter_check cfg now i s)) = last_acted s"
  using assms
  by (auto simp: filter_check_def Let_def split: sum.splits option.splits bool.splits if_splits)

text \<open>The incidents of a run that were acted on, in order.\<close>

fun acted_log :: "filter_config \<Rightarrow> (real \<times> pydict) list \<Rightarrow> filter_state \<Rightarrow> (real \<times> pydict) list" where
  "acted_log cfg [] s = []"
| "acted_log cfg (e # es) s =
     (if fst (filter_check cfg (fst e) (snd e) s) = Inr Act
      then e # acted_log cfg es (filter_step cfg e s)
      else acted_log cfg es (filter_step cfg e s))"

lemma set_acted_log: "set (acted_log cfg es s) \<subseteq> set es"
  by (induction cfg es s rule: acted_log.induct) auto

subsection \<open>The cooldown over a whole run\<close>

definition sev_num :: "pydict \<Rightarrow> real" where
  "sev_num i = the (num_of (severity_of i))"

text \<open>Two incidents acted on, one after the other: same root cause and within the cooldown
  only if the later one is more severe.\<close>

definition escalates :: "filter_config \<Rightarrow> real \<times> pydict \<Rightarrow> real \<times> pydict \<Rightarrow> bool" where
  "escalates cfg e f \<longleftrightarrow>
     (py_key (dict_get (snd e) ''root_cause_service'') = py_key (dict_get (snd f) ''root_cause_service'')
        \<and> fst f - fst e < of_int (cooldown_seconds cfg)
      \<longrightarrow> sev_num (snd e) < sev_num (snd f))"

text \<open>What the filter still knows of the incidents it acted on in the past.\<close>

definition remembers :: "filter_config \<Rightarrow> real \<Rightarrow> (real \<times> pydict) set \<Rightarrow> filter_state \<Rightarrow> bool" where
  "remembers cfg now past s \<longleftrightarrow>
     (\<forall>rc t sev. last_acted s rc = Some (t, sev) \<longrightarrow> t \<le> now \<and> num_of sev \<noteq> None) \<and>
     (\<forall>(t, i) \<in> past. \<exists>rc u sev.
        py_key (dict_get i ''root_cause_service'') = Inr rc \<and> last_acted s rc = Some (u, sev) \<and>
        t \<le> u \<and> (u - t < of_int (cooldown_seconds cfg) \<longrightarrow> sev_num i \<le> the (num_of sev)))"

lemma remembers_later: "remembers cfg now past s \<Longrightarrow> now \<le> later \<Longrightarrow> remembers cfg later past s"
  unfolding remembers_def by (meson order_trans)

lemma remembers_escalates:
  assumes past: "remembers cfg now past s" and p: "p \<in> past"
    and sev: "num_of (severity_of i) \<noteq> None"
    and act: "filter_check cfg now i s = (Inr Act, t)"
  shows "escalates cfg p (now, i)"
proof -
  obtain tp j where p_eq: "p = (tp, j)" by (cases p)
  with past p obtain rc u sv where rc: "py_key (dict_get j ''root_cause_service'') = Inr rc"
    and u: "last_acted s rc = Some (u, sv)" "tp \<le> u"
    and le: "u - tp < of_int (cooldown_seconds cfg) \<longrightarrow> sev_num j \<le> the (num_of sv)"
    unfolding remembers_def by blast
  from past u have u_now: "u \<le> now" and "num_of sv \<noteq> None"
    unfolding remembers_def by blast+
  then obtain y where y: "num_of sv = Some y" by blast
  from sev obtain x where x: "num_of (severity_of i) = Some x" by blast
  from act obtain rc' where rc': "py_key (dict_get i ''root_cause_service'') = Inr rc'"
    and cool: "in_cooldown cfg now (severity_of i) (last_acted s rc') = Inr False"
    by (rule filter_check_Act) blast
  show ?thesis
  proof (cases "rc = rc' \<and> now - tp < of_int (cooldown_seconds cfg)")
    case True
    with u u_now have "now - u < of_int (cooldown_seconds cfg)"
      and *: "u - tp < of_int (cooldown_seconds cfg)" by linarith+
    with True cool u have "py_le (severity_of i) sv = Inr False"
      by (simp add: in_cooldown_def)
    then have "y < x" by (simp add: py_le_num [OF x y])
    with le * y x show ?thesis
      by (simp add: escalates_def p_eq sev_num_def)
  next
    case False
    with rc rc' show ?thesis by (auto simp: escalates_def p_eq)
  qed
qed

lemma remembers_step:
  assumes past: "remembers cfg now past s" and sev: "num_of (severity_of i) \<noteq> None"
    and act: "filter_check cfg now i s = (Inr Act, t)"
  shows "remembers cfg now (insert (now, i) past) t"
proof -
  from act obtain rc where rc: "py_key (dict_get i ''root_cause_service'') = Inr rc"
    and t: "last_acted t = (last_acted s)(rc \<mapsto> (now, severity_of i))"
    by (rule filter_check_Act) blast
  have known: "\<exists>rc u sv. py_key (dict_get j ''root_cause_service'') = Inr rc \<and>
      last_acted t rc = Some (u, sv) \<and> tp \<le> u \<and>
      (u - tp < of_int (cooldown_seconds cfg) \<longrightarrow> sev_num j \<le> the (num_of sv))"
    if p: "(tp, j) \<in> past" for tp j
  proof -
    from past p obtain rp u sv where rp: "py_key (dict_get j ''root_cause_service'') = Inr rp"
      and u: "last_acted s rp = Some (u, sv)" "tp \<le> u"
      and le: "u - tp < of_int (cooldown_seconds cfg) \<longrightarrow> sev_num j \<le> the (num_of sv)"
      unfolding remembers_def by blast
    show ?thesis
    proof (cases "rp = rc")
      case False
      with rp u le t show ?thesis by auto
    next
      case True
      from past u have "u \<le> now" unfolding remembers_def by blast
      moreover have "escalates cfg (tp, j) (now, i)"
        by (rule remembers_escalates [OF past p sev act])
      ultimately show ?thesis
        using True rp rc t u by (auto simp: escalates_def sev_num_def)
    qed
  qed
  from past sev t have "\<forall>rc u sv. last_acted t rc = Some (u, sv) \<longrightarrow> u \<le> now \<and> num_of sv \<noteq> None"
    unfolding remembers_def by auto
  moreover have "\<exists>rc u sv. py_key (dict_get i ''root_cause_service'') = Inr rc \<and>
      last_acted t rc = Some (u, sv) \<and> now \<le> u \<and>
      (u - now < of_int (cooldown_seconds cfg) \<longrightarrow> sev_num i \<le> the (num_of sv))"
    using rc t by (simp add: sev_num_def)
  ultimately show ?thesis
    unfolding remembers_def using known by blast
qed

lemma acted_log_escalates:
  assumes "remembers cfg now past s" and "sorted (now # map fst es)"
    and "\<forall>e \<in> set es. num_of (severity_of (snd e)) \<noteq> None"
  shows "sorted_wrt (escalates cfg) (acted_log cfg es s) \<and>
         (\<forall>p \<in> past. \<forall>e \<in> set (acted_log cfg es s). escalates cfg p e)"
  using assms
proof (induction es arbitrary: now past s)
  case Nil
  then show ?case by simp
next
  case (Cons e es)
  obtain t i where e: "e = (t, i)" by (cases e)
  from Cons.prems e have past: "remembers cfg t past s"
    and sev: "num_of (severity_of i) \<noteq> None"
    and rest: "sorted (t # map fst es)" "\<forall>e \<in> set es. num_of (severity_of (snd e)) \<noteq> None"
    by (auto intro: remembers_later)
  show ?case
  proof (cases "fst (filter_check cfg t i s) = Inr Act")
    case True
    then have act: "filter_check cfg t i s = (Inr Act, filter_step cfg e s)"
      by (simp add: e filter_step_def prod_eq_iff)
    note IH = Cons.IH [OF remembers_step [OF past sev act] rest]
    have "\<forall>p \<in> past. escalates cfg p (t, i)"
      using remembers_escalates [OF past _ sev act] by blast
    with IH True show ?thesis by (auto simp: e)
  next
    case False
    then have "last_acted (filter_step cfg e s) = last_acted s"
      by (simp add: e filter_step_def filter_check_not_Act)
    with past have "remembers cfg t past (filter_step cfg e s)"
      by (simp add: remembers_def)
    from Cons.IH [OF this rest] False show ?thesis by (simp add: e)
  qed
qed

subsection \<open>Redelivery\<close>

text \<open>An id that is followed by at most \<open>n\<close> younger ones.\<close>

definition recent_id :: "nat \<Rightarrow> pyval \<Rightarrow> filter_state \<Rightarrow> bool" where
  "recent_id n k s \<longleftrightarrow> (\<exists>xs ys. seen s = xs @ k # ys \<and> length ys \<le> n)"

lemma take_last_keeps:
  assumes "length ys < n"
  shows "\<exists>zs. take_last n (xs @ k # ys) = zs @ k # ys"
proof -
  have "length (xs @ k # ys) - n \<le> length xs" using assms by simp
  then show ?thesis by (auto simp: take_last_def)
qed

lemma recent_id_step:
  assumes "recent_id n k s" and "Suc n < max_seen cfg"
  shows "recent_id (Suc n) k (filter_step cfg e s)"
proof -
  from assms obtain xs ys where s: "seen s = xs @ k # ys" "length ys \<le> n"
    unfolding recent_id_def by blast
  have "\<exists>zs. take_last (max_seen cfg) (xs @ k # ys @ [j]) = zs @ k # ys @ [j]" for j
    using take_last_keeps [of "ys @ [j]" "max_seen cfg" xs k] s assms(2) by auto
  moreover have "seen (filter_step cfg e s) = seen s \<or>
      (\<exists>j. seen (filter_step cfg e s) = take_last (max_seen cfg) (seen s @ [j]))"
    by (auto simp: filter_step_def filter_check_seen split: sum.splits)
  ultimately have "\<exists>zs ws. seen (filter_step cfg e s) = zs @ k # ws \<and> length ws \<le> Suc n"
    using s by (metis append_Cons append_assoc le_Suc_eq length_append_singleton Suc_le_mono)
  then show ?thesis by (simp add: recent_id_def)
qed

lemma recent_id_run:
  "recent_id n k s \<Longrightarrow> n + length es < max_seen cfg \<Longrightarrow>
     recent_id (n + length es) k (fold (filter_step cfg) es s)"
proof (induction es arbitrary: n s)
  case Nil
  then show ?case by simp
next
  case (Cons e es)
  from Cons.prems have "recent_id (Suc n) k (filter_step cfg e s)"
    by (intro recent_id_step) simp_all
  from Cons.IH [OF this] Cons.prems show ?case by simp
qed

lemma checked_id_known:
  assumes "py_key (dict_get i ''incident_id'') = Inr iid" and "iid \<notin> set (seen s)"
    and "length es < max_seen cfg"
  shows "iid \<in> set (seen (fold (filter_step cfg) es (filter_step cfg (now, i) s)))"
proof -
  have "seen (filter_step cfg (now, i) s) = take_last (max_seen cfg) (seen s @ [iid])"
    using assms(1,2) by (simp add: filter_step_def filter_check_seen)
  moreover have "\<exists>zs. take_last (max_seen cfg) (seen s @ [iid]) = zs @ [iid]"
    using take_last_keeps [of "[]" "max_seen cfg" "seen s" iid] assms(3) by simp
  ultimately have "recent_id 0 iid (filter_step cfg (now, i) s)"
    by (auto simp: recent_id_def)
  then have "recent_id (length es) iid (fold (filter_step cfg) es (filter_step cfg (now, i) s))"
    using recent_id_run [of 0] assms(3) by simp
  then show ?thesis by (auto simp: recent_id_def)
qed

lemma filter_check_known:
  "py_key (dict_get i ''incident_id'') = Inr iid \<Longrightarrow> iid \<in> set (seen s) \<Longrightarrow>
     filter_check cfg now i s = (Inr (Skip Duplicate), s)"
  by (simp add: filter_check_def)

text \<open>
  Redelivery is harmless: once an incident id has been checked and was new, checking the
  same incident again is answered "duplicate" and leaves the filter unchanged, whatever its
  first answer was and however much time has passed, as long as fewer than \<open>max_seen\<close>
  other incidents were checked in between.
\<close>

theorem filter_redelivery:
  assumes "py_key (dict_get i ''incident_id'') = Inr iid" and "iid \<notin> set (seen s)"
    and "length es < max_seen cfg"
    and "t = fold (filter_step cfg) es (filter_step cfg (now, i) s)"
  shows "filter_check cfg later i t = (Inr (Skip Duplicate), t)"
  using checked_id_known [OF assms(1-3)] assms(1,4) by (simp add: filter_check_known)

definition ex_incident :: "string \<Rightarrow> int \<Rightarrow> pydict" where
  "ex_incident iid sev =
     [(''incident_id'', PStr iid), (''root_cause_service'', PStr ''svc-1''),
      (''severity'', PInt sev), (''closed_at'', PFloat 990)]"

lemmas ex_incident_simps =
  ex_incident_def filter_step_def filter_check_def evict_eq take_last_def stale_age_def
  severity_of_def py_or_def in_cooldown_def num_minus_def dict_defs init_filter_def
  default_filter_config_def Let_def

theorem filter_redelivery_witness:
  "filter_check default_filter_config 5000 (ex_incident ''a'' 3)
     (filter_step default_filter_config (1010, ex_incident ''b'' 4)
        (filter_step default_filter_config (1000, ex_incident ''a'' 3) init_filter))
   = (Inr (Skip Duplicate),
      filter_step default_filter_config (1010, ex_incident ''b'' 4)
        (filter_step default_filter_config (1000, ex_incident ''a'' 3) init_filter))"
  by (rule filter_redelivery [where iid = "PStr ''a''" and es = "[(1010, ex_incident ''b'' 4)]"
        and s = init_filter and now = 1000])
    (simp_all add: ex_incident_simps)

text \<open>
  Alert hygiene over a whole run: starting from an empty filter, with a clock that does not
  go back and numeric severities, any two incidents of one root-cause service that are both acted
  on less than the cooldown apart have strictly increasing severities, however many
  incidents lie between them.
\<close>

theorem filter_cooldown_run:
  assumes "sorted (map fst es)"
    and "\<forall>e \<in> set es. num_of (severity_of (snd e)) \<noteq> None"
  shows "sorted_wrt (escalates cfg) (acted_log cfg es init_filter)"
proof (cases es)
  case Nil
  then show ?thesis by simp
next
  case (Cons e rest)
  have "remembers cfg (fst e) {} init_filter"
    by (simp add: remembers_def init_filter_def)
  from acted_log_escalates [OF this, of es] assms Cons show ?thesis by simp
qed

theorem filter_cooldown_run_witness:
  "sorted_wrt (escalates default_filter_config)
     (acted_log default_filter_config
        [(1000, ex_incident ''a'' 3), (1010, ex_incident ''b'' 4)] init_filter)
   \<and> length (acted_log default_filter_config
        [(1000, ex_incident ''a'' 3), (1010, ex_incident ''b'' 4)] init_filter) = 2"
proof
  show "sorted_wrt (escalates default_filter_config)
     (acted_log default_filter_config
        [(1000, ex_incident ''a'' 3), (1010, ex_incident ''b'' 4)] init_filter)"
    by (rule filter_cooldown_run) (simp_all add: ex_incident_simps)
qed (simp add: ex_incident_simps)

text \<open>
  An escalation is never swallowed: an incident with a new id that is not stale and whose
  severity is above the severity its root cause was last acted on at is acted on at any time, and
  the filter then remembers this time and severity for the root cause.
\<close>

theorem filter_escalation_passes:
  assumes "py_key (dict_get i ''incident_id'') = Inr iid" and "iid \<notin> set (seen s)"
    and "stale_age cfg now i = Inr None"
    and "py_key (dict_get i ''root_cause_service'') = Inr rc"
    and "last_acted s rc = Some (acted_at, last_sev)"
    and "num_of (severity_of i) = Some x" and "num_of last_sev = Some y" and "y < x"
  shows "fst (filter_check cfg now i s) = Inr Act \<and>
         last_acted (snd (filter_check cfg now i s)) rc = Some (now, severity_of i)"
  using assms by (simp_all add: filter_check_def in_cooldown_def py_le_num Let_def)

theorem filter_escalation_passes_witness:
  "fst (filter_check default_filter_config 1010 (ex_incident ''b'' 4)
          (filter_step default_filter_config (1000, ex_incident ''a'' 3) init_filter)) = Inr Act"
  by (rule conjunct1 [OF filter_escalation_passes [where iid = "PStr ''b''" and rc = "PStr ''svc-1''"
        and acted_at = 1000 and last_sev = "PInt 3" and x = 4 and y = 3]])
    (simp_all add: ex_incident_simps)

text \<open>
  What acting means: \<open>check\<close> says "act" only for an id that was not remembered, an incident
  that is not older than the limit, and a root cause that is not in its cooldown; every other
  answer leaves the cooldown table as it was.
\<close>

theorem filter_act_sound:
  assumes "fst (filter_check cfg now i s) = Inr Act"
  shows "\<exists>iid rc. py_key (dict_get i ''incident_id'') = Inr iid \<and> iid \<notin> set (seen s) \<and>
           py_key (dict_get i ''root_cause_service'') = Inr rc \<and>
           (\<forall>c. num_of (dict_get i ''closed_at'') = Some c \<longrightarrow>
                  now - c \<le> of_int (max_age_seconds cfg)) \<and>
           (\<forall>t sev x y. last_acted s rc = Some (t, sev) \<and> num_of sev = Some y \<and>
                  num_of (severity_of i) = Some x \<and> now - t < of_int (cooldown_seconds cfg)
                  \<longrightarrow> y < x)"
proof -
  from assms obtain t where "filter_check cfg now i s = (Inr Act, t)"
    by (metis prod.collapse)
  then obtain iid rc where *: "py_key (dict_get i ''incident_id'') = Inr iid"
    "iid \<notin> set (seen s)" "stale_age cfg now i = Inr None"
    "py_key (dict_get i ''root_cause_service'') = Inr rc"
    "in_cooldown cfg now (severity_of i) (last_acted s rc) = Inr False"
    by (rule filter_check_Act) blast
  then have "\<forall>c. num_of (dict_get i ''closed_at'') = Some c \<longrightarrow> now - c \<le> of_int (max_age_seconds cfg)"
    by (auto simp: stale_age_def num_minus_def split: if_splits)
  moreover have "\<forall>t sev x y. last_acted s rc = Some (t, sev) \<and> num_of sev = Some y \<and>
      num_of (severity_of i) = Some x \<and> now - t < of_int (cooldown_seconds cfg) \<longrightarrow> y < x"
    using * by (auto simp: in_cooldown_def py_le_num)
  ultimately show ?thesis using * by blast
qed

theorem filter_act_sound_witness:
  "\<exists>iid rc. py_key (dict_get (ex_incident ''a'' 3) ''incident_id'') = Inr iid \<and>
     iid \<notin> set (seen init_filter) \<and>
     py_key (dict_get (ex_incident ''a'' 3) ''root_cause_service'') = Inr rc"
  using filter_act_sound [of default_filter_config 1000 "ex_incident ''a'' 3" init_filter]
  by (simp add: ex_incident_simps)

text \<open>
  The filter's memory is bounded: in every run from an empty filter the remembered ids are
  distinct and never more than \<open>max_seen\<close>.
\<close>

theorem filter_memory_bounded:
  "distinct (seen (fold (filter_step cfg) es init_filter)) \<and>
   length (seen (fold (filter_step cfg) es init_filter)) \<le> max_seen cfg"
  using flt.run_inv [OF filter_inv_init, of cfg es] by (simp add: filter_inv_def)

end
