(* ===== verification/RuleEngine.thy ===== *)
theory RuleEngine
  imports Py_Values
begin

section \<open>The rule engine of the orchestrator\<close>

text \<open>
  \<open>orchestrator/rule_engine.py\<close> and the rule set of \<open>orchestrator/rules.yaml\<close>: rules are tried
  in file order and the first whose condition matches the incident is the result. Parsing the
  YAML file is not modelled; the parsed rules are an argument.
\<close>

text \<open>A condition has only optional fields; an absent field is \<open>None\<close>.\<close>

record condition =
  min_severity :: "int option"
  anomaly_types :: "string list option"
  min_member_services :: "int option"

record rule =
  rule_name :: string
  rule_condition :: condition
  rule_actions :: "string list"

definition no_condition :: condition where
  "no_condition = \<lparr>min_severity = None, anomaly_types = None, min_member_services = None\<rparr>"

text \<open>\<open>rules.yaml\<close>, top to bottom.\<close>

definition default_rules :: "rule list" where
  "default_rules =
     [\<lparr>rule_name = ''critical_multi_service_cascade'',
       rule_condition = no_condition\<lparr>min_severity := Some 4, min_member_services := Some 3\<rparr>,
       rule_actions = [''trigger_hpa'', ''rollback_canary'', ''post_slack'', ''generate_runbook'']\<rparr>,
      \<lparr>rule_name = ''critical_single_service'',
       rule_condition = no_condition\<lparr>min_severity := Some 4\<rparr>,
       rule_actions = [''trigger_hpa'', ''post_slack'', ''generate_runbook'']\<rparr>,
      \<lparr>rule_name = ''cpu_saturation'',
       rule_condition = no_condition\<lparr>anomaly_types := Some [''CPU_SPIKE''], min_severity := Some 3\<rparr>,
       rule_actions = [''trigger_hpa'', ''post_slack'']\<rparr>,
      \<lparr>rule_name = ''moderate_incident'',
       rule_condition = no_condition\<lparr>min_severity := Some 2\<rparr>,
       rule_actions = [''post_slack'']\<rparr>,
      \<lparr>rule_name = ''default_low_severity'',
       rule_condition = no_condition,
       rule_actions = [''post_slack'']\<rparr>]"

subsection \<open>Matching\<close>

definition below_severity :: "condition \<Rightarrow> pydict \<Rightarrow> exn + bool" where
  "below_severity c i =
     (case min_severity c of
        None \<Rightarrow> Inr False
      | Some n \<Rightarrow> py_lt_num (dict_get_or i ''severity'' (PInt 0)) (of_int n))"

definition lacks_types :: "condition \<Rightarrow> pydict \<Rightarrow> exn + bool" where
  "lacks_types c i =
     (case anomaly_types c of
        None \<Rightarrow> Inr False
      | Some ts \<Rightarrow>
          rbind (py_set (dict_get_or i ''anomaly_types'' (PList [])))
            (\<lambda>ks. Inr (set ks \<inter> PStr ` set ts = {})))"

definition below_members :: "condition \<Rightarrow> pydict \<Rightarrow> exn + bool" where
  "below_members c i =
     (case min_member_services c of
        None \<Rightarrow> Inr False
      | Some n \<Rightarrow>
          rbind (py_len (dict_get_or i ''member_service_ids'' (PList [])))
            (\<lambda>m. Inr (int m < n)))"

definition matches :: "condition \<Rightarrow> pydict \<Rightarrow> exn + bool" where
  "matches c i =
     rbind (below_severity c i) (\<lambda>b. if b then Inr False else
     rbind (lacks_types c i) (\<lambda>b. if b then Inr False else
     rbind (below_members c i) (\<lambda>b. if b then Inr False else Inr True)))"

fun evaluate :: "rule list \<Rightarrow> pydict \<Rightarrow> exn + rule option" where
  "evaluate [] i = Inr None"
| "evaluate (r # rs) i =
     rbind (matches (rule_condition r) i) (\<lambda>b. if b then Inr (Some r) else evaluate rs i)"

subsection \<open>First match\<close>

lemma evaluate_append_no_match:
  "\<forall>r \<in> set rs. matches (rule_condition r) i = Inr False \<Longrightarrow> evaluate (rs @ qs) i = evaluate qs i"
  by (induction rs) auto

lemma evaluate_Some_iff:
  "evaluate rs i = Inr (Some r) \<longleftrightarrow>
     (\<exists>before after. rs = before @ r # after \<and> matches (rule_condition r) i = Inr True \<and>
        (\<forall>q \<in> set before. matches (rule_condition q) i = Inr False))"
proof
  assume "evaluate rs i = Inr (Some r)"
  then show "\<exists>before after. rs = before @ r # after \<and> matches (rule_condition r) i = Inr True \<and>
        (\<forall>q \<in> set before. matches (rule_condition q) i = Inr False)"
  proof (induction rs)
    case Nil
    then show ?case by simp
  next
    case (Cons q rs)
    show ?case
    proof (cases "matches (rule_condition q) i")
      case (Inl e)
      with Cons.prems show ?thesis by simp
    next
      case (Inr b)
      show ?thesis
      proof (cases b)
        case True
        with Cons.prems Inr have "q # rs = [] @ r # rs" "matches (rule_condition r) i = Inr True"
          by simp_all
        then show ?thesis by (metis empty_iff empty_set)
      next
        case False
        with Cons Inr obtain before after where "rs = before @ r # after"
          "matches (rule_condition r) i = Inr True"
          "\<forall>q \<in> set before. matches (rule_condition q) i = Inr False" by auto
        with False Inr show ?thesis
          by (intro exI [of _ "q # before"] exI [of _ after]) simp
      qed
    qed
  qed
next
  assume "\<exists>before after. rs = before @ r # after \<and> matches (rule_condition r) i = Inr True \<and>
        (\<forall>q \<in> set before. matches (rule_condition q) i = Inr False)"
  then show "evaluate rs i = Inr (Some r)"
    by (auto simp: evaluate_append_no_match)
qed

text \<open>
  An incident as the correlation engine publishes it: an integer severity, string anomaly
  types and member services.
\<close>

definition published_shape :: "pydict \<Rightarrow> int \<Rightarrow> string list \<Rightarrow> string list \<Rightarrow> bool" where
  "published_shape i sev types members \<longleftrightarrow>
     map_of i ''severity'' = Some (PInt sev) \<and>
     map_of i ''anomaly_types'' = Some (PList (map PStr types)) \<and>
     map_of i ''member_service_ids'' = Some (PList (map PStr members))"

lemma matches_published:
  assumes "published_shape i sev types members"
  shows "matches c i = Inr
     ((case min_severity c of None \<Rightarrow> True | Some n \<Rightarrow> n \<le> sev) \<and>
      (case anomaly_types c of None \<Rightarrow> True | Some ts \<Rightarrow> set types \<inter> set ts \<noteq> {}) \<and>
      (case min_member_services c of None \<Rightarrow> True | Some n \<Rightarrow> n \<le> int (length members)))"
proof -
  have "PStr ` set types \<inter> PStr ` set ts = {} \<longleftrightarrow> set types \<inter> set ts = {}" for ts
    by auto
  with assms show ?thesis
    by (auto simp: published_shape_def matches_def below_severity_def lacks_types_def
          below_members_def py_lt_num_def py_set_def dict_get_or_def split: option.splits)
qed

text \<open>
  First match wins: the engine returns a rule exactly when that rule's condition matches the
  incident and no rule above it in the file does.
\<close>

theorem rule_first_match:
  "evaluate rs i = Inr (Some r) \<longleftrightarrow>
     (\<exists>before after. rs = before @ r # after \<and> matches (rule_condition r) i = Inr True \<and>
        (\<forall>q \<in> set before. matches (rule_condition q) i = Inr False))"
  by (rule evaluate_Some_iff)

theorem rule_first_match_witness:
  "evaluate default_rules [(''severity'', PInt 2)] = Inr (Some (default_rules ! 3))"
proof (rule rule_first_match [THEN iffD2], intro exI conjI)
  show "default_rules = take 3 default_rules @ (default_rules ! 3) # drop 4 default_rules"
    by (simp add: default_rules_def)
qed (auto simp: default_rules_def no_condition_def matches_def below_severity_def lacks_types_def
    below_members_def py_lt_num_def py_set_def dict_get_or_def)

text \<open>The table of the shipped rules.\<close>

definition rule_table :: "int \<Rightarrow> nat \<Rightarrow> bool \<Rightarrow> string" where
  "rule_table sev members saturated =
     (if 4 \<le> sev \<and> 3 \<le> members then ''critical_multi_service_cascade''
      else if 4 \<le> sev then ''critical_single_service''
      else if 3 \<le> sev \<and> saturated then ''cpu_saturation''
      else if 2 \<le> sev then ''moderate_incident''
      else ''default_low_severity'')"

lemma default_rules_table:
  assumes "published_shape i sev types members"
  shows "map_sum id (map_option rule_name) (evaluate default_rules i) =
     Inr (Some (rule_table sev (length members) (''CPU_SPIKE'' \<in> set types)))"
  by (simp add: default_rules_def matches_published [OF assms] no_condition_def rule_table_def)

text \<open>
  The shipped rule set decides every published incident by severity, number of member services
  and CPU saturation, as the rule table of the documentation says, and always finds a rule.
\<close>

theorem default_rules_decide:
  assumes "published_shape i sev types members"
  shows "map_sum id (map_option rule_name) (evaluate default_rules i) =
     Inr (Some (if 4 \<le> sev \<and> 3 \<le> length members then ''critical_multi_service_cascade''
                else if 4 \<le> sev then ''critical_single_service''
                else if 3 \<le> sev \<and> ''CPU_SPIKE'' \<in> set types then ''cpu_saturation''
                else if 2 \<le> sev then ''moderate_incident''
                else ''default_low_severity''))"
  using default_rules_table [OF assms] by (simp add: rule_table_def)

definition ex_published :: "int \<Rightarrow> string list \<Rightarrow> pydict" where
  "ex_published sev members =
     [(''incident_id'', PStr ''0123456789''), (''root_cause_service'', PStr ''svc-a0bc923b''),
      (''causality_method'', PStr ''granger''),
      (''member_service_ids'', PList (map PStr members)), (''severity'', PInt sev),
      (''anomaly_types'', PList [PStr ''CPU_SPIKE''])]"

lemma ex_published_shape: "published_shape (ex_published sev members) sev [''CPU_SPIKE''] members"
  by (simp add: published_shape_def ex_published_def)

theorem default_rules_decide_witness:
  "map_sum id (map_option rule_name) (evaluate default_rules (ex_published 3 [''a'']))
     = Inr (Some ''cpu_saturation'')"
  using default_rules_decide [OF ex_published_shape, of 3 "[''a'']"] by simp

text \<open>Every rule of the shipped set posts to Slack.\<close>

lemma default_rules_post_slack: "r \<in> set default_rules \<Longrightarrow> ''post_slack'' \<in> set (rule_actions r)"
  by (auto simp: default_rules_def)

end
