(* ===== verification/K8sClient.thy ===== *)
theory K8sClient
  imports Py_Values "HOL-Library.AList"
begin

section \<open>The Kubernetes client of the orchestrator\<close>

text \<open>
  \<open>orchestrator/integrations/k8s_client.py\<close>: raising an HPA's \<open>minReplicas\<close> with a timed hold,
  putting it back, and aborting a canary. The Kubernetes API server and the clock are
  parameters: a record of functions over an unknown world \<open>'w\<close>.
\<close>

record 'w kube_api =
  kube_clock :: "'w \<Rightarrow> real \<times> 'w"
  read_hpa :: "string \<Rightarrow> ('w, int option) prog"
  patch_hpa :: "string \<Rightarrow> int \<Rightarrow> ('w, unit) prog"
  get_rollout :: "string \<Rightarrow> ('w, pydict) prog"
  patch_abort :: "string \<Rightarrow> ('w, unit) prog"

text \<open>\<open>_raised\<close>: rollout name to (original minReplicas, time to put it back), in dict order.\<close>

record 'w k8s =
  raised :: "(string \<times> (int \<times> real)) list"
  kworld :: 'w

definition service_id_to_rollout :: "string \<rightharpoonup> string" where
  "service_id_to_rollout =
     [''svc-a0bc923b'' \<mapsto> ''payment-service'',
      ''svc-be899d1f'' \<mapsto> ''order-service'',
      ''svc-02c8974b'' \<mapsto> ''inventory-service'',
      ''svc-bc56eed1'' \<mapsto> ''auth-service'']"

definition revert_retry_seconds :: real where
  "revert_retry_seconds = 60"

text \<open>\<open>K8sClient(...)\<close> or, without a cluster, \<open>DisabledK8sClient\<close>.\<close>

record k8s_config =
  k8s_enabled :: bool
  revert_after :: int

text \<open>\<open>SERVICE_ID_TO_ROLLOUT.get(service_id)\<close> on the service id as the message carries it.\<close>

definition rollout_name_for :: "k8s_config \<Rightarrow> pyval \<Rightarrow> exn + string option" where
  "rollout_name_for cfg sid =
     (if k8s_enabled cfg
      then rbind (py_key sid)
             (\<lambda>k. Inr (case k of PStr name \<Rightarrow> service_id_to_rollout name | _ \<Rightarrow> None))
      else Inr None)"

text \<open>\<open>spec.min_replicas or 1\<close>\<close>

definition effective_min :: "int option \<Rightarrow> int" where
  "effective_min m = (case m of None \<Rightarrow> 1 | Some n \<Rightarrow> if n = 0 then 1 else n)"

definition trigger_hpa :: "k8s_config \<Rightarrow> 'w kube_api \<Rightarrow> pyval \<Rightarrow> int \<Rightarrow> ('w k8s, bool) prog" where
  "trigger_hpa cfg api sid min_replicas s =
     (case rollout_name_for cfg sid of
        Inl e \<Rightarrow> (Inl e, s)
      | Inr None \<Rightarrow> (Inr False, s)
      | Inr (Some name) \<Rightarrow>
          let (now, w1) = kube_clock api (kworld s);
              revert_at = now + of_int (revert_after cfg)
          in (case map_of (raised s) name of
                Some (original, _) \<Rightarrow>
                  (Inr True, s\<lparr>raised := AList.update name (original, revert_at) (raised s), kworld := w1\<rparr>)
              | None \<Rightarrow>
                  (case read_hpa api name w1 of
                     (Inl e, w2) \<Rightarrow> (Inl e, s\<lparr>kworld := w2\<rparr>)
                   | (Inr m, w2) \<Rightarrow>
                       let current = effective_min m in
                       if current \<ge> min_replicas then (Inr True, s\<lparr>kworld := w2\<rparr>)
                       else (case patch_hpa api name min_replicas w2 of
                               (Inl e, w3) \<Rightarrow> (Inl e, s\<lparr>kworld := w3\<rparr>)
                             | (Inr _, w3) \<Rightarrow>
                                 (Inr True,
                                  s\<lparr>raised := AList.update name (current, revert_at) (raised s),
                                    kworld := w3\<rparr>)))))"

text \<open>The loop of \<open>revert_expired\<close> over a copy of the items.\<close>

fun revert_loop :: "'w kube_api \<Rightarrow> real \<Rightarrow> (string \<times> (int \<times> real)) list \<Rightarrow> 'w k8s \<Rightarrow> 'w k8s" where
  "revert_loop api now [] s = s"
| "revert_loop api now ((name, (original, revert_at)) # items) s =
     (if now < revert_at then revert_loop api now items s
      else (case patch_hpa api name original (kworld s) of
              (Inr _, w) \<Rightarrow>
                revert_loop api now items (s\<lparr>raised := AList.delete name (raised s), kworld := w\<rparr>)
            | (Inl e, w) \<Rightarrow>
                revert_loop api now items
                  (s\<lparr>raised := AList.update name (original, now + revert_retry_seconds) (raised s),
                     kworld := w\<rparr>)))"

definition revert_expired :: "k8s_config \<Rightarrow> 'w kube_api \<Rightarrow> ('w k8s, unit) prog" where
  "revert_expired cfg api s =
     (if k8s_enabled cfg then
        let (now, w) = kube_clock api (kworld s)
        in (Inr (), revert_loop api now (raised s) (s\<lparr>kworld := w\<rparr>))
      else (Inr (), s))"

text \<open>\<open>(rollout.get("status") or {}).get("phase")\<close>\<close>

definition rollout_phase :: "pydict \<Rightarrow> exn + pyval" where
  "rollout_phase ro =
     (case py_or (dict_get ro ''status'') (PDict []) of
        PDict d \<Rightarrow> Inr (dict_get d ''phase'')
      | _ \<Rightarrow> Inl AttributeError)"

definition rollback_canary :: "k8s_config \<Rightarrow> 'w kube_api \<Rightarrow> pyval \<Rightarrow> ('w k8s, bool) prog" where
  "rollback_canary cfg api sid s =
     (case rollout_name_for cfg sid of
        Inl e \<Rightarrow> (Inl e, s)
      | Inr None \<Rightarrow> (Inr False, s)
      | Inr (Some name) \<Rightarrow>
          (case get_rollout api name (kworld s) of
             (Inl e, w) \<Rightarrow> (Inl e, s\<lparr>kworld := w\<rparr>)
           | (Inr ro, w) \<Rightarrow>
               (case rollout_phase ro of
                  Inl e \<Rightarrow> (Inl e, s\<lparr>kworld := w\<rparr>)
                | Inr phase \<Rightarrow>
                    if phase = PStr ''Healthy'' then (Inr False, s\<lparr>kworld := w\<rparr>)
                    else (case patch_abort api name w of
                            (Inl e, w2) \<Rightarrow> (Inl e, s\<lparr>kworld := w2\<rparr>)
                          | (Inr _, w2) \<Rightarrow> (Inr True, s\<lparr>kworld := w2\<rparr>)))))"

subsection \<open>What the client relies on\<close>

text \<open>
  The documented behaviour of the API server: \<open>obs w n\<close> is the \<open>minReplicas\<close> it stores for
  the HPA \<open>n\<close>. Reading returns it, an accepted patch replaces it, a rejected request changes
  nothing, and nothing else the client does touches it.
\<close>

definition hpa_server :: "'w kube_api \<Rightarrow> ('w \<Rightarrow> string \<Rightarrow> int option) \<Rightarrow> bool" where
  "hpa_server api obs \<longleftrightarrow>
     (\<forall>w. obs (snd (kube_clock api w)) = obs w) \<and>
     (\<forall>n w. obs (snd (read_hpa api n w)) = obs w) \<and>
     (\<forall>n w m. fst (read_hpa api n w) = Inr m \<longrightarrow> m = obs w n) \<and>
     (\<forall>n m w. obs (snd (patch_hpa api n m w)) =
        (case fst (patch_hpa api n m w) of Inl e \<Rightarrow> obs w | Inr _ \<Rightarrow> (obs w)(n \<mapsto> m))) \<and>
     (\<forall>n w. obs (snd (get_rollout api n w)) = obs w) \<and>
     (\<forall>n w. obs (snd (patch_abort api n w)) = obs w)"

lemma hpa_serverD:
  assumes "hpa_server api obs"
  shows "kube_clock api w = (t, w1) \<Longrightarrow> obs w1 = obs w"
    and "read_hpa api n w = (r, w1) \<Longrightarrow> obs w1 = obs w"
    and "read_hpa api n w = (Inr m, w1) \<Longrightarrow> m = obs w n"
    and "patch_hpa api n k w = (Inr u, w1) \<Longrightarrow> obs w1 = (obs w)(n \<mapsto> k)"
    and "patch_hpa api n k w = (Inl e, w1) \<Longrightarrow> obs w1 = obs w"
    and "get_rollout api n w = (ro, w1) \<Longrightarrow> obs w1 = obs w"
    and "patch_abort api n w = (r', w1) \<Longrightarrow> obs w1 = obs w"
  using assms unfolding hpa_server_def
  by (metis fst_conv snd_conv sum.case)+

text \<open>
  The invariant of the holds, relative to the values \<open>base\<close> before the client did anything: a
  service that is held has \<open>minReplicas = target\<close> and its hold remembers the original; every
  other service has its original value.
\<close>

fun hold_ok :: "int option \<Rightarrow> int \<Rightarrow> (int \<times> real) option \<Rightarrow> int option \<Rightarrow> bool" where
  "hold_ok b target None v = (effective_min v = effective_min b)"
| "hold_ok b target (Some (original, _)) v = (original = effective_min b \<and> v = Some target)"

definition holds_ok ::
  "(string \<Rightarrow> int option) \<Rightarrow> int \<Rightarrow> (string \<rightharpoonup> int \<times> real) \<Rightarrow> (string \<Rightarrow> int option) \<Rightarrow> bool" where
  "holds_ok base target held ob \<longleftrightarrow> (\<forall>n. hold_ok (base n) target (held n) (ob n))"

definition hold_inv :: "('w \<Rightarrow> string \<Rightarrow> int option) \<Rightarrow> (string \<Rightarrow> int option) \<Rightarrow> int \<Rightarrow> 'w k8s \<Rightarrow> bool" where
  "hold_inv obs base target s \<longleftrightarrow>
     distinct (map fst (raised s)) \<and> holds_ok base target (map_of (raised s)) (obs (kworld s))"

lemma effective_min_idem [simp]: "effective_min (Some (effective_min m)) = effective_min m"
  by (simp add: effective_min_def split: option.splits)

lemma holds_ok_extend:
  assumes "holds_ok base target held ob" and "held n = Some (original, r)"
  shows "holds_ok base target (held(n \<mapsto> (original, r'))) ob"
proof -
  from assms have "hold_ok (base n) target (Some (original, r)) (ob n)"
    unfolding holds_ok_def by metis
  with assms(1) show ?thesis by (simp add: holds_ok_def)
qed

lemma holds_ok_raise:
  assumes "holds_ok base target held ob" and "held n = None"
  shows "holds_ok base target (held(n \<mapsto> (effective_min (ob n), r))) (ob(n \<mapsto> target))"
proof -
  from assms have "hold_ok (base n) target None (ob n)"
    unfolding holds_ok_def by metis
  with assms(1) show ?thesis by (simp add: holds_ok_def)
qed

lemma holds_ok_drop:
  assumes "holds_ok base target held ob" and "held n = Some (original, r)"
  shows "holds_ok base target (held(n := None)) (ob(n \<mapsto> original))"
proof -
  from assms have "hold_ok (base n) target (Some (original, r)) (ob n)"
    unfolding holds_ok_def by metis
  with assms(1) show ?thesis by (simp add: holds_ok_def)
qed

lemma hold_inv_world:
  "hold_inv obs base target s \<Longrightarrow> obs w = obs (kworld s) \<Longrightarrow> hold_inv obs base target (s\<lparr>kworld := w\<rparr>)"
  by (simp add: hold_inv_def)

lemma hold_inv_renewed:
  assumes "hold_inv obs base target s" and "map_of (raised s) name = Some (original, r)"
    and "obs w = obs (kworld s)"
  shows "hold_inv obs base target (s\<lparr>raised := AList.update name (original, r') (raised s), kworld := w\<rparr>)"
  using assms by (simp add: hold_inv_def update_conv' distinct_update holds_ok_extend [where r = r])

lemma hold_inv_raised:
  assumes "hold_inv obs base target s" and "map_of (raised s) name = None"
    and "obs w = (obs (kworld s))(name \<mapsto> target)"
  shows "hold_inv obs base target
     (s\<lparr>raised := AList.update name (effective_min (obs (kworld s) name), r) (raised s), kworld := w\<rparr>)"
  using assms by (simp add: hold_inv_def update_conv' distinct_update holds_ok_raise)

lemma hold_inv_dropped:
  assumes "hold_inv obs base target s" and "map_of (raised s) name = Some (original, r)"
    and "obs w = (obs (kworld s))(name \<mapsto> original)"
  shows "hold_inv obs base target (s\<lparr>raised := AList.delete name (raised s), kworld := w\<rparr>)"
  using assms by (simp add: hold_inv_def delete_conv' distinct_delete holds_ok_drop [where r = r])

lemma trigger_hpa_hold_inv:
  assumes server: "hpa_server api obs" and inv: "hold_inv obs base target s"
  shows "hold_inv obs base target (snd (trigger_hpa cfg api sid target s))"
proof (cases "\<exists>name. rollout_name_for cfg sid = Inr (Some name)")
  case False
  with inv show ?thesis by (auto simp: trigger_hpa_def split: sum.splits option.splits)
next
  case True
  then obtain name where name: "rollout_name_for cfg sid = Inr (Some name)" by blast
  obtain now w1 where clock: "kube_clock api (kworld s) = (now, w1)" by fastforce
  note w1 = hpa_serverD(1) [OF server clock]
  show ?thesis
  proof (cases "map_of (raised s) name")
    case (Some h)
    with name clock inv w1 show ?thesis
      by (cases h) (simp add: trigger_hpa_def Let_def hold_inv_renewed)
  next
    case None
    obtain m w2 where read: "read_hpa api name w1 = (m, w2)" by fastforce
    note w2 = hpa_serverD(2) [OF server read]
    show ?thesis
    proof (cases m)
      case (Inl e)
      with name None clock read inv w1 w2 show ?thesis
        by (simp add: trigger_hpa_def Let_def hold_inv_world)
    next
      case (Inr v)
      have v: "v = obs (kworld s) name" using hpa_serverD(3) [OF server read [unfolded Inr]] w1 by simp
      obtain res w3 where patch: "patch_hpa api name target w2 = (res, w3)" by fastforce
      show ?thesis
      proof (cases res)
        case (Inl e)
        with hpa_serverD(5) [OF server patch [unfolded Inl]] Inr name None clock read patch inv w1 w2
        show ?thesis by (simp add: trigger_hpa_def Let_def hold_inv_world)
      next
        case (Inr u)
        from hpa_serverD(4) [OF server patch [unfolded Inr]]
        have "obs w3 = (obs (kworld s))(name \<mapsto> target)" using w1 w2 by simp
        with \<open>m = Inr v\<close> Inr name None clock read patch inv w1 w2 v show ?thesis
          by (simp add: trigger_hpa_def Let_def hold_inv_world hold_inv_raised)
      qed
    qed
  qed
qed

text \<open>The items the loop still has to visit are holds as the state has them.\<close>

definition pending :: "(string \<times> (int \<times> real)) list \<Rightarrow> 'w k8s \<Rightarrow> bool" where
  "pending items s \<longleftrightarrow>
     distinct (map fst items) \<and> (\<forall>(n, v) \<in> set items. map_of (raised s) n = Some v)"

lemma pending_Cons:
  "pending ((n, v) # items) s \<Longrightarrow> map_of (raised s) n = Some v \<and> pending items s"
  by (auto simp: pending_def)

lemma pending_update:
  "pending ((n, v) # items) s \<Longrightarrow> pending items (s\<lparr>raised := AList.update n u (raised s), kworld := w\<rparr>)"
  "pending ((n, v) # items) s \<Longrightarrow> pending items (s\<lparr>raised := AList.delete n (raised s), kworld := w\<rparr>)"
  by (force simp: pending_def update_conv delete_conv)+

lemma pending_raised: "distinct (map fst (raised s)) \<Longrightarrow> pending (raised s) (s\<lparr>kworld := w\<rparr>)"
  by (auto simp: pending_def)

lemma revert_loop_hold_inv:
  assumes "hpa_server api obs" and "hold_inv obs base target s" and "pending items s"
  shows "hold_inv obs base target (revert_loop api now items s)"
  using assms(2-)
proof (induction items arbitrary: s)
  case Nil
  then show ?case by simp
next
  case (Cons item items)
  obtain name original r where item: "item = (name, original, r)" by (cases item)
  note p = Cons.prems(2) [unfolded item]
  note held = pending_Cons [OF p]
  show ?case
  proof (cases "now < r")
    case True
    with Cons.IH Cons.prems(1) held show ?thesis by (simp add: item)
  next
    case False
    obtain res w where patch: "patch_hpa api name original (kworld s) = (res, w)"
      by (cases "patch_hpa api name original (kworld s)")
    show ?thesis
    proof (cases res)
      case (Inl e)
      from hpa_serverD(5) [OF assms(1) patch [unfolded Inl]]
      have "hold_inv obs base target
              (s\<lparr>raised := AList.update name (original, now + revert_retry_seconds) (raised s), kworld := w\<rparr>)"
        using Cons.prems(1) held by (intro hold_inv_renewed) simp_all
      from Cons.IH [OF this pending_update(1) [OF p]] False patch Inl
      show ?thesis by (simp add: item)
    next
      case (Inr u)
      from hpa_serverD(4) [OF assms(1) patch [unfolded Inr]]
      have "hold_inv obs base target (s\<lparr>raised := AList.delete name (raised s), kworld := w\<rparr>)"
        using Cons.prems(1) held by (intro hold_inv_dropped) simp_all
      from Cons.IH [OF this pending_update(2) [OF p]] False patch Inr
      show ?thesis by (simp add: item)
    qed
  qed
qed

lemma revert_expired_hold_inv:
  assumes "hpa_server api obs" and "hold_inv obs base target s"
  shows "hold_inv obs base target (snd (revert_expired cfg api s))"
proof -
  obtain now w where clock: "kube_clock api (kworld s) = (now, w)"
    by (cases "kube_clock api (kworld s)")
  have "obs w = obs (kworld s)" by (rule hpa_serverD(1) [OF assms(1) clock])
  with assms(2) have "hold_inv obs base target (s\<lparr>kworld := w\<rparr>)"
    by (rule hold_inv_world)
  moreover have "pending (raised s) (s\<lparr>kworld := w\<rparr>)"
    using assms(2) by (simp add: hold_inv_def pending_raised)
  ultimately have "hold_inv obs base target (revert_loop api now (raised s) (s\<lparr>kworld := w\<rparr>))"
    by (rule revert_loop_hold_inv [OF assms(1)])
  with assms(2) clock show ?thesis by (simp add: revert_expired_def)
qed

text \<open>Aborting a canary touches neither the holds nor any HPA.\<close>

lemma rollback_canary_frame:
  assumes "hpa_server api obs"
  shows "raised (snd (rollback_canary cfg api sid s)) = raised s"
    and "obs (kworld (snd (rollback_canary cfg api sid s))) = obs (kworld s)"
  by (auto simp: rollback_canary_def hpa_serverD [OF assms]
        split: option.splits prod.splits sum.splits)

lemma rollback_canary_hold_inv:
  assumes "hpa_server api obs" and "hold_inv obs base target s"
  shows "hold_inv obs base target (snd (rollback_canary cfg api sid s))"
  using assms(2) by (simp only: hold_inv_def rollback_canary_frame [OF assms(1)])

subsection \<open>Runs of the client\<close>

datatype k8s_op = Trigger pyval | Revert | Rollback pyval

text \<open>The calls the orchestrator makes, in any order; an exception leaves the state it left.\<close>

fun k8s_step :: "k8s_config \<Rightarrow> 'w kube_api \<Rightarrow> int \<Rightarrow> k8s_op \<Rightarrow> 'w k8s \<Rightarrow> 'w k8s" where
  "k8s_step cfg api target (Trigger sid) s = snd (trigger_hpa cfg api sid target s)"
| "k8s_step cfg api target Revert s = snd (revert_expired cfg api s)"
| "k8s_step cfg api target (Rollback sid) s = snd (rollback_canary cfg api sid s)"

interpretation k8s_run: step_system "k8s_step cfg api target"
  "\<lambda>s. hpa_server api obs \<longrightarrow> hold_inv obs base target s" for cfg api target obs base
proof
  fix s :: "'a k8s" and e
  assume "hpa_server api obs \<longrightarrow> hold_inv obs base target s"
  then show "hpa_server api obs \<longrightarrow> hold_inv obs base target (k8s_step cfg api target e s)"
    by (cases e) (auto intro: trigger_hpa_hold_inv revert_expired_hold_inv rollback_canary_hold_inv)
qed

text \<open>
  No scale-up outlives its hold: whatever sequence of scale-ups, canary aborts and reverts the
  orchestrator runs, with any pattern of rejected requests, a service without a pending hold has
  its original \<open>minReplicas\<close> (where unset and 0 count as 1), and a held service is at the target
  with the original value remembered for the revert.
\<close>

theorem hpa_restored_unless_held:
  assumes server: "hpa_server api obs" and start: "raised s = []" "base = obs (kworld s)"
    and run: "t = fold (k8s_step cfg api target) ops s"
  shows "case map_of (raised t) n of
           None \<Rightarrow> effective_min (obs (kworld t) n) = effective_min (base n)
         | Some (original, _) \<Rightarrow>
             original = effective_min (base n) \<and> obs (kworld t) n = Some target"
proof -
  have "hold_inv obs base target s" using start by (simp add: hold_inv_def holds_ok_def)
  then have "hold_inv obs base target t"
    using k8s_run.run_inv [of api obs base target s cfg ops] server run by blast
  then have "hold_ok (base n) target (map_of (raised t) n) (obs (kworld t) n)"
    unfolding hold_inv_def holds_ok_def by blast
  then show ?thesis by (cases "(base n, target, map_of (raised t) n, obs (kworld t) n)" rule: hold_ok.cases) simp_all
qed

subsection \<open>The revert timer\<close>

lemma revert_loop_drops:
  assumes "\<forall>n v. map_of (raised s) n = Some v \<longrightarrow> now < snd v \<or> (n, v) \<in> set items"
    and "pending items s"
  shows "\<forall>n v. map_of (raised (revert_loop api now items s)) n = Some v \<longrightarrow> now < snd v"
  using assms
proof (induction items arbitrary: s)
  case Nil
  then show ?case by auto
next
  case (Cons item items)
  obtain name original r where item: "item = (name, original, r)" by (cases item)
  note p = Cons.prems(2) [unfolded item]
  note held = pending_Cons [OF p]
  show ?case
  proof (cases "now < r")
    case True
    have "\<forall>n v. map_of (raised s) n = Some v \<longrightarrow> now < snd v \<or> (n, v) \<in> set items"
      using Cons.prems(1) True item by auto
    from Cons.IH [OF this] held True show ?thesis by (simp add: item)
  next
    case False
    obtain res w where patch: "patch_hpa api name original (kworld s) = (res, w)"
      by (cases "patch_hpa api name original (kworld s)")
    show ?thesis
    proof (cases res)
      case (Inl e)
      let ?s = "s\<lparr>raised := AList.update name (original, now + revert_retry_seconds) (raised s), kworld := w\<rparr>"
      have "\<forall>n v. map_of (raised ?s) n = Some v \<longrightarrow> now < snd v \<or> (n, v) \<in> set items"
        using Cons.prems(1) item by (auto simp: update_conv revert_retry_seconds_def split: if_splits)
      from Cons.IH [OF this pending_update(1) [OF p]] False patch Inl show ?thesis by (simp add: item)
    next
      case (Inr u)
      let ?s = "s\<lparr>raised := AList.delete name (raised s), kworld := w\<rparr>"
      have "\<forall>n v. map_of (raised ?s) n = Some v \<longrightarrow> now < snd v \<or> (n, v) \<in> set items"
        using Cons.prems(1) item by (auto simp: delete_conv split: if_splits)
      from Cons.IH [OF this pending_update(2) [OF p]] False patch Inr show ?thesis by (simp add: item)
    qed
  qed
qed

text \<open>
  After \<open>revert_expired\<close> no hold is overdue: every hold that is left expires after the time
  the call read from the clock, whether its patch was accepted or failed (a failed one is retried
  60 seconds later), and the call itself never raises.
\<close>

theorem revert_expired_leaves_no_overdue:
  assumes "k8s_enabled cfg" and "distinct (map fst (raised s))"
    and "kube_clock api (kworld s) = (now, w)"
  shows "fst (revert_expired cfg api s) = Inr () \<and>
         (\<forall>n original u. map_of (raised (snd (revert_expired cfg api s))) n = Some (original, u)
            \<longrightarrow> now < u)"
proof -
  let ?s = "s\<lparr>kworld := w\<rparr>"
  have "\<forall>n v. map_of (raised ?s) n = Some v \<longrightarrow> now < snd v \<or> (n, v) \<in> set (raised s)"
    by (auto dest: map_of_SomeD)
  from revert_loop_drops [OF this pending_raised [OF assms(2)]] assms show ?thesis
    by (simp add: revert_expired_def)
qed

subsection \<open>A concrete API server\<close>

text \<open>A world for the witnesses: a clock and the stored values; every request is accepted.\<close>

definition ok_api :: "(real \<times> (string \<Rightarrow> int option)) kube_api" where
  "ok_api = \<lparr>kube_clock = (\<lambda>w. (fst w, w)),
             read_hpa = (\<lambda>n w. (Inr (snd w n), w)),
             patch_hpa = (\<lambda>n m w. (Inr (), (fst w, (snd w)(n \<mapsto> m)))),
             get_rollout = (\<lambda>n w. (Inr [], w)),
             patch_abort = (\<lambda>n w. (Inr (), w))\<rparr>"

lemma ok_api_server: "hpa_server ok_api snd"
  by (simp add: hpa_server_def ok_api_def)

theorem hpa_restored_unless_held_witness:
  "let s = \<lparr>raised = [], kworld = (0, [''payment-service'' \<mapsto> 2])\<rparr>;
       t = fold (k8s_step \<lparr>k8s_enabled = True, revert_after = 900\<rparr> ok_api 4)
             [Trigger (PStr ''svc-a0bc923b''), Revert] s
   in map_of (raised t) ''payment-service'' = Some (2, 900) \<and>
      snd (kworld t) ''payment-service'' = Some 4"
proof -
  define s :: "(real \<times> (string \<Rightarrow> int option)) k8s"
    where "s = \<lparr>raised = [], kworld = (0, [''payment-service'' \<mapsto> 2])\<rparr>"
  define t where "t = fold (k8s_step \<lparr>k8s_enabled = True, revert_after = 900\<rparr> ok_api 4)
             [Trigger (PStr ''svc-a0bc923b''), Revert] s"
  have held: "map_of (raised t) ''payment-service'' = Some (2, 900)"
    by (simp add: t_def s_def trigger_hpa_def rollout_name_for_def service_id_to_rollout_def
        ok_api_def effective_min_def revert_expired_def)
  have "raised s = []" by (simp add: s_def)
  from hpa_restored_unless_held [OF ok_api_server this refl t_def, of "''payment-service''"] held
  have "snd (kworld t) ''payment-service'' = Some 4" by simp
  with held show ?thesis unfolding s_def [symmetric] Let_def t_def [symmetric] by simp
qed

theorem revert_expired_leaves_no_overdue_witness:
  "fst (revert_expired \<lparr>k8s_enabled = True, revert_after = 900\<rparr> ok_api
          \<lparr>raised = [(''payment-service'', (2, 900))], kworld = (1000, [''payment-service'' \<mapsto> 4])\<rparr>)
     = Inr ()"
  by (rule conjunct1 [OF revert_expired_leaves_no_overdue
        [where now = 1000 and w = "(1000, [''payment-service'' \<mapsto> 4])"]])
    (simp_all add: ok_api_def)

end
