(* ===== verification/Notify.thy ===== *)
theory Notify
  imports Py_Values
begin

section \<open>Slack messages and LLM runbooks\<close>

text \<open>
  \<open>orchestrator/integrations/slack_client.py\<close> and \<open>llm_runbook.py\<close>: the text of the Slack post,
  the prompt of the runbook, the retry loop around the LLM call. The Slack and LLM services are
  parameters, programs over an unknown world; so is \<open>str()\<close> of floats and containers.
\<close>

subsection \<open>Text fragments\<close>

text \<open>The em dash of the message, in UTF-8, and a line break.\<close>

definition em_dash :: string where
  "em_dash = [CHR 0xE2, CHR 0x80, CHR 0x94]"

definition nl :: string where
  "nl = [CHR 0x0A]"

definition comma :: string where
  "comma = '', ''"

subsection \<open>Slack\<close>

definition format_message :: "(pyval \<Rightarrow> string) \<Rightarrow> pydict \<Rightarrow> string option \<Rightarrow> exn + string" where
  "format_message render i runbook =
     rbind (rbind (dict_item i ''incident_id'') (py_prefix 8)) (\<lambda>short.
     rbind (dict_item i ''root_cause_service'') (\<lambda>rc.
     rbind (dict_item i ''causality_method'') (\<lambda>how.
     rbind (rbind (dict_item i ''member_service_ids'') py_len) (\<lambda>n.
     rbind (rbind (dict_item i ''member_service_ids'') (py_join comma)) (\<lambda>members.
     rbind (py_join comma (dict_get_or i ''anomaly_types'' (PList []))) (\<lambda>types.
     Inr (join_strs nl
       ([''*Incident '' @ py_str render short @ ''* '' @ em_dash @ '' severity '' @
           py_str render (dict_get_or i ''severity'' (PStr ''?'')),
         ''Root cause: `'' @ py_str render rc @ ''` (method: '' @ py_str render how @ '')'',
         ''Affected services ('' @ nat_str n @ ''): '' @ members,
         ''Anomaly types: '' @ types] @
        (case runbook of
           None \<Rightarrow> []
         | Some r \<Rightarrow> if r = [] then [] else [nl @ ''*Suggested runbook:*'' @ nl @ r])))))))))"

record 'w notify_api =
  chat_post_message :: "string \<Rightarrow> ('w, unit) prog"
  llm_call :: "string \<Rightarrow> ('w, string) prog"
  retry_sleep :: "'w \<Rightarrow> 'w"
  str_render :: "pyval \<Rightarrow> string"

text \<open>\<open>slack_configured\<close>: SLACK_BOT_TOKEN is set; \<open>llm_configured\<close>: key and provider are usable.\<close>

record notify_config =
  slack_configured :: bool
  llm_configured :: bool

definition slack_api_error :: exn where
  "slack_api_error = ExternalError ''SlackApiError''"

definition post_incident ::
  "notify_config \<Rightarrow> 'w notify_api \<Rightarrow> pydict \<Rightarrow> string option \<Rightarrow> ('w, bool) prog" where
  "post_incident cfg api i runbook w =
     (case format_message (str_render api) i runbook of
        Inl e \<Rightarrow> (Inl e, w)
      | Inr txt \<Rightarrow>
          if \<not> slack_configured cfg then (Inr False, w)
          else (case chat_post_message api txt w of
                  (Inr _, w1) \<Rightarrow> (Inr True, w1)
                | (Inl e, w1) \<Rightarrow> if e = slack_api_error then (Inr False, w1) else (Inl e, w1)))"

subsection \<open>Runbooks\<close>

definition llm_attempts :: nat where
  "llm_attempts = 2"

definition not_configured_text :: string where
  "not_configured_text = ''(LLM runbook suggester not configured '' @ em_dash @ '' set LLM_API_KEY)''"

definition failed_text :: string where
  "failed_text = ''(Runbook generation failed '' @ em_dash @ '' see logs)''"

definition build_prompt :: "(pyval \<Rightarrow> string) \<Rightarrow> pydict \<Rightarrow> string list \<Rightarrow> exn + string" where
  "build_prompt render i rel =
     rbind (dict_item i ''root_cause_service'') (\<lambda>rc.
     rbind (dict_item i ''causality_method'') (\<lambda>how.
     rbind (py_join comma (dict_get_or i ''anomaly_types'' (PList []))) (\<lambda>types.
     rbind (rbind (dict_item i ''member_service_ids'') py_len) (\<lambda>n.
     rbind (rbind (dict_item i ''member_service_ids'') (py_join comma)) (\<lambda>members.
     Inr (''You are an SRE on-call assistant. A monitoring system detected the '' @
          ''following incident in a microservices platform. Write a short, '' @
          ''actionable runbook (3-5 numbered steps) for the on-call engineer to '' @
          ''investigate and mitigate it.'' @ nl @ nl @
          ''Root cause service: '' @ py_str render rc @ nl @
          ''Root cause method: '' @ py_str render how @ nl @
          ''Severity: '' @ py_str render (dict_get_or i ''severity'' (PStr ''unknown'')) @ ''/5'' @ nl @
          ''Anomaly types observed: '' @ types @ nl @
          ''Affected services ('' @ nat_str n @ ''): '' @ members @ nl @
          (if rel = [] then []
           else nl @ ''Services directly connected to the root cause in the '' @
                ''dependency graph: '' @ join_strs comma rel @ nl)))))))"

text \<open>The retry loop: \<open>n\<close> attempts are left; the pause lies between two attempts only.\<close>

fun call_with_retries :: "'w notify_api \<Rightarrow> string \<Rightarrow> nat \<Rightarrow> 'w \<Rightarrow> string \<times> 'w" where
  "call_with_retries api prompt 0 w = (failed_text, w)"
| "call_with_retries api prompt (Suc n) w =
     (case llm_call api prompt w of
        (Inr txt, w1) \<Rightarrow> (txt, w1)
      | (Inl e, w1) \<Rightarrow>
          call_with_retries api prompt n (if n > 0 then retry_sleep api w1 else w1))"

interpretation llm_retry: bounded_retry "llm_call api prompt" "\<lambda>n w. if n > 0 then retry_sleep api w else w"
    "\<lambda>n (_ :: unit). call_with_retries api prompt n" "\<lambda>txt. txt" "\<lambda>_. failed_text" "\<lambda>_. ()" for api prompt
  by unfold_locales (simp_all split: prod.split sum.split)

definition generate_runbook ::
  "notify_config \<Rightarrow> 'w notify_api \<Rightarrow> pydict \<Rightarrow> string list \<Rightarrow> ('w, string) prog" where
  "generate_runbook cfg api i rel w =
     (if \<not> llm_configured cfg then (Inr not_configured_text, w)
      else (case build_prompt (str_render api) i rel of
              Inl e \<Rightarrow> (Inl e, w)
            | Inr prompt \<Rightarrow>
                let (txt, w1) = call_with_retries api prompt llm_attempts w in (Inr txt, w1)))"

subsection \<open>A well-formed incident never makes them raise\<close>

definition notifiable :: "pydict \<Rightarrow> bool" where
  "notifiable i \<longleftrightarrow>
     (\<exists>iid rc how sev types members.
        map_of i ''incident_id'' = Some (PStr iid) \<and>
        map_of i ''root_cause_service'' = Some (PStr rc) \<and>
        map_of i ''causality_method'' = Some (PStr how) \<and>
        map_of i ''severity'' = Some (PInt sev) \<and>
        map_of i ''anomaly_types'' = Some (PList (map PStr types)) \<and>
        map_of i ''member_service_ids'' = Some (PList (map PStr members)))"

lemma format_message_total: "notifiable i \<Longrightarrow> \<exists>txt. format_message r i runbook = Inr txt"
  by (auto simp: notifiable_def format_message_def dict_defs py_join_def)

lemma build_prompt_total: "notifiable i \<Longrightarrow> \<exists>txt. build_prompt r i rel = Inr txt"
  by (auto simp: notifiable_def build_prompt_def dict_defs py_join_def)

lemma generate_runbook_total:
  "notifiable i \<Longrightarrow> \<exists>txt w'. generate_runbook cfg api i rel w = (Inr txt, w')"
  using build_prompt_total [of i "str_render api" rel]
  by (auto simp: generate_runbook_def split: prod.splits)

end
