(* ===== verification/Orchestrator.thy ===== *)
theory Orchestrator
  imports IncidentFilter RuleEngine K8sClient Notify
begin

section \<open>The response orchestrator\<close>

text \<open>
  \<open>orchestrator/main.py\<close>: the consumer loop. Each message is filtered, matched against the rules
  and its actions are run one by one, each in its own \<open>try\<close>; the offset is committed after the
  message was handled. The state is the filter, the HPA holds, the Prometheus counters and the
  outside world.
\<close>

record 'w orch =
  filter_st :: filter_state
  holds :: "(string \<times> (int \<times> real)) list"
  m_incidents :: "string \<Rightarrow> nat"
  m_rules :: "string \<Rightarrow> nat"
  m_actions :: "string \<times> string \<Rightarrow> nat"
  committed :: nat
  world :: 'w

record 'w orch_api =
  kube :: "'w kube_api"
  notify :: "'w notify_api"
  get_related_services :: "pyval \<Rightarrow> ('w, string list) prog"
  filter_clock :: "'w \<Rightarrow> real \<times> 'w"

record orch_config =
  filter_cfg :: filter_config
  k8s_cfg :: k8s_config
  notify_cfg :: notify_config
  rules :: "rule list"

definition hpa_scale_up_min_replicas :: int where
  "hpa_scale_up_min_replicas = 4"

subsection \<open>Running the clients on the orchestrator's state\<close>

definition on_k8s :: "('w k8s, 'a) prog \<Rightarrow> ('w orch, 'a) prog" where
  "on_k8s p s =
     (let (r, k) = p \<lparr>raised = holds s, kworld = world s\<rparr>
      in (r, s\<lparr>holds := raised k, world := kworld k\<rparr>))"

definition on_world :: "('w, 'a) prog \<Rightarrow> ('w orch, 'a) prog" where
  "on_world p s = (let (r, w) = p (world s) in (r, s\<lparr>world := w\<rparr>))"

definition count_incident :: "string \<Rightarrow> 'w orch \<Rightarrow> 'w orch" where
  "count_incident l s = s\<lparr>m_incidents := (m_incidents s)(l := Suc (m_incidents s l))\<rparr>"

definition count_rule :: "string \<Rightarrow> 'w orch \<Rightarrow> 'w orch" where
  "count_rule l s = s\<lparr>m_rules := (m_rules s)(l := Suc (m_rules s l))\<rparr>"

definition count_action :: "string \<Rightarrow> string \<Rightarrow> 'w orch \<Rightarrow> 'w orch" where
  "count_action l res s = s\<lparr>m_actions := (m_actions s)((l, res) := Suc (m_actions s (l, res)))\<rparr>"

text \<open>\<open>_safe\<close>: run one action; an exception is counted and becomes \<open>None\<close>.\<close>

definition safe :: "string \<Rightarrow> ('w orch, 'a) prog \<Rightarrow> 'w orch \<Rightarrow> 'a option \<times> 'w orch" where
  "safe label p s =
     (case p s of
        (Inr x, t) \<Rightarrow> (Some x, count_action label ''ok'' t)
      | (Inl e, t) \<Rightarrow> (None, count_action label ''error'' t))"

text \<open>\<open>_deserialize\<close>: a malformed message becomes \<open>None\<close>; \<open>loads\<close> is \<open>json.loads(raw.decode(...))\<close>.\<close>

definition deserialize :: "('b \<Rightarrow> exn + pyval) \<Rightarrow> 'b \<Rightarrow> exn + pyval" where
  "deserialize loads raw =
     (case loads raw of Inl e \<Rightarrow> if e = ValueError then Inr PNone else Inl e | Inr v \<Rightarrow> Inr v)"

subsection \<open>Handling one incident\<close>

text \<open>The id as the log line shows it: \<open>incident['incident_id'][:8]\<close>, which may raise.\<close>

definition short_id :: "pydict \<Rightarrow> exn + pyval" where
  "short_id i = rbind (dict_item i ''incident_id'') (py_prefix 8)"

definition do_trigger ::
  "orch_config \<Rightarrow> 'w orch_api \<Rightarrow> pyval \<Rightarrow> string list \<Rightarrow> 'w orch \<Rightarrow> 'w orch" where
  "do_trigger cfg api rc acts s =
     (if ''trigger_hpa'' \<in> set acts
      then snd (safe ''trigger_hpa''
             (on_k8s (trigger_hpa (k8s_cfg cfg) (kube api) rc hpa_scale_up_min_replicas)) s)
      else s)"

definition do_rollback ::
  "orch_config \<Rightarrow> 'w orch_api \<Rightarrow> pyval \<Rightarrow> string list \<Rightarrow> 'w orch \<Rightarrow> 'w orch" where
  "do_rollback cfg api rc acts s =
     (if ''rollback_canary'' \<in> set acts
      then snd (safe ''rollback_canary'' (on_k8s (rollback_canary (k8s_cfg cfg) (kube api) rc)) s)
      else s)"

definition do_runbook ::
  "orch_config \<Rightarrow> 'w orch_api \<Rightarrow> pydict \<Rightarrow> pyval \<Rightarrow> string list \<Rightarrow> 'w orch \<Rightarrow> string option \<times> 'w orch" where
  "do_runbook cfg api i rc acts s =
     (if ''generate_runbook'' \<in> set acts
      then let (rel, t) = safe ''neo4j subgraph'' (on_world (get_related_services api rc)) s
           in safe ''generate_runbook''
                (on_world (generate_runbook (notify_cfg cfg) (notify api) i
                   (case rel of None \<Rightarrow> [] | Some xs \<Rightarrow> xs))) t
      else (None, s))"

definition do_slack ::
  "orch_config \<Rightarrow> 'w orch_api \<Rightarrow> pydict \<Rightarrow> string option \<Rightarrow> string list \<Rightarrow> 'w orch \<Rightarrow> 'w orch" where
  "do_slack cfg api i runbook acts s =
     (if ''post_slack'' \<in> set acts
      then snd (safe ''post_slack''
             (on_world (post_incident (notify_cfg cfg) (notify api) i runbook)) s)
      else s)"

definition run_actions ::
  "orch_config \<Rightarrow> 'w orch_api \<Rightarrow> pydict \<Rightarrow> pyval \<Rightarrow> string list \<Rightarrow> 'w orch \<Rightarrow> 'w orch" where
  "run_actions cfg api i rc acts s =
     (let (runbook, t) = do_runbook cfg api i rc acts
                           (do_rollback cfg api rc acts (do_trigger cfg api rc acts s))
      in do_slack cfg api i runbook acts t)"

definition handle_incident :: "orch_config \<Rightarrow> 'w orch_api \<Rightarrow> pydict \<Rightarrow> ('w orch, unit) prog" where
  "handle_incident cfg api i s =
     (case evaluate (rules cfg) i of
        Inl e \<Rightarrow> (Inl e, s)
      | Inr None \<Rightarrow> (case short_id i of Inl e \<Rightarrow> (Inl e, s) | Inr _ \<Rightarrow> (Inr (), s))
      | Inr (Some r) \<Rightarrow>
          let s1 = count_rule (rule_name r) s in
          (case dict_item i ''root_cause_service'' of
             Inl e \<Rightarrow> (Inl e, s1)
           | Inr rc \<Rightarrow>
               (case short_id i of
                  Inl e \<Rightarrow> (Inl e, s1)
                | Inr _ \<Rightarrow> (Inr (), run_actions cfg api i rc (rule_actions r) s1))))"

definition dispatch_dict :: "orch_config \<Rightarrow> 'w orch_api \<Rightarrow> pydict \<Rightarrow> 'w orch \<Rightarrow> 'w orch" where
  "dispatch_dict cfg api i s =
     (let (now, w) = filter_clock api (world s);
          (r, f) = filter_check (filter_cfg cfg) now i (filter_st s);
          s1 = s\<lparr>filter_st := f, world := w\<rparr>
      in case r of
           Inl e \<Rightarrow> count_incident ''error'' s1
         | Inr (Skip why) \<Rightarrow> count_incident (reason_label why) s1
         | Inr Act \<Rightarrow>
             (case handle_incident cfg api i s1 of
                (Inl e, t) \<Rightarrow> count_incident ''error'' t
              | (Inr _, t) \<Rightarrow> count_incident ''acted'' t))"

definition dispatch :: "orch_config \<Rightarrow> 'w orch_api \<Rightarrow> pyval \<Rightarrow> 'w orch \<Rightarrow> 'w orch" where
  "dispatch cfg api v s =
     (case v of
        PDict i \<Rightarrow> dispatch_dict cfg api i s
      | _ \<Rightarrow> count_incident ''undecodable'' s)"

text \<open>One message: dispatch, then \<open>consumer.commit()\<close>.\<close>

definition process_message :: "orch_config \<Rightarrow> 'w orch_api \<Rightarrow> pyval \<Rightarrow> 'w orch \<Rightarrow> 'w orch" where
  "process_message cfg api v s =
     (let t = dispatch cfg api v s in t\<lparr>committed := Suc (committed t)\<rparr>)"

text \<open>One turn of the loop: the revert timer, then the polled messages (at most one).\<close>

definition orch_turn :: "orch_config \<Rightarrow> 'w orch_api \<Rightarrow> pyval list \<Rightarrow> 'w orch \<Rightarrow> 'w orch" where
  "orch_turn cfg api msgs s =
     fold (process_message cfg api) msgs
       (snd (safe ''hpa revert'' (on_k8s (revert_expired (k8s_cfg cfg) (kube api))) s))"

subsection \<open>Frames: what each step leaves alone\<close>

lemmas count_defs = count_incident_def count_rule_def count_action_def

lemma safe_frame [simp]:
  assumes "\<And>s. m_incidents (snd (p s)) = m_incidents s" and "\<And>s. committed (snd (p s)) = committed s"
    and "\<And>s. filter_st (snd (p s)) = filter_st s"
  shows "m_incidents (snd (safe l p s)) = m_incidents s"
    and "committed (snd (safe l p s)) = committed s"
    and "filter_st (snd (safe l p s)) = filter_st s"
  using assms [of s] by (auto simp: safe_def count_defs split: prod.splits sum.splits)

lemma lift_frame [simp]:
  "m_incidents (snd (on_k8s q s)) = m_incidents s" "committed (snd (on_k8s q s)) = committed s"
  "filter_st (snd (on_k8s q s)) = filter_st s" "m_actions (snd (on_k8s q s)) = m_actions s"
  "m_incidents (snd (on_world p s)) = m_incidents s" "committed (snd (on_world p s)) = committed s"
  "filter_st (snd (on_world p s)) = filter_st s" "m_actions (snd (on_world p s)) = m_actions s"
  "holds (snd (on_world p s)) = holds s"
  by (simp_all add: on_k8s_def on_world_def split: prod.splits)

lemma count_simps [simp]:
  "m_incidents (count_incident l s) = (m_incidents s)(l := Suc (m_incidents s l))"
  "m_incidents (count_rule l s) = m_incidents s" "m_incidents (count_action l r s) = m_incidents s"
  "committed (count_incident l s) = committed s" "committed (count_rule l s) = committed s"
  "committed (count_action l r s) = committed s" "filter_st (count_incident l s) = filter_st s"
  "filter_st (count_rule l s) = filter_st s" "filter_st (count_action l r s) = filter_st s"
  "holds (count_incident l s) = holds s" "holds (count_rule l s) = holds s"
  "holds (count_action l r s) = holds s" "world (count_incident l s) = world s"
  "world (count_rule l s) = world s" "world (count_action l r s) = world s"
  "m_actions (count_incident l s) = m_actions s" "m_actions (count_rule l s) = m_actions s"
  by (simp_all add: count_defs)

lemma do_frame [simp]:
  "m_incidents (do_trigger cfg api rc acts s) = m_incidents s"
  "committed (do_trigger cfg api rc acts s) = committed s"
  "filter_st (do_trigger cfg api rc acts s) = filter_st s"
  "m_incidents (do_rollback cfg api rc acts s) = m_incidents s"
  "committed (do_rollback cfg api rc acts s) = committed s"
  "filter_st (do_rollback cfg api rc acts s) = filter_st s"
  "m_incidents (do_slack cfg api i rb acts s) = m_incidents s"
  "committed (do_slack cfg api i rb acts s) = committed s"
  "filter_st (do_slack cfg api i rb acts s) = filter_st s"
  by (simp_all add: do_trigger_def do_rollback_def do_slack_def)

lemma do_runbook_frame [simp]:
  "m_incidents (snd (do_runbook cfg api i rc acts s)) = m_incidents s"
  "committed (snd (do_runbook cfg api i rc acts s)) = committed s"
  "filter_st (snd (do_runbook cfg api i rc acts s)) = filter_st s"
proof -
  obtain rel t where "safe ''neo4j subgraph'' (on_world (get_related_services api rc)) s = (rel, t)"
    by fastforce
  moreover from this have "m_incidents t = m_incidents s" "committed t = committed s"
    "filter_st t = filter_st s" by (metis safe_frame lift_frame(5-7) snd_conv)+
  ultimately show "m_incidents (snd (do_runbook cfg api i rc acts s)) = m_incidents s"
    "committed (snd (do_runbook cfg api i rc acts s)) = committed s"
    "filter_st (snd (do_runbook cfg api i rc acts s)) = filter_st s"
    by (simp_all add: do_runbook_def)
qed

lemma run_actions_frame [simp]:
  "m_incidents (run_actions cfg api i rc acts s) = m_incidents s"
  "committed (run_actions cfg api i rc acts s) = committed s"
  "filter_st (run_actions cfg api i rc acts s) = filter_st s"
  by (simp_all add: run_actions_def case_prod_unfold Let_def)

lemma handle_incident_frame [simp]:
  "m_incidents (snd (handle_incident cfg api i s)) = m_incidents s"
  "committed (snd (handle_incident cfg api i s)) = committed s"
  "filter_st (snd (handle_incident cfg api i s)) = filter_st s"
  by (simp_all add: handle_incident_def Let_def split: sum.splits option.splits)

subsection \<open>Every message is accounted for and committed\<close>

definition outcome_labels :: "string list" where
  "outcome_labels =
     [''acted'', ''duplicate'', ''stale'', ''cooldown'', ''error'', ''undecodable'']"

definition outcomes :: "'w orch \<Rightarrow> nat" where
  "outcomes s = sum_list (map (m_incidents s) outcome_labels)"

lemma reason_label_outcome: "reason_label why \<in> set outcome_labels"
  by (cases why) (simp_all add: outcome_labels_def)

text \<open>What dispatching an incident does apart from the actions themselves.\<close>

lemma dispatch_dict_shape:
  obtains l t where "l \<in> set outcome_labels" and "dispatch_dict cfg api i s = count_incident l t"
    and "m_incidents t = m_incidents s" and "committed t = committed s"
    and "filter_st t =
           filter_step (filter_cfg cfg) (fst (filter_clock api (world s)), i) (filter_st s)"
proof -
  obtain now w where clock: "filter_clock api (world s) = (now, w)" by fastforce
  obtain r f where chk: "filter_check (filter_cfg cfg) now i (filter_st s) = (r, f)" by fastforce
  let ?s = "s\<lparr>filter_st := f, world := w\<rparr>"
  obtain h t where hd: "handle_incident cfg api i ?s = (h, t)" by fastforce
  have t: "m_incidents t = m_incidents s" "committed t = committed s" "filter_st t = f"
    using handle_incident_frame [of cfg api i ?s] by (simp_all add: hd)
  have f: "f = filter_step (filter_cfg cfg) (fst (filter_clock api (world s)), i) (filter_st s)"
    by (simp add: filter_step_def clock chk)
  have labels: "''acted'' \<in> set outcome_labels" "''error'' \<in> set outcome_labels"
    by (simp_all add: outcome_labels_def)
  from clock chk hd have eq: "dispatch_dict cfg api i s =
      (case r of Inl e \<Rightarrow> count_incident ''error'' ?s
       | Inr (Skip why) \<Rightarrow> count_incident (reason_label why) ?s
       | Inr Act \<Rightarrow> (case h of Inl e \<Rightarrow> count_incident ''error'' t
                      | Inr _ \<Rightarrow> count_incident ''acted'' t))"
    by (simp add: dispatch_dict_def split: sum.splits verdict.splits)
  show ?thesis
  proof (cases r)
    case (Inl e)
    with eq f show ?thesis by (intro that [of "''error''" ?s]) (simp_all add: labels)
  next
    case (Inr vd)
    show ?thesis
    proof (cases vd)
      case Act
      with Inr eq t f labels show ?thesis
        by (cases h) (auto intro: that [of "''error''" t] that [of "''acted''" t])
    next
      case (Skip why)
      with Inr eq f show ?thesis
        by (intro that [of "reason_label why" ?s]) (simp_all add: reason_label_outcome)
    qed
  qed
qed

lemma dispatch_other:
  "\<nexists>i. v = PDict i \<Longrightarrow> dispatch cfg api v s = count_incident ''undecodable'' s"
  by (cases v) (auto simp: dispatch_def)

lemma dispatch_counts_one:
  "\<exists>l \<in> set outcome_labels.
     m_incidents (dispatch cfg api v s) = (m_incidents s)(l := Suc (m_incidents s l))"
proof (cases "\<exists>i. v = PDict i")
  case False
  then show ?thesis by (auto simp: dispatch_other outcome_labels_def)
next
  case True
  then obtain i where "v = PDict i" by blast
  moreover obtain l t where "l \<in> set outcome_labels" "dispatch_dict cfg api i s = count_incident l t"
    "m_incidents t = m_incidents s" by (rule dispatch_dict_shape)
  ultimately show ?thesis by (auto simp: dispatch_def)
qed

lemma dispatch_committed: "committed (dispatch cfg api v s) = committed s"
proof (cases "\<exists>i. v = PDict i")
  case True
  then obtain i where "v = PDict i" by blast
  moreover obtain l t where "dispatch_dict cfg api i s = count_incident l t" "committed t = committed s"
    by (rule dispatch_dict_shape)
  ultimately show ?thesis by (simp add: dispatch_def)
qed (simp add: dispatch_other)

lemma process_message_outcomes: "outcomes (process_message cfg api v s) = Suc (outcomes s)"
  using dispatch_counts_one [of cfg api v s]
  by (auto simp: process_message_def Let_def outcomes_def outcome_labels_def)

lemma process_message_committed: "committed (process_message cfg api v s) = Suc (committed s)"
  by (simp add: process_message_def Let_def dispatch_committed)

interpretation outcome_meter: metered_system "process_message cfg api" "\<lambda>_. True" outcomes
  for cfg api
  by unfold_locales (simp_all add: process_message_outcomes)

interpretation commit_meter: metered_system "process_message cfg api" "\<lambda>_. True" committed
  for cfg api
  by unfold_locales (simp_all add: process_message_committed)

text \<open>
  C1. No message stops the loop or is lost: whatever the messages are (malformed ones included)
  and whatever Kubernetes, Slack, the LLM and Neo4j do, every message is counted under exactly
  one outcome and its offset is committed exactly once.
\<close>

theorem every_message_accounted:
  "outcomes (fold (process_message cfg api) msgs s) = outcomes s + length msgs \<and>
   committed (fold (process_message cfg api) msgs s) = committed s + length msgs"
  by (simp add: outcome_meter.run_total commit_meter.run_total)

subsection \<open>The actions of a rule are independent\<close>

definition attempts :: "string \<Rightarrow> 'w orch \<Rightarrow> nat" where
  "attempts l s = m_actions s (l, ''ok'') + m_actions s (l, ''error'')"

lemma attempts_count_rule [simp]: "attempts l (count_rule r s) = attempts l s"
  by (simp add: attempts_def)

lemma attempts_safe:
  assumes "\<And>s. m_actions (snd (p s)) = m_actions s"
  shows "attempts l (snd (safe l' p s)) = attempts l s + (if l = l' then 1 else 0)"
  using assms [of s]
  by (auto simp: safe_def attempts_def count_action_def split: prod.splits sum.splits)

lemma attempts_do [simp]:
  "attempts l (do_trigger cfg api rc acts s) =
     attempts l s + (if l = ''trigger_hpa'' \<and> l \<in> set acts then 1 else 0)"
  "attempts l (do_rollback cfg api rc acts s) =
     attempts l s + (if l = ''rollback_canary'' \<and> l \<in> set acts then 1 else 0)"
  "attempts l (do_slack cfg api i rb acts s) =
     attempts l s + (if l = ''post_slack'' \<and> l \<in> set acts then 1 else 0)"
  by (auto simp: do_trigger_def do_rollback_def do_slack_def attempts_safe)

lemma attempts_do_runbook [simp]:
  "attempts l (snd (do_runbook cfg api i rc acts s)) =
     attempts l s + (if l \<in> {''generate_runbook'', ''neo4j subgraph''} \<and> ''generate_runbook'' \<in> set acts
                     then 1 else 0)"
proof -
  obtain rel t where *: "safe ''neo4j subgraph'' (on_world (get_related_services api rc)) s = (rel, t)"
    by fastforce
  from attempts_safe [of "on_world (get_related_services api rc)" l "''neo4j subgraph''" s] *
  have "attempts l t = attempts l s + (if l = ''neo4j subgraph'' then 1 else 0)" by simp
  with * show ?thesis by (auto simp: do_runbook_def attempts_safe)
qed

lemma attempts_run_actions:
  assumes "l \<in> {''trigger_hpa'', ''rollback_canary'', ''generate_runbook'', ''post_slack''}"
  shows "attempts l (run_actions cfg api i rc acts s) = attempts l s + (if l \<in> set acts then 1 else 0)"
  using assms by (auto simp: run_actions_def case_prod_unfold Let_def)

text \<open>
  Actions do not suppress each other: when an incident with an id and a root cause matches a
  rule, each of the four actions is attempted exactly once if the rule names it and not at all
  otherwise, whichever of the others raise, and handling the incident itself does not raise.
\<close>

theorem actions_independent:
  assumes "evaluate (rules cfg) i = Inr (Some r)"
    and "map_of i ''incident_id'' = Some (PStr iid)"
    and "map_of i ''root_cause_service'' = Some rc"
    and "l \<in> {''trigger_hpa'', ''rollback_canary'', ''generate_runbook'', ''post_slack''}"
  shows "fst (handle_incident cfg api i s) = Inr () \<and>
         attempts l (snd (handle_incident cfg api i s)) =
           attempts l s + (if l \<in> set (rule_actions r) then 1 else 0)"
  using assms
  by (simp add: handle_incident_def short_id_def dict_item_def attempts_run_actions del: insert_iff)

subsection \<open>Redelivery has no second effect\<close>

lemma filter_st_process_message:
  "filter_st (process_message cfg api (PDict i) s) =
     filter_step (filter_cfg cfg) (fst (filter_clock api (world s)), i) (filter_st s)"
proof -
  obtain l t where "dispatch_dict cfg api i s = count_incident l t"
    "filter_st t = filter_step (filter_cfg cfg) (fst (filter_clock api (world s)), i) (filter_st s)"
    by (rule dispatch_dict_shape)
  then show ?thesis by (simp add: process_message_def dispatch_def Let_def)
qed

lemma filter_st_process_other:
  "(\<nexists>i. v = PDict i) \<Longrightarrow> filter_st (process_message cfg api v s) = filter_st s"
  by (simp add: process_message_def dispatch_other Let_def)

text \<open>A run of messages drives the filter through at most as many checks.\<close>

lemma filter_st_run:
  "\<exists>es. length es \<le> length vs \<and>
     filter_st (fold (process_message cfg api) vs s) = fold (filter_step (filter_cfg cfg)) es (filter_st s)"
proof (induction vs arbitrary: s)
  case Nil
  then show ?case by (auto intro: exI [of _ "[]"])
next
  case (Cons v vs)
  let ?t = "process_message cfg api v s"
  from Cons.IH [of ?t] obtain es where es: "length es \<le> length vs"
    "filter_st (fold (process_message cfg api) vs ?t) = fold (filter_step (filter_cfg cfg)) es (filter_st ?t)"
    by blast
  show ?case
  proof (cases "\<exists>i. v = PDict i")
    case True
    then obtain i now where "filter_st ?t = filter_step (filter_cfg cfg) (now, i) (filter_st s)"
      using filter_st_process_message by blast
    with es show ?thesis by (intro exI [of _ "(now, i) # es"]) simp
  next
    case False
    then have "filter_st ?t = filter_st s" by (rule filter_st_process_other)
    with es show ?thesis by (intro exI [of _ es]) simp
  qed
qed

text \<open>
  C3. At-least-once delivery is safe: redelivering an incident after at most 1999 other messages
  (with the shipped configuration) runs no action; the message is counted as a duplicate, its
  offset is committed, the filter and the HPA holds stay as they are and the only thing read
  from the outside world is the clock.
\<close>

theorem redelivery_runs_no_action:
  assumes "py_key (dict_get i ''incident_id'') = Inr iid" and "iid \<notin> set (seen (filter_st s))"
    and "length vs < max_seen (filter_cfg cfg)"
    and "t = fold (process_message cfg api) vs (process_message cfg api (PDict i) s)"
  shows "process_message cfg api (PDict i) t =
           t\<lparr>m_incidents := (m_incidents t)(''duplicate'' := Suc (m_incidents t ''duplicate'')),
             committed := Suc (committed t),
             world := snd (filter_clock api (world t))\<rparr>"
proof -
  obtain es where es: "length es \<le> length vs"
    "filter_st t = fold (filter_step (filter_cfg cfg)) es
       (filter_st (process_message cfg api (PDict i) s))"
    using filter_st_run assms(4) by blast
  have "iid \<in> set (seen (filter_st t))"
    unfolding es(2) filter_st_process_message using assms(1-3) es(1)
    by (intro checked_id_known) simp_all
  then show ?thesis
    using assms(1)
    by (simp add: process_message_def dispatch_def dispatch_dict_def filter_check_known
        count_incident_def Let_def case_prod_unfold)
qed

subsection \<open>The holds of the whole orchestrator\<close>

text \<open>Nothing but the Kubernetes client touches the HPAs.\<close>

definition only_k8s_scales :: "'w orch_api \<Rightarrow> ('w \<Rightarrow> string \<Rightarrow> int option) \<Rightarrow> bool" where
  "only_k8s_scales api obs \<longleftrightarrow>
     hpa_server (kube api) obs \<and>
     (\<forall>w. obs (snd (filter_clock api w)) = obs w) \<and>
     (\<forall>v w. obs (snd (get_related_services api v w)) = obs w) \<and>
     (\<forall>txt w. obs (snd (chat_post_message (notify api) txt w)) = obs w) \<and>
     (\<forall>txt w. obs (snd (llm_call (notify api) txt w)) = obs w) \<and>
     (\<forall>w. obs (retry_sleep (notify api) w) = obs w)"

lemma call_with_retries_obs:
  assumes "only_k8s_scales api obs"
  shows "obs (snd (call_with_retries (notify api) prompt n w)) = obs w"
proof (rule llm_retry.loop_keeps [where ok = "\<lambda>v. obs v = obs w"])
  show "obs (snd (llm_call (notify api) prompt v)) = obs w" if "obs v = obs w" for v
    using assms that by (simp add: only_k8s_scales_def)
  show "obs (if 0 < k then retry_sleep (notify api) v else v) = obs w" if "obs v = obs w" for k v
    using assms that by (simp add: only_k8s_scales_def)
qed (rule refl)

lemma notify_obs:
  assumes "only_k8s_scales api obs"
  shows "obs (snd (post_incident cfg (notify api) i rb w)) = obs w"
    and "obs (snd (generate_runbook cfg (notify api) i rel w)) = obs w"
    and "obs (snd (get_related_services api v w)) = obs w"
    and "obs (snd (filter_clock api w)) = obs w"
proof -
  have "obs (snd (chat_post_message (notify api) m w)) = obs w" for m
    using assms by (simp add: only_k8s_scales_def)
  then show "obs (snd (post_incident cfg (notify api) i rb w)) = obs w"
    by (auto simp: post_incident_def split: sum.splits prod.splits) (metis snd_conv)+
  show "obs (snd (generate_runbook cfg (notify api) i rel w)) = obs w"
    using call_with_retries_obs [OF assms]
    by (auto simp: generate_runbook_def split: sum.splits prod.splits) (metis snd_conv)
  show "obs (snd (get_related_services api v w)) = obs w" and "obs (snd (filter_clock api w)) = obs w"
    using assms by (simp_all add: only_k8s_scales_def)
qed

definition orch_holds_inv ::
  "('w \<Rightarrow> string \<Rightarrow> int option) \<Rightarrow> (string \<Rightarrow> int option) \<Rightarrow> 'w orch \<Rightarrow> bool" where
  "orch_holds_inv obs base s \<longleftrightarrow>
     hold_inv obs base hpa_scale_up_min_replicas \<lparr>raised = holds s, kworld = world s\<rparr>"

lemma orch_holds_cong:
  "holds t = holds s \<Longrightarrow> obs (world t) = obs (world s) \<Longrightarrow>
     orch_holds_inv obs base t = orch_holds_inv obs base s"
  by (simp add: orch_holds_inv_def hold_inv_def)

lemma orch_holds_safe:
  "orch_holds_inv obs base (snd (p s)) \<Longrightarrow> orch_holds_inv obs base (snd (safe l p s))"
  by (auto simp: safe_def orch_holds_inv_def split: prod.splits sum.splits)

lemma orch_holds_on_k8s:
  assumes "hold_inv obs base hpa_scale_up_min_replicas (snd (p \<lparr>raised = holds s, kworld = world s\<rparr>))"
  shows "orch_holds_inv obs base (snd (on_k8s p s))"
  using assms by (auto simp: on_k8s_def orch_holds_inv_def hold_inv_def split: prod.splits)

lemma orch_holds_on_world:
  assumes "orch_holds_inv obs base s" and "\<And>w. obs (snd (p w)) = obs w"
  shows "orch_holds_inv obs base (snd (on_world p s))"
proof -
  have "obs (world (snd (on_world p s))) = obs (world s)"
    using assms(2) [of "world s"] by (simp add: on_world_def case_prod_unfold Let_def)
  with assms(1) show ?thesis by (simp add: orch_holds_inv_def hold_inv_def)
qed

lemma run_actions_holds:
  assumes env: "only_k8s_scales api obs" and inv: "orch_holds_inv obs base s"
  shows "orch_holds_inv obs base (run_actions cfg api i rc acts s)"
proof -
  from env have server: "hpa_server (kube api) obs" by (simp add: only_k8s_scales_def)
  have k: "orch_holds_inv obs base (snd (safe l (on_k8s p) t))"
    if "orch_holds_inv obs base t"
      and "\<And>k. hold_inv obs base hpa_scale_up_min_replicas k \<Longrightarrow>
             hold_inv obs base hpa_scale_up_min_replicas (snd (p k))" for l t and p :: "('a k8s, 'b) prog"
    using that by (intro orch_holds_safe orch_holds_on_k8s) (simp add: orch_holds_inv_def)
  have w: "orch_holds_inv obs base (snd (safe l (on_world p) t))"
    if "orch_holds_inv obs base t" and "\<And>w. obs (snd (p w)) = obs w" for l t and p :: "('a, 'b) prog"
    using that by (intro orch_holds_safe orch_holds_on_world)
  have "orch_holds_inv obs base (do_trigger cfg api rc acts s)"
    using inv by (simp add: do_trigger_def k trigger_hpa_hold_inv [OF server])
  then have "orch_holds_inv obs base (do_rollback cfg api rc acts (do_trigger cfg api rc acts s))"
    by (simp add: do_rollback_def k rollback_canary_hold_inv [OF server])
  then have "orch_holds_inv obs base
      (snd (do_runbook cfg api i rc acts (do_rollback cfg api rc acts (do_trigger cfg api rc acts s))))"
    by (auto simp: do_runbook_def case_prod_unfold Let_def intro!: w notify_obs [OF env])
  then show ?thesis
    by (auto simp: run_actions_def do_slack_def case_prod_unfold Let_def intro!: w notify_obs [OF env])
qed

lemma handle_incident_holds:
  assumes "only_k8s_scales api obs" and "orch_holds_inv obs base s"
  shows "orch_holds_inv obs base (snd (handle_incident cfg api i s))"
proof -
  have "orch_holds_inv obs base (count_rule l s)" for l
    using assms(2) by (simp add: orch_holds_inv_def)
  with assms show ?thesis
    by (auto simp: handle_incident_def Let_def run_actions_holds split: sum.splits option.splits)
qed

lemma dispatch_holds:
  assumes env: "only_k8s_scales api obs" and inv: "orch_holds_inv obs base s"
  shows "orch_holds_inv obs base (dispatch cfg api v s)"
proof -
  have count: "orch_holds_inv obs base (count_incident l t) = orch_holds_inv obs base t" for l t
    by (simp add: orch_holds_inv_def)
  have "orch_holds_inv obs base (s\<lparr>filter_st := f, world := snd (filter_clock api (world s))\<rparr>)" for f
    using inv notify_obs(4) [OF env] by (simp add: orch_holds_inv_def hold_inv_def)
  then have start: "orch_holds_inv obs base (s\<lparr>filter_st := f, world := snd (filter_clock api (world s))\<rparr>)"
    "orch_holds_inv obs base
       (snd (handle_incident cfg api i (s\<lparr>filter_st := f, world := snd (filter_clock api (world s))\<rparr>)))" for f i
    by (simp_all add: handle_incident_holds [OF env])
  have "orch_holds_inv obs base (dispatch_dict cfg api i s)" for i
    using start
    by (auto simp: dispatch_dict_def case_prod_unfold Let_def count split: sum.splits verdict.splits)
  with inv show ?thesis by (auto simp: dispatch_def count split: pyval.splits)
qed

lemma process_message_holds:
  "only_k8s_scales api obs \<Longrightarrow> orch_holds_inv obs base s \<Longrightarrow>
     orch_holds_inv obs base (process_message cfg api v s)"
  by (auto simp: process_message_def Let_def orch_holds_inv_def
      dest: dispatch_holds [unfolded orch_holds_inv_def])

interpretation orch_run: step_system "process_message cfg api"
  "\<lambda>s. only_k8s_scales api obs \<longrightarrow> orch_holds_inv obs base s" for cfg api obs base
  by unfold_locales (simp add: process_message_holds)

lemma orch_turn_holds:
  assumes env: "only_k8s_scales api obs" and inv: "orch_holds_inv obs base s"
  shows "orch_holds_inv obs base (orch_turn cfg api msgs s)"
proof -
  have "hpa_server (kube api) obs" using env by (simp add: only_k8s_scales_def)
  then have "orch_holds_inv obs base
      (snd (safe ''hpa revert'' (on_k8s (revert_expired (k8s_cfg cfg) (kube api))) s))"
    using inv by (intro orch_holds_safe orch_holds_on_k8s revert_expired_hold_inv)
      (simp_all add: orch_holds_inv_def)
  then show ?thesis using orch_run.run_inv [of api obs base _ cfg msgs] env by (simp add: orch_turn_def)
qed

interpretation orch_loop: step_system "orch_turn cfg api"
  "\<lambda>s. only_k8s_scales api obs \<longrightarrow> orch_holds_inv obs base s" for cfg api obs base
  by unfold_locales (simp add: orch_turn_holds)


subsection \<open>A concrete world\<close>

text \<open>For the witnesses: the API server accepts everything, Slack is down, the LLM answers.\<close>

type_synonym ex_world = "real \<times> (string \<Rightarrow> int option)"

definition ex_api :: "ex_world orch_api" where
  "ex_api =
     \<lparr>kube = ok_api,
      notify = \<lparr>chat_post_message = (\<lambda>m w. (Inl slack_api_error, w)),
                llm_call = (\<lambda>m w. (Inr ''restart it'', w)),
                retry_sleep = (\<lambda>w. w), str_render = (\<lambda>v. [])\<rparr>,
      get_related_services = (\<lambda>v w. (Inl (ExternalError ''ServiceUnavailable''), w)),
      filter_clock = (\<lambda>w. (fst w, w))\<rparr>"

definition ex_config :: orch_config where
  "ex_config =
     \<lparr>filter_cfg = default_filter_config,
      k8s_cfg = \<lparr>k8s_enabled = True, revert_after = 900\<rparr>,
      notify_cfg = \<lparr>slack_configured = True, llm_configured = True\<rparr>,
      rules = default_rules\<rparr>"

definition ex_start :: "ex_world orch" where
  "ex_start =
     \<lparr>filter_st = init_filter, holds = [], m_incidents = (\<lambda>_. 0), m_rules = (\<lambda>_. 0),
      m_actions = (\<lambda>_. 0), committed = 0, world = (1000, [''payment-service'' \<mapsto> 2])\<rparr>"

lemma ex_only_k8s_scales: "only_k8s_scales ex_api snd"
  by (simp add: only_k8s_scales_def ex_api_def ok_api_server)

theorem actions_independent_witness:
  "attempts ''post_slack'' (snd (handle_incident ex_config ex_api (ex_published 5 [''a'', ''b'', ''c'']) ex_start)) = 1"
proof -
  let ?i = "ex_published 5 [''a'', ''b'', ''c'']"
  have "evaluate (rules ex_config) ?i = Inr (Some (hd default_rules))"
    by (simp add: ex_config_def default_rules_def matches_published [OF ex_published_shape] no_condition_def)
  moreover have "map_of ?i ''incident_id'' = Some (PStr ''0123456789'')"
    "map_of ?i ''root_cause_service'' = Some (PStr ''svc-a0bc923b'')"
    by (simp_all add: ex_published_def)
  ultimately have "attempts ''post_slack'' (snd (handle_incident ex_config ex_api ?i ex_start)) =
      attempts ''post_slack'' ex_start +
        (if ''post_slack'' \<in> set (rule_actions (hd default_rules)) then 1 else 0)"
    by (rule conjunct2 [OF actions_independent]) simp
  then show ?thesis by (simp add: default_rules_def attempts_def ex_start_def)
qed

theorem redelivery_runs_no_action_witness:
  "m_incidents (process_message ex_config ex_api (PDict (ex_published 5 [''a'']))
     (process_message ex_config ex_api (PDict (ex_published 5 [''a''])) ex_start)) ''duplicate''
   = Suc (m_incidents (process_message ex_config ex_api (PDict (ex_published 5 [''a''])) ex_start) ''duplicate'')"
proof -
  have "py_key (dict_get (ex_published 5 [''a'']) ''incident_id'') = Inr (PStr ''0123456789'')"
    by (simp add: ex_published_def dict_defs)
  from redelivery_runs_no_action [OF this, of ex_start "[]" ex_config _ ex_api]
  show ?thesis by (simp add: ex_start_def init_filter_def ex_config_def default_filter_config_def)
qed


end
