(* ===== verification/Clusterer.thy ===== *)
theory Clusterer
  imports Prelude
begin

section \<open>Incident clustering\<close>

text \<open>
  \<open>correlation/clustering/incident_clusterer.py\<close>: open clusters of anomalies, the cached 2-hop
  neighbourhoods of Neo4j, the breadth-first search that finds the clusters a new anomaly
  connects, merging, and finalisation. Neo4j is a parameter: a query returns the services within
  two hops of a service or raises, and may change the outside world. Times are in seconds, as
  the code's \<open>detected_at / 1000.0\<close>; a Python \<open>set\<close> of services is a list without repetitions.
\<close>

subsection \<open>Anomalies and clusters\<close>

text \<open>The fields of an anomaly message that the correlation engine reads.\<close>

record anomaly =
  service_id :: string
  detected_at :: real
  anomaly_type :: "string option"
  severity :: "int option"
  anomaly_id :: "string option"

definition seconds :: "anomaly \<Rightarrow> real" where
  "seconds a = detected_at a / 1000"

text \<open>\<open>cid\<close> stands for the identity of the Python object.\<close>

record cluster =
  cid :: nat
  anomalies :: "anomaly list"
  service_ids :: "string list"
  created_at :: real
  last_updated :: real

definition new_cluster :: "nat \<Rightarrow> anomaly \<Rightarrow> cluster" where
  "new_cluster n a =
     \<lparr>cid = n, anomalies = [a], service_ids = [service_id a],
      created_at = seconds a, last_updated = seconds a\<rparr>"

definition cluster_add :: "anomaly \<Rightarrow> cluster \<Rightarrow> cluster" where
  "cluster_add a c =
     c\<lparr>anomalies := anomalies c @ [a], service_ids := List.insert (service_id a) (service_ids c),
       last_updated := max (last_updated c) (seconds a)\<rparr>"

definition cluster_merge :: "cluster \<Rightarrow> cluster \<Rightarrow> cluster" where
  "cluster_merge other c =
     c\<lparr>anomalies := anomalies c @ anomalies other,
       service_ids := List.union (service_ids other) (service_ids c),
       created_at := min (created_at c) (created_at other),
       last_updated := max (last_updated c) (last_updated other)\<rparr>"

text \<open>\<open>CORRELATION_WINDOW_SECONDS\<close> and \<open>CORRELATION_MAX_CLUSTER_AGE_SECONDS\<close>.\<close>

definition window_seconds :: real where
  "window_seconds = 300"

definition max_age_secs :: real where
  "max_age_secs = 90"

type_synonym cache = "string \<rightharpoonup> string list"

record clusterer =
  related_cache :: cache
  active :: "cluster list"
  next_cid :: nat

definition init_clusterer :: clusterer where
  "init_clusterer = \<lparr>related_cache = Map.empty, active = [], next_cid = 0\<rparr>"

definition open_cluster_count :: "clusterer \<Rightarrow> nat" where
  "open_cluster_count s = length (active s)"

subsection \<open>The neighbourhood cache and the search\<close>

type_synonym 'w neo = "string \<Rightarrow> ('w, string list) prog"

text \<open>\<open>_related\<close>: the neighbourhood with the service itself; only an answer is cached.\<close>

definition related :: "'w neo \<Rightarrow> string \<Rightarrow> (cache \<times> 'w, string list) prog" where
  "related neo sid s =
     (let (c, w) = s in
      case c sid of
        Some r \<Rightarrow> (Inr r, s)
      | None \<Rightarrow>
          (case neo sid w of
             (Inl e, w1) \<Rightarrow> (Inl e, (c, w1))
           | (Inr xs, w1) \<Rightarrow> let r = remdups (xs @ [sid]) in (Inr r, (c(sid \<mapsto> r), w1))))"

text \<open>\<open>owner\<close>: a later cluster overrides an earlier one that has the same service.\<close>

definition owner :: "cluster list \<Rightarrow> string \<Rightarrow> cluster option" where
  "owner eligible sid = List.find (\<lambda>c. sid \<in> set (service_ids c)) (rev eligible)"

definition owner_keys :: "cluster list \<Rightarrow> string list" where
  "owner_keys eligible = concat (map service_ids eligible)"

text \<open>The inner loop: unvisited neighbours that are owned are marked and queued.\<close>

fun visit :: "(string \<Rightarrow> bool) \<Rightarrow> string list \<Rightarrow> string list \<Rightarrow> string list \<Rightarrow> string list \<times> string list" where
  "visit own [] visited frontier = (visited, frontier)"
| "visit own (n # ns) visited frontier =
     (if own n \<and> n \<notin> set visited then visit own ns (visited @ [n]) (frontier @ [n])
      else visit own ns visited frontier)"

lemma visit_spec:
  "\<exists>new. visit own ns visited frontier = (visited @ new, frontier @ new) \<and> distinct new \<and>
         set new = {n \<in> set ns. own n \<and> n \<notin> set visited}"
proof (induction own ns visited frontier rule: visit.induct)
  case (1 own visited frontier)
  then show ?case by simp
next
  case (2 own n ns visited frontier)
  show ?case
  proof (cases "own n \<and> n \<notin> set visited")
    case True
    with 2 obtain new where
      "visit own ns (visited @ [n]) (frontier @ [n]) = (visited @ n # new, frontier @ n # new)"
      "distinct new" "set new = {m \<in> set ns. own m \<and> m \<notin> set (visited @ [n])}" by force
    with True show ?thesis by (intro exI [of _ "n # new"]) auto
  next
    case False
    with 2 obtain new where "visit own ns visited frontier = (visited @ new, frontier @ new)"
      "distinct new" "set new = {m \<in> set ns. own m \<and> m \<notin> set visited}" by auto
    with False show ?thesis by (intro exI [of _ new]) auto
  qed
qed

text \<open>
  The search. \<open>keys\<close> lists the keys of \<open>owner\<close>, so the unvisited ones shrink with every
  service that is queued.
\<close>

function bfs ::
  "'w neo \<Rightarrow> string list \<Rightarrow> string list \<Rightarrow> string list \<Rightarrow> (cache \<times> 'w, string list) prog" where
  "bfs neo keys visited [] c = (Inr visited, c)"
| "bfs neo keys visited (x # q) c =
     (case related neo x c of
        (Inl e, c1) \<Rightarrow> (Inl e, c1)
      | (Inr ns, c1) \<Rightarrow>
          (let (visited1, q1) = visit (\<lambda>n. n \<in> set keys) ns visited q
           in bfs neo keys visited1 q1 c1))"
  by pat_completeness auto
termination
proof (relation "measure (\<lambda>(neo, keys, visited, q, c). 2 * card (set keys - set visited) + length q)",
    simp)
  fix neo :: "'w neo" and keys visited x q c res c1 ns pr visited1 q1
  assume vis: "pr = visit (\<lambda>n. n \<in> set keys) ns visited q" "(visited1, q1) = pr"
  obtain new where new: "visit (\<lambda>n. n \<in> set keys) ns visited q = (visited @ new, q @ new)"
    "distinct new" "set new = {n \<in> set ns. n \<in> set keys \<and> n \<notin> set visited}"
    using visit_spec by blast
  from new vis have eq: "visited1 = visited @ new" "q1 = q @ new" by simp_all
  have "set keys - set visited1 = (set keys - set visited) - set new" by (auto simp: eq)
  moreover have "set new \<subseteq> set keys - set visited" using new(3) by auto
  ultimately have "card (set keys - set visited1) + length new = card (set keys - set visited)"
    using new(2) by (simp add: card_Diff_subset card_mono distinct_card [symmetric])
  then show "((neo, keys, visited1, q1, c1), neo, keys, visited, x # q, c)
    \<in> measure (\<lambda>(neo, keys, visited, q, c). 2 * card (set keys - set visited) + length q)"
    by (simp add: eq)
qed

subsection \<open>Operations\<close>

definition eligible_clusters :: "real \<Rightarrow> cluster list \<Rightarrow> cluster list" where
  "eligible_clusters now cs =
     filter (\<lambda>c. now - last_updated c \<le> window_seconds \<and> now - created_at c < max_age_secs) cs"

definition connected_clusters ::
  "'w neo \<Rightarrow> string \<Rightarrow> cluster list \<Rightarrow> (cache \<times> 'w, cluster list) prog" where
  "connected_clusters neo sid eligible s =
     (case bfs neo (owner_keys eligible) [sid] [sid] s of
        (Inl e, s1) \<Rightarrow> (Inl e, s1)
      | (Inr visited, s1) \<Rightarrow>
          let hit = map cid (List.map_filter (owner eligible) visited)
          in (Inr (filter (\<lambda>c. cid c \<in> set hit) eligible), s1))"

text \<open>
  The target absorbs the anomaly and then the other matching clusters, which leave the active
  list; the target is changed in place, so it keeps its position.
\<close>

definition absorb :: "anomaly \<Rightarrow> cluster \<Rightarrow> cluster list \<Rightarrow> cluster list \<Rightarrow> cluster list" where
  "absorb a target others cs =
     (let merged = fold cluster_merge others (cluster_add a target)
      in map (\<lambda>c. if cid c = cid target then merged else c)
           (filter (\<lambda>c. cid c \<notin> set (map cid others)) cs))"

definition add_anomaly :: "'w neo \<Rightarrow> anomaly \<Rightarrow> (clusterer \<times> 'w, unit) prog" where
  "add_anomaly neo a st =
     (let (s, w) = st in
      case connected_clusters neo (service_id a) (eligible_clusters (seconds a) (active s))
             (related_cache s, w) of
        (Inl e, (c, w1)) \<Rightarrow> (Inl e, (s\<lparr>related_cache := c\<rparr>, w1))
      | (Inr [], (c, w1)) \<Rightarrow>
          (Inr (), (s\<lparr>related_cache := c, active := active s @ [new_cluster (next_cid s) a],
                      next_cid := Suc (next_cid s)\<rparr>, w1))
      | (Inr (target # others), (c, w1)) \<Rightarrow>
          (Inr (), (s\<lparr>related_cache := c, active := absorb a target others (active s)\<rparr>, w1)))"

definition finalizes :: "real \<Rightarrow> cluster \<Rightarrow> bool" where
  "finalizes now c \<longleftrightarrow> now - last_updated c > window_seconds \<or> now - created_at c > max_age_secs"

definition pop_finalized :: "real \<Rightarrow> clusterer \<Rightarrow> cluster list \<times> clusterer" where
  "pop_finalized now s =
     (filter (finalizes now) (active s), s\<lparr>active := filter (\<lambda>c. \<not> finalizes now c) (active s)\<rparr>)"

subsection \<open>The search computes the connected component\<close>

text \<open>The topology is static: every answer for a service is the same set of services.\<close>

definition static_topology :: "'w neo \<Rightarrow> (string \<Rightarrow> string set) \<Rightarrow> bool" where
  "static_topology neo topo \<longleftrightarrow> (\<forall>x w xs w'. neo x w = (Inr xs, w') \<longrightarrow> set xs = topo x)"

definition cache_ok :: "(string \<Rightarrow> string set) \<Rightarrow> cache \<Rightarrow> bool" where
  "cache_ok topo c \<longleftrightarrow> (\<forall>x r. c x = Some r \<longrightarrow> set r = insert x (topo x))"

text \<open>The services reachable from one by neighbourhood steps into \<open>keys\<close>.\<close>

definition component :: "(string \<Rightarrow> string set) \<Rightarrow> string set \<Rightarrow> string \<Rightarrow> string set" where
  "component topo ks x = {y. (x, y) \<in> {(u, v). v \<in> topo u \<and> v \<in> ks}\<^sup>*}"

lemma related_spec:
  assumes "related neo x (c, w) = (r, (c1, w1))" and "static_topology neo topo" and "cache_ok topo c"
  shows "cache_ok topo c1" and "r = Inr ns \<Longrightarrow> set ns = insert x (topo x)"
proof -
  have static: "set xs = topo x" if "neo x w = (Inr xs, w')" for xs w'
    using assms(2) that by (auto simp: static_topology_def)
  show "cache_ok topo c1"
    using assms(1,3) static
    by (cases "c x"; cases "neo x w"; cases "fst (neo x w)") (auto simp: related_def cache_ok_def Let_def split: if_splits)
  show "set ns = insert x (topo x)" if "r = Inr ns"
    using assms(1,3) static that
    by (cases "c x"; cases "neo x w"; cases "fst (neo x w)") (auto simp: related_def cache_ok_def Let_def)
qed

lemma component_refl [simp]: "x \<in> component topo ks x"
  by (simp add: component_def)

lemma component_step:
  "u \<in> component topo ks x \<Longrightarrow> v \<in> topo u \<Longrightarrow> v \<in> ks \<Longrightarrow> v \<in> component topo ks x"
  by (auto simp: component_def intro: rtrancl_into_rtrancl)

lemma component_least:
  assumes "x \<in> V" and "\<And>u v. u \<in> V \<Longrightarrow> v \<in> topo u \<Longrightarrow> v \<in> ks \<Longrightarrow> v \<in> V"
  shows "component topo ks x \<subseteq> V"
proof
  fix y assume "y \<in> component topo ks x"
  then have "(x, y) \<in> {(u, v). v \<in> topo u \<and> v \<in> ks}\<^sup>*" by (simp add: component_def)
  then show "y \<in> V" by induction (auto intro: assms)
qed

lemma bfs_component:
  assumes "bfs neo keys visited q s = (Inr vis, s1)"
    and "static_topology neo topo" and "cache_ok topo (fst s)"
    and "x0 \<in> set visited" and "set q \<subseteq> set visited"
    and "set visited \<subseteq> component topo (set keys) x0"
    and "\<And>u v. u \<in> set visited - set q \<Longrightarrow> v \<in> topo u \<Longrightarrow> v \<in> set keys \<Longrightarrow> v \<in> set visited"
  shows "set vis = component topo (set keys) x0"
  using assms
proof (induction neo keys visited q s rule: bfs.induct)
  case (1 neo keys visited c)
  then show ?case using component_least [of x0 "set visited" topo "set keys"] by auto
next
  case (2 neo keys visited x q s)
  obtain c w where s: "s = (c, w)" by fastforce
  from "2.prems"(1) obtain ns c1 w1 where rel: "related neo x (c, w) = (Inr ns, (c1, w1))"
    by (auto simp: s split: prod.splits sum.splits)
  from related_spec [OF rel] "2.prems"(2,3) have ns: "set ns = insert x (topo x)" "cache_ok topo c1"
    by (auto simp: s)
  obtain new where vis: "visit (\<lambda>n. n \<in> set keys) ns visited q = (visited @ new, q @ new)"
    and new: "set new = {n \<in> set ns. n \<in> set keys \<and> n \<notin> set visited}" using visit_spec by blast
  from "2.prems"(5) have x: "x \<in> set visited" by simp
  have "bfs neo keys (visited @ new) (q @ new) (c1, w1) = (Inr vis, s1)"
    using "2.prems"(1) rel vis by (simp add: s)
  moreover have "set (visited @ new) \<subseteq> component topo (set keys) x0"
    using "2.prems"(6) new ns(1) x by (auto intro: component_step)
  moreover have "v \<in> set (visited @ new)"
    if "u \<in> set (visited @ new) - set (q @ new)" "v \<in> topo u" "v \<in> set keys" for u v
    using that "2.prems"(7) [of u v] new ns(1) by auto
  moreover have "x0 \<in> set (visited @ new)" "set (q @ new) \<subseteq> set (visited @ new)"
    using "2.prems"(4,5) by auto
  ultimately show ?case
    using "2.IH" [OF rel [folded s, symmetric] refl vis [symmetric] refl] ns(2) "2.prems"(2) by simp
qed

lemma image_Collect_mem: "f ` {x \<in> A. f x \<in> B} = f ` A \<inter> B"
  by auto

text \<open>
  C8. The clusters an anomaly connects are exactly the eligible clusters that own a service of
  the anomaly's connected component in the service graph restricted to services with an open
  anomaly, whatever the order in which neighbours are listed and whatever the cache already holds.
\<close>

theorem connected_clusters_component:
  assumes "connected_clusters neo sid eligible (c, w) = (Inr matching, s1)"
    and "static_topology neo topo" and "cache_ok topo c"
  shows "set (map cid matching) =
           {cid k | k x. x \<in> component topo (\<Union>k \<in> set eligible. set (service_ids k)) sid \<and>
                         owner eligible x = Some k}"
proof -
  from assms(1) obtain vis where bfs: "bfs neo (owner_keys eligible) [sid] [sid] (c, w) = (Inr vis, s1)"
    and m: "matching =
      filter (\<lambda>k. cid k \<in> set (map cid (List.map_filter (owner eligible) vis))) eligible"
    by (auto simp: connected_clusters_def Let_def split: prod.splits sum.splits)
  have "set vis = component topo (set (owner_keys eligible)) sid"
    by (rule bfs_component [OF bfs assms(2)]) (use assms(3) in auto)
  also have "set (owner_keys eligible) = (\<Union>k \<in> set eligible. set (service_ids k))"
    by (simp add: owner_keys_def)
  finally have vis: "set vis = component topo (\<Union>k \<in> set eligible. set (service_ids k)) sid" .
  have own: "k \<in> set eligible" if "owner eligible x = Some k" for x k
    using that by (auto simp: owner_def find_Some_iff) (metis nth_mem length_rev set_rev)
  have hit: "n \<in> set (map cid (List.map_filter (owner eligible) vis)) \<longleftrightarrow>
      (\<exists>k x. x \<in> set vis \<and> owner eligible x = Some k \<and> n = cid k)" for n
    by (auto simp: List.map_filter_def image_iff) force
  have mem: "n \<in> set (map cid matching) \<longleftrightarrow>
      n \<in> set (map cid (List.map_filter (owner eligible) vis)) \<and> n \<in> cid ` set eligible" for n
    unfolding m set_map set_filter image_Collect_mem by simp blast
  show ?thesis
    unfolding vis [symmetric] set_eq_iff mem_Collect_eq mem hit using own by blast
qed

subsection \<open>Merging and absorbing\<close>

lemma seconds_simps [simp]:
  "cid (new_cluster n a) = n" "anomalies (new_cluster n a) = [a]"
  "service_ids (new_cluster n a) = [service_id a]"
  "created_at (new_cluster n a) = seconds a" "last_updated (new_cluster n a) = seconds a"
  "cid (cluster_add a c) = cid c" "anomalies (cluster_add a c) = anomalies c @ [a]"
  "service_ids (cluster_add a c) = List.insert (service_id a) (service_ids c)"
  "created_at (cluster_add a c) = created_at c"
  "last_updated (cluster_add a c) = max (last_updated c) (seconds a)"
  by (simp_all add: new_cluster_def cluster_add_def)

lemma merge_simps [simp]:
  "cid (cluster_merge d c) = cid c" "anomalies (cluster_merge d c) = anomalies c @ anomalies d"
  "service_ids (cluster_merge d c) = List.union (service_ids d) (service_ids c)"
  "created_at (cluster_merge d c) = min (created_at c) (created_at d)"
  "last_updated (cluster_merge d c) = max (last_updated c) (last_updated d)"
  by (simp_all add: cluster_merge_def)

lemma fold_merge [simp]:
  "cid (fold cluster_merge ds c) = cid c"
  "anomalies (fold cluster_merge ds c) = anomalies c @ concat (map anomalies ds)"
  "set (service_ids (fold cluster_merge ds c)) =
     set (service_ids c) \<union> (\<Union>d \<in> set ds. set (service_ids d))"
  by (induction ds arbitrary: c) auto

lemma fold_merge_created:
  "r < created_at (fold cluster_merge ds c) \<longleftrightarrow> r < created_at c \<and> (\<forall>d \<in> set ds. r < created_at d)"
  "r \<le> created_at (fold cluster_merge ds c) \<longleftrightarrow> r \<le> created_at c \<and> (\<forall>d \<in> set ds. r \<le> created_at d)"
  "\<exists>d \<in> insert c (set ds). created_at (fold cluster_merge ds c) = created_at d"
  "last_updated (fold cluster_merge ds c) \<le> r \<longleftrightarrow> last_updated c \<le> r \<and> (\<forall>d \<in> set ds. last_updated d \<le> r)"
  "\<exists>d \<in> insert c (set ds). last_updated (fold cluster_merge ds c) = last_updated d"
proof (induction ds arbitrary: c)
  case (Cons d ds)
  { case 1 show ?case using Cons(1) [of "cluster_merge d c"] by auto }
  { case 2 show ?case using Cons(2) [of "cluster_merge d c"] by auto }
  { case 3 show ?case using Cons(3) [of "cluster_merge d c"] by (auto simp: min_def split: if_splits) }
  { case 4 show ?case using Cons(4) [of "cluster_merge d c"] by auto }
  { case 5 show ?case using Cons(5) [of "cluster_merge d c"] by (auto simp: max_def split: if_splits) }
qed simp_all

lemma fold_merge_distinct:
  "distinct (service_ids c) \<Longrightarrow> distinct (service_ids (fold cluster_merge ds c))"
  by (induction ds arbitrary: c) simp_all

definition merged :: "anomaly \<Rightarrow> cluster \<Rightarrow> cluster list \<Rightarrow> cluster" where
  "merged a target others = fold cluster_merge others (cluster_add a target)"

lemma distinct_cid:
  "distinct (map cid cs) \<Longrightarrow> c \<in> set cs \<Longrightarrow> d \<in> set cs \<Longrightarrow> cid c = cid d \<Longrightarrow> c = d"
  by (simp add: distinct_map inj_on_def)

lemma absorb_set:
  assumes "distinct (map cid cs)" and "target # others = filter P cs"
  shows "set (absorb a target others cs) =
           insert (merged a target others) (set cs - insert target (set others))"
    and "distinct (map cid (absorb a target others cs))"
    and "merged a target others \<notin> set cs - insert target (set others)"
proof -
  have sub: "target \<in> set cs" "set others \<subseteq> set cs"
    using assms(2) by (metis list.set_intros(1) filter_is_subset subsetD,
      metis filter_is_subset set_subset_Cons subset_trans)
  have dist: "distinct (map cid (target # others))"
    unfolding assms(2) using assms(1) by (rule distinct_map_filter)
  have cid: "cid c \<in> cid ` set others \<longleftrightarrow> c \<in> set others" if "c \<in> set cs" for c
    using that sub distinct_cid [OF assms(1)] by blast
  have tgt: "target \<notin> set others" using dist by auto
  have same: "cid c = cid target \<longleftrightarrow> c = target" if "c \<in> set cs" for c
    using that sub distinct_cid [OF assms(1)] by blast
  show "set (absorb a target others cs) =
      insert (merged a target others) (set cs - insert target (set others))"
    using sub tgt cid same unfolding absorb_def merged_def Let_def
    by (auto simp: image_iff)
  have "map cid (absorb a target others cs) =
      map cid (filter (\<lambda>c. cid c \<notin> set (map cid others)) cs)"
    by (simp add: absorb_def Let_def)
  then show "distinct (map cid (absorb a target others cs))"
    using assms(1) by (simp add: distinct_map_filter)
  show "merged a target others \<notin> set cs - insert target (set others)"
    using same [of "merged a target others"] by (auto simp: merged_def)
qed

subsection \<open>What a call of add\_anomaly does\<close>

lemma connected_filter:
  assumes "connected_clusters neo sid eligible s = (Inr matching, s1)"
  shows "\<exists>P. matching = filter P eligible"
  using assms by (auto simp: connected_clusters_def Let_def split: prod.splits sum.splits)

lemma add_anomaly_elim:
  assumes "add_anomaly neo a (s, w) = (r, (s1, w1))"
  obtains (raised) e c where "r = Inl e" "s1 = s\<lparr>related_cache := c\<rparr>"
      "connected_clusters neo (service_id a) (eligible_clusters (seconds a) (active s))
         (related_cache s, w) = (Inl e, (c, w1))"
  | (opened) c where "r = Inr ()"
      "s1 = s\<lparr>related_cache := c, active := active s @ [new_cluster (next_cid s) a],
             next_cid := Suc (next_cid s)\<rparr>"
      "connected_clusters neo (service_id a) (eligible_clusters (seconds a) (active s))
         (related_cache s, w) = (Inr [], (c, w1))"
  | (joined) target others P c where "r = Inr ()"
      "s1 = s\<lparr>related_cache := c, active := absorb a target others (active s)\<rparr>"
      "target # others = filter P (eligible_clusters (seconds a) (active s))"
      "connected_clusters neo (service_id a) (eligible_clusters (seconds a) (active s))
         (related_cache s, w) = (Inr (target # others), (c, w1))"
proof -
  obtain m c w2 where con: "connected_clusters neo (service_id a)
      (eligible_clusters (seconds a) (active s)) (related_cache s, w) = (m, (c, w2))"
    by (metis prod.exhaust)
  show thesis
  proof (cases m)
    case (Inl e)
    with con assms show thesis by (intro raised) (auto simp: add_anomaly_def)
  next
    case (Inr matching)
    show thesis
    proof (cases matching)
      case Nil
      with Inr con assms show thesis by (intro opened) (auto simp: add_anomaly_def)
    next
      case (Cons target others)
      from Cons Inr con assms have "r = Inr ()" "w2 = w1"
        "s1 = s\<lparr>related_cache := c, active := absorb a target others (active s)\<rparr>"
        by (auto simp: add_anomaly_def)
      moreover from Cons Inr con connected_filter obtain P where
        "target # others = filter P (eligible_clusters (seconds a) (active s))" by metis
      moreover from con Inr Cons \<open>w2 = w1\<close> have "connected_clusters neo (service_id a)
          (eligible_clusters (seconds a) (active s)) (related_cache s, w) = (Inr (target # others), (c, w1))"
        by (simp only:)
      ultimately show thesis by (intro joined)
    qed
  qed
qed

lemma absorb_eligible:
  assumes "distinct (map cid (active s))"
    and "target # others = filter P (eligible_clusters now (active s))"
  shows "set (absorb a target others (active s)) =
           insert (merged a target others) (set (active s) - insert target (set others))"
    and "distinct (map cid (absorb a target others (active s)))"
    and "merged a target others \<notin> set (active s) - insert target (set others)"
    and "insert target (set others) \<subseteq> set (eligible_clusters now (active s))"
    and "distinct (map cid (target # others))"
proof -
  from assms(2) have eq: "target # others =
      filter (\<lambda>c. (now - last_updated c \<le> window_seconds \<and> now - created_at c < max_age_secs) \<and> P c)
        (active s)"
    by (simp add: eligible_clusters_def conj_commute)
  show "set (absorb a target others (active s)) =
           insert (merged a target others) (set (active s) - insert target (set others))"
    and "distinct (map cid (absorb a target others (active s)))"
    and "merged a target others \<notin> set (active s) - insert target (set others)"
    by (rule absorb_set [OF assms(1) eq])+
  have "insert target (set others) = set (filter P (eligible_clusters now (active s)))"
    using arg_cong [OF assms(2), of set] by simp
  then show "insert target (set others) \<subseteq> set (eligible_clusters now (active s))" by auto
  show "distinct (map cid (target # others))" unfolding eq using assms(1) by (rule distinct_map_filter)
qed

subsection \<open>Well-formed clusters\<close>

definition wf_cluster :: "cluster \<Rightarrow> bool" where
  "wf_cluster c \<longleftrightarrow>
     set (service_ids c) = service_id ` set (anomalies c) \<and> distinct (service_ids c) \<and>
     created_at c \<in> seconds ` set (anomalies c) \<and> last_updated c \<in> seconds ` set (anomalies c) \<and>
     (\<forall>a \<in> set (anomalies c). seconds a \<le> last_updated c)"

definition wf_clusterer :: "clusterer \<Rightarrow> bool" where
  "wf_clusterer s \<longleftrightarrow>
     distinct (map cid (active s)) \<and> (\<forall>c \<in> set (active s). cid c < next_cid s \<and> wf_cluster c)"

lemma wf_cluster_created_le: "wf_cluster c \<Longrightarrow> created_at c \<le> last_updated c"
  by (auto simp: wf_cluster_def)

lemma wf_new_cluster: "wf_cluster (new_cluster n a)"
  by (simp add: wf_cluster_def)

lemma wf_cluster_add: "wf_cluster c \<Longrightarrow> wf_cluster (cluster_add a c)"
  by (auto simp: wf_cluster_def max_def)

lemma wf_cluster_merge: "wf_cluster c \<Longrightarrow> wf_cluster d \<Longrightarrow> wf_cluster (cluster_merge d c)"
  by (auto simp: wf_cluster_def max_def min_def)

lemma wf_merged:
  assumes "wf_cluster target" and "\<forall>d \<in> set others. wf_cluster d"
  shows "wf_cluster (merged a target others)"
proof -
  have "wf_cluster c \<Longrightarrow> \<forall>d \<in> set ds. wf_cluster d \<Longrightarrow> wf_cluster (fold cluster_merge ds c)" for ds c
    by (induction ds arbitrary: c) (simp_all add: wf_cluster_merge)
  with assms show ?thesis by (simp add: merged_def wf_cluster_add)
qed

lemma eligible_subset: "set (eligible_clusters now cs) \<subseteq> set cs"
  by (auto simp: eligible_clusters_def)

lemma wf_add_anomaly:
  assumes "wf_clusterer s"
  shows "wf_clusterer (fst (snd (add_anomaly neo a (s, w))))"
proof -
  obtain r s1 w1 where call: "add_anomaly neo a (s, w) = (r, (s1, w1))" by (metis prod.exhaust)
  from call show ?thesis
  proof (cases rule: add_anomaly_elim)
    case (raised e c)
    with assms call show ?thesis by (simp add: wf_clusterer_def)
  next
    case (opened c)
    with assms call show ?thesis by (auto simp: wf_clusterer_def wf_new_cluster less_Suc_eq)
  next
    case (joined target others P c)
    from assms have dist: "distinct (map cid (active s))" by (simp add: wf_clusterer_def)
    note ab = absorb_eligible [OF dist joined(3)]
    from ab(4) eligible_subset have sub: "insert target (set others) \<subseteq> set (active s)" by blast
    with assms have "wf_cluster (merged a target others)"
      by (intro wf_merged) (auto simp: wf_clusterer_def)
    moreover have "cid (merged a target others) = cid target" by (simp add: merged_def)
    ultimately show ?thesis
      using assms call sub joined ab(1,2) by (auto simp: wf_clusterer_def)
  qed
qed

lemma wf_pop_finalized: "wf_clusterer s \<Longrightarrow> wf_clusterer (snd (pop_finalized now s))"
  by (simp add: wf_clusterer_def pop_finalized_def distinct_map_filter)

subsection \<open>Runs of the clusterer\<close>

text \<open>
  A run ingests anomalies and pops finalised clusters; the clusters popped so far are
  remembered beside the state.
\<close>

datatype cl_event = Ingest anomaly | Check real

type_synonym 'w cl_run = "(clusterer \<times> 'w) \<times> cluster list"

fun cl_step :: "'w neo \<Rightarrow> cl_event \<Rightarrow> 'w cl_run \<Rightarrow> 'w cl_run" where
  "cl_step neo (Ingest a) (st, popped) = (snd (add_anomaly neo a st), popped)"
| "cl_step neo (Check now) ((s, w), popped) =
     (let (fin, s1) = pop_finalized now s in ((s1, w), popped @ fin))"

definition open_state :: "'w cl_run \<Rightarrow> clusterer" where
  "open_state x = fst (fst x)"

definition run_wf :: "'w cl_run \<Rightarrow> bool" where
  "run_wf x \<longleftrightarrow> wf_clusterer (open_state x) \<and> (\<forall>c \<in> set (snd x). wf_cluster c)"

lemma cl_step_wf: "run_wf x \<Longrightarrow> run_wf (cl_step neo e x)"
proof -
  obtain s w popped where fields: "x = ((s, w), popped)" by (metis prod.exhaust)
  assume "run_wf x"
  moreover have "wf_cluster c" if "wf_clusterer s" "c \<in> set (fst (pop_finalized now s))" for c now
    using that by (auto simp: wf_clusterer_def pop_finalized_def)
  ultimately show ?thesis
    using wf_pop_finalized [of s]
    by (cases e) (auto simp: fields run_wf_def open_state_def wf_add_anomaly case_prod_unfold Let_def)
qed

interpretation cl_run: step_system "cl_step neo" run_wf for neo
  by unfold_locales (rule cl_step_wf)

lemma run_wf_init: "run_wf ((init_clusterer, w), [])"
  by (simp add: run_wf_def open_state_def wf_clusterer_def init_clusterer_def)

subsection \<open>Finalisation is by age alone\<close>

lemma finalizes_aged: "wf_cluster c \<Longrightarrow> finalizes now c \<longleftrightarrow> now - created_at c > max_age_secs"
  using wf_cluster_created_le [of c] by (auto simp: finalizes_def window_seconds_def max_age_secs_def)

lemma young_within_window:
  "wf_cluster c \<Longrightarrow> now - created_at c < max_age_secs \<Longrightarrow> now - last_updated c \<le> window_seconds"
  using wf_cluster_created_le [of c] by (auto simp: window_seconds_def max_age_secs_def)

text \<open>
  In every run the 300 s window decides nothing: a check pops exactly the clusters that have
  been open for more than 90 s, and an anomaly can join exactly the clusters younger than 90 s.
\<close>

theorem window_never_decides:
  assumes "x = fold (cl_step neo) es ((init_clusterer, w), [])"
  shows "fst (pop_finalized now (open_state x)) =
           filter (\<lambda>c. now - created_at c > max_age_secs) (active (open_state x)) \<and>
         eligible_clusters now (active (open_state x)) =
           filter (\<lambda>c. now - created_at c < max_age_secs) (active (open_state x))"
proof -
  have "run_wf x" unfolding assms by (rule cl_run.run_inv [OF run_wf_init])
  then have "\<forall>c \<in> set (active (open_state x)). wf_cluster c"
    by (simp add: run_wf_def wf_clusterer_def)
  then show ?thesis
    by (auto simp: pop_finalized_def eligible_clusters_def finalizes_aged young_within_window
        intro!: filter_cong)
qed

subsection \<open>No anomaly is lost or duplicated\<close>

definition anomalies_of :: "cluster list \<Rightarrow> anomaly multiset" where
  "anomalies_of cs = mset (concat (map anomalies cs))"

lemma anomalies_of_simps [simp]:
  "anomalies_of [] = {#}" "anomalies_of (c # cs) = mset (anomalies c) + anomalies_of cs"
  "anomalies_of (cs @ ds) = anomalies_of cs + anomalies_of ds"
  by (simp_all add: anomalies_of_def)

lemma anomalies_of_filter:
  "anomalies_of (filter P cs) + anomalies_of (filter (\<lambda>c. \<not> P c) cs) = anomalies_of cs"
  by (induction cs) (simp_all add: ac_simps)

lemma anomalies_of_set: "distinct cs \<Longrightarrow> anomalies_of cs = (\<Sum>c \<in> set cs. mset (anomalies c))"
  by (induction cs) simp_all

lemma mset_merged: "mset (anomalies (merged a target others)) =
    add_mset a (mset (anomalies target) + anomalies_of others)"
  by (simp add: merged_def anomalies_of_def)

lemma anomalies_of_absorb:
  assumes "distinct (map cid (active s))"
    and "target # others = filter P (eligible_clusters now (active s))"
  shows "anomalies_of (absorb a target others (active s)) = add_mset a (anomalies_of (active s))"
proof -
  note ab = absorb_eligible [OF assms]
  from ab(4) eligible_subset have sub: "insert target (set others) \<subseteq> set (active s)" by blast
  have dist: "distinct (target # others)" "distinct (active s)" "distinct (absorb a target others (active s))"
    using ab(2) [of a] ab(5) assms(1) by (auto simp: distinct_map)
  let ?f = "\<lambda>c. mset (anomalies c)"
  have "anomalies_of (absorb a target others (active s)) =
      ?f (merged a target others) + (\<Sum>c \<in> set (active s) - set (target # others). ?f c)"
    using ab(1,3) [of a] dist by (simp add: anomalies_of_set)
  also have "?f (merged a target others) = add_mset a (\<Sum>c \<in> set (target # others). ?f c)"
    unfolding mset_merged using dist(1) by (simp add: anomalies_of_set)
  also have "(\<Sum>c \<in> set (target # others). ?f c) + (\<Sum>c \<in> set (active s) - set (target # others). ?f c) =
      (\<Sum>c \<in> set (active s). ?f c)"
    by (rule sum.subset_diff [symmetric, THEN trans [OF add.commute]]) (use sub in auto)
  ultimately show ?thesis using dist(2) by (simp add: anomalies_of_set)
qed

text \<open>Whether \<open>add_anomaly\<close> returned, for the accounting of a run.\<close>

fun ingested :: "'w neo \<Rightarrow> cl_event list \<Rightarrow> 'w cl_run \<Rightarrow> anomaly multiset" where
  "ingested neo [] x = {#}"
| "ingested neo (Check now # es) x = ingested neo es (cl_step neo (Check now) x)"
| "ingested neo (Ingest a # es) x =
     (case fst (add_anomaly neo a (fst x)) of Inl _ \<Rightarrow> {#} | Inr _ \<Rightarrow> {#a#}) +
     ingested neo es (cl_step neo (Ingest a) x)"

definition held_anomalies :: "'w cl_run \<Rightarrow> anomaly multiset" where
  "held_anomalies x = anomalies_of (active (open_state x)) + anomalies_of (snd x)"

lemma held_anomalies_ingest:
  assumes "run_wf x"
  shows "held_anomalies (cl_step neo (Ingest a) x) =
           held_anomalies x + (case fst (add_anomaly neo a (fst x)) of Inl _ \<Rightarrow> {#} | Inr _ \<Rightarrow> {#a#})"
proof -
  obtain s w popped where fields: "x = ((s, w), popped)" by (metis prod.exhaust)
  obtain r s1 w1 where call: "add_anomaly neo a (s, w) = (r, (s1, w1))" by (metis prod.exhaust)
  from assms have dist: "distinct (map cid (active s))"
    by (simp add: fields run_wf_def open_state_def wf_clusterer_def)
  from call show ?thesis
    by (cases rule: add_anomaly_elim)
      (use call in \<open>simp_all add: fields held_anomalies_def open_state_def anomalies_of_absorb [OF dist]\<close>)
qed

lemma held_anomalies_check: "held_anomalies (cl_step neo (Check now) x) = held_anomalies x"
proof -
  obtain s w popped where fields: "x = ((s, w), popped)" by (metis prod.exhaust)
  show ?thesis
    using anomalies_of_filter [of "finalizes now" "active s"]
    by (simp add: fields held_anomalies_def open_state_def pop_finalized_def ac_simps)
qed

lemma held_anomalies_run:
  "run_wf x \<Longrightarrow> held_anomalies (fold (cl_step neo) es x) = held_anomalies x + ingested neo es x"
  by (induction neo es x rule: ingested.induct)
    (simp_all add: cl_step_wf held_anomalies_ingest held_anomalies_check ac_simps)

text \<open>
  C18. Whatever is merged and popped, every anomaly that was ingested is in exactly one cluster, open
  or finalised, exactly as often as it came in; a failing Neo4j query loses only its own anomaly.
\<close>

theorem anomalies_conserved:
  "held_anomalies (fold (cl_step neo) es ((init_clusterer, w), [])) =
     ingested neo es ((init_clusterer, w), [])"
  by (simp add: held_anomalies_run [OF run_wf_init])
    (simp add: held_anomalies_def open_state_def init_clusterer_def)

subsection \<open>Anomalies that arrive in order\<close>

definition young :: "real \<Rightarrow> cluster \<Rightarrow> bool" where
  "young t c \<longleftrightarrow> t - created_at c < max_age_secs"

text \<open>
  The invariant of a run whose anomalies so far were detected at most at \<open>t\<close>: a cluster spans
  less than 90 s, \<open>created_at\<close> is its earliest detection, and two clusters that can still be
  joined share no service.
\<close>

definition span_ok :: "cluster \<Rightarrow> bool" where
  "span_ok c \<longleftrightarrow>
     last_updated c - created_at c < max_age_secs \<and> (\<forall>a \<in> set (anomalies c). created_at c \<le> seconds a)"

definition ordered_inv :: "real \<Rightarrow> clusterer \<Rightarrow> bool" where
  "ordered_inv t s \<longleftrightarrow>
     wf_clusterer s \<and> (\<forall>c \<in> set (active s). span_ok c \<and> last_updated c \<le> t) \<and>
     (\<forall>c \<in> set (active s). \<forall>d \<in> set (active s). c \<noteq> d \<longrightarrow> young t c \<longrightarrow> young t d \<longrightarrow>
        set (service_ids c) \<inter> set (service_ids d) = {})"

lemma ordered_inv_wf: "ordered_inv t s \<Longrightarrow> wf_clusterer s"
  by (simp add: ordered_inv_def)

lemma ordered_inv_mono: "ordered_inv t s \<Longrightarrow> t \<le> u \<Longrightarrow> ordered_inv u s"
  unfolding ordered_inv_def young_def by (meson diff_right_mono order.trans order_le_less_trans)

lemma young_eligible:
  assumes "wf_clusterer s"
  shows "c \<in> set (eligible_clusters t (active s)) \<longleftrightarrow> c \<in> set (active s) \<and> young t c"
  using assms young_within_window [of c t]
  by (auto simp: eligible_clusters_def young_def wf_clusterer_def)

lemma bfs_keeps_visited: "bfs neo keys visited q s = (Inr vis, s1) \<Longrightarrow> set visited \<subseteq> set vis"
proof (induction neo keys visited q s rule: bfs.induct)
  case (2 neo keys visited x q s)
  from "2.prems" obtain ns t where rel: "related neo x s = (Inr ns, t)"
    by (auto split: prod.splits sum.splits)
  obtain new where vis: "visit (\<lambda>n. n \<in> set keys) ns visited q = (visited @ new, q @ new)"
    using visit_spec by blast
  from "2.prems" rel vis have "bfs neo keys (visited @ new) (q @ new) t = (Inr vis, s1)" by simp
  with "2.IH" [OF rel [symmetric] refl vis [symmetric] refl] show ?case by simp
qed simp

lemma owner_connected:
  assumes "connected_clusters neo sid eligible s = (Inr m, s1)" and "owner eligible sid = Some c"
  shows "c \<in> set m"
proof -
  from assms(1) obtain vis where bfs: "bfs neo (owner_keys eligible) [sid] [sid] s = (Inr vis, s1)"
    and m: "m = filter (\<lambda>k. cid k \<in> set (map cid (List.map_filter (owner eligible) vis))) eligible"
    by (auto simp: connected_clusters_def Let_def split: prod.splits sum.splits)
  from bfs_keeps_visited [OF bfs] have "sid \<in> set vis" by simp
  with assms(2) have "c \<in> set (List.map_filter (owner eligible) vis)"
    by (force simp: List.map_filter_def)
  moreover from assms(2) have "c \<in> set eligible"
    by (auto simp: owner_def find_Some_iff) (metis nth_mem length_rev set_rev)
  ultimately show ?thesis by (auto simp: m)
qed

lemma owner_exists:
  assumes "c \<in> set eligible" and "sid \<in> set (service_ids c)"
  shows "\<exists>d \<in> set eligible. owner eligible sid = Some d \<and> sid \<in> set (service_ids d)"
proof (cases "owner eligible sid")
  case None
  with assms show ?thesis by (auto simp: owner_def find_None_iff)
next
  case (Some d)
  then have "d \<in> set eligible \<and> sid \<in> set (service_ids d)"
    by (auto simp: owner_def find_Some_iff) (metis nth_mem length_rev set_rev)
  with Some show ?thesis by blast
qed

lemma ordered_connected:
  assumes inv: "ordered_inv (seconds a) s"
    and con: "connected_clusters neo (service_id a) (eligible_clusters (seconds a) (active s)) z =
                (Inr m, z1)"
    and c: "c \<in> set (active s)" "young (seconds a) c" "service_id a \<in> set (service_ids c)"
  shows "c \<in> set m"
proof -
  let ?el = "eligible_clusters (seconds a) (active s)"
  note el = young_eligible [OF ordered_inv_wf [OF inv]]
  from c el have "c \<in> set ?el" by blast
  from owner_exists [OF this c(3)] obtain d where d: "d \<in> set ?el" "owner ?el (service_id a) = Some d"
    "service_id a \<in> set (service_ids d)" by blast
  have "d = c"
  proof (rule ccontr)
    assume "d \<noteq> c"
    with inv c d(1) el have "set (service_ids d) \<inter> set (service_ids c) = {}"
      unfolding ordered_inv_def by blast
    with d(3) c(3) show False by blast
  qed
  with owner_connected [OF con] d(2) show ?thesis by simp
qed

lemma span_merged:
  assumes T: "\<And>d. d \<in> insert target (set others) \<Longrightarrow>
                wf_cluster d \<and> span_ok d \<and> last_updated d \<le> seconds a \<and> young (seconds a) d"
  shows "span_ok (merged a target others) \<and> last_updated (merged a target others) \<le> seconds a"
proof -
  let ?m = "merged a target others"
  have last: "last_updated ?m \<le> seconds a"
    using T by (auto simp: merged_def fold_merge_created)
  have "seconds a - max_age_secs < created_at ?m"
    unfolding merged_def fold_merge_created(1)
    using T [unfolded young_def] by (auto simp: diff_less_eq less_diff_eq algebra_simps)
  moreover have le: "created_at ?m \<le> created_at target" "\<And>d. d \<in> set others \<Longrightarrow> created_at ?m \<le> created_at d"
    using fold_merge_created(2) [of "created_at ?m" others "cluster_add a target"]
    by (simp_all add: merged_def)
  have "created_at ?m \<le> seconds b" if b: "b \<in> set (anomalies ?m)" for b
  proof -
    from b consider "b \<in> set (anomalies target)" | "b = a"
      | d where "d \<in> set others" "b \<in> set (anomalies d)" by (auto simp: merged_def)
    then show ?thesis
    proof cases
      case 1
      then show ?thesis using T [of target] le(1) by (force simp: span_ok_def)
    next
      case 2
      have "created_at target \<le> last_updated target" "last_updated target \<le> seconds a"
        using T [of target] wf_cluster_created_le [of target] by simp_all
      with le(1) 2 show ?thesis by simp
    next
      case 3
      then show ?thesis using T [of d] le(2) [of d] by (force simp: span_ok_def)
    qed
  qed
  with calculation last show ?thesis by (simp add: span_ok_def)
qed

lemma ordered_inv_add:
  assumes start: "ordered_inv t s" and le: "t \<le> seconds a"
  shows "ordered_inv (seconds a) (fst (snd (add_anomaly neo a (s, w))))"
proof -
  from start le have inv: "ordered_inv (seconds a) s" by (rule ordered_inv_mono)
  then have wf: "wf_clusterer s" by (rule ordered_inv_wf)
  have wf': "wf_clusterer (fst (snd (add_anomaly neo a (s, w))))" by (rule wf_add_anomaly [OF wf])
  obtain r s1 w1 where call: "add_anomaly neo a (s, w) = (r, (s1, w1))" by (metis prod.exhaust)
  have disj: "set (service_ids c) \<inter> set (service_ids d) = {}"
    if "c \<in> set (active s)" "d \<in> set (active s)" "c \<noteq> d" "young (seconds a) c" "young (seconds a) d" for c d
    using inv that unfolding ordered_inv_def by blast
  from call show ?thesis
  proof (cases rule: add_anomaly_elim)
    case (raised e c)
    with inv call wf' show ?thesis by (simp add: ordered_inv_def)
  next
    case (opened k)
    have fresh: "service_id a \<notin> set (service_ids c)" if "c \<in> set (active s)" "young (seconds a) c" for c
      using ordered_connected [OF inv opened(3) that] by auto
    have "span_ok (new_cluster (next_cid s) a)" by (simp add: span_ok_def max_age_secs_def)
    with inv call wf' opened(1,2) fresh show ?thesis by (auto simp: ordered_inv_def)
  next
    case (joined target others P k)
    from wf have dist: "distinct (map cid (active s))" by (simp add: wf_clusterer_def)
    note ab = absorb_eligible [OF dist joined(3)]
    let ?T = "insert target (set others)" and ?m = "merged a target others"
    have T: "d \<in> set (active s) \<and> young (seconds a) d" if "d \<in> ?T" for d
      using ab(4) that young_eligible [OF wf, of d] by auto
    have "span_ok ?m \<and> last_updated ?m \<le> seconds a"
      by (rule span_merged) (use inv T in \<open>auto simp: ordered_inv_def wf_clusterer_def\<close>)
    moreover have "set (service_ids c) \<inter> set (service_ids ?m) = {}"
      if c: "c \<in> set (active s) - ?T" "young (seconds a) c" for c
    proof -
      have "set (target # others) = ?T" by simp
      with ordered_connected [OF inv joined(4)] c have "service_id a \<notin> set (service_ids c)" by blast
      moreover have "set (service_ids c) \<inter> set (service_ids d) = {}" if "d \<in> ?T" for d
        using disj [of c d] c T [OF that] that by blast
      ultimately show ?thesis by (auto simp: merged_def)
    qed
    moreover have "set (active s1) = insert ?m (set (active s) - ?T)"
      using joined(2) ab(1) by simp
    ultimately show ?thesis
      using inv call wf' unfolding ordered_inv_def by simp blast
  qed
qed

lemma ordered_inv_pop: "ordered_inv t s \<Longrightarrow> ordered_inv t (snd (pop_finalized now s))"
  unfolding ordered_inv_def using wf_pop_finalized [of s now] by (auto simp: pop_finalized_def)

fun detections :: "cl_event list \<Rightarrow> real list" where
  "detections [] = []"
| "detections (Ingest a # es) = seconds a # detections es"
| "detections (Check now # es) = detections es"

definition run_ordered :: "real \<Rightarrow> 'w cl_run \<Rightarrow> bool" where
  "run_ordered t x \<longleftrightarrow> ordered_inv t (open_state x) \<and> (\<forall>c \<in> set (snd x). span_ok c)"

lemma run_ordered_step:
  "run_ordered t x \<Longrightarrow> t \<le> seconds a \<Longrightarrow> run_ordered (seconds a) (cl_step neo (Ingest a) x)"
  "run_ordered t x \<Longrightarrow> run_ordered t (cl_step neo (Check now) x)"
proof -
  obtain s w popped where x: "x = ((s, w), popped)" by (metis prod.exhaust)
  show "run_ordered t x \<Longrightarrow> t \<le> seconds a \<Longrightarrow> run_ordered (seconds a) (cl_step neo (Ingest a) x)"
    using ordered_inv_add [of t s a neo w] by (simp add: x run_ordered_def open_state_def)
  assume "run_ordered t x"
  moreover from this have "\<forall>c \<in> set (active s). span_ok c"
    by (simp add: x run_ordered_def open_state_def ordered_inv_def)
  ultimately show "run_ordered t (cl_step neo (Check now) x)"
    using ordered_inv_pop [of t s now]
    by (auto simp: x run_ordered_def open_state_def case_prod_unfold Let_def pop_finalized_def)
qed

lemma run_ordered_fold:
  "run_ordered t x \<Longrightarrow> sorted (t # detections es) \<Longrightarrow>
     run_ordered (last (t # detections es)) (fold (cl_step neo) es x)"
proof (induction es arbitrary: t x)
  case (Cons e es)
  show ?case
  proof (cases e)
    case (Ingest a)
    with Cons.prems run_ordered_step(1) [of t x a neo]
    have "run_ordered (seconds a) (cl_step neo e x)" "sorted (seconds a # detections es)" by simp_all
    from Cons.IH [OF this] Ingest show ?thesis by simp
  next
    case (Check now)
    with Cons.prems run_ordered_step(2) [of t x neo now] Cons.IH [of t "cl_step neo e x"]
    show ?thesis by simp
  qed
qed simp

lemma run_ordered_init: "run_ordered t ((init_clusterer, w), [])"
  by (simp add: run_ordered_def open_state_def ordered_inv_def wf_clusterer_def init_clusterer_def)

lemma run_ordered_from_init:
  assumes "sorted (detections es)" and "detections es \<noteq> []"
  shows "run_ordered (last (detections es)) (fold (cl_step neo) es ((init_clusterer, w), []))"
proof -
  have "sorted (hd (detections es) # detections es)" using assms by (cases "detections es") auto
  from run_ordered_fold [OF run_ordered_init this, of neo w] assms(2) show ?thesis by simp
qed

text \<open>
  When anomalies arrive in the order of their detection, the anomalies of one cluster, open
  or finalised, are less than 90 s apart, however the clusters were merged.
\<close>

theorem cluster_span_bounded:
  assumes "sorted (detections es)"
    and "x = fold (cl_step neo) es ((init_clusterer, w), [])"
    and "c \<in> set (active (open_state x)) \<union> set (snd x)"
    and "a \<in> set (anomalies c)" and "b \<in> set (anomalies c)"
  shows "\<bar>seconds a - seconds b\<bar> < max_age_secs"
proof -
  have "run_wf x" unfolding assms(2) by (rule cl_run.run_inv [OF run_wf_init])
  with assms(3) have "wf_cluster c" by (auto simp: run_wf_def wf_clusterer_def)
  have "\<exists>t. run_ordered t x"
  proof (cases "detections es = []")
    case True
    then have "sorted (0 # detections es)" by simp
    from run_ordered_fold [OF run_ordered_init this, of neo w] show ?thesis unfolding assms(2) by blast
  next
    case False
    from run_ordered_from_init [OF assms(1) this, of neo w] show ?thesis unfolding assms(2) by blast
  qed
  with assms(3) have "span_ok c" by (auto simp: run_ordered_def ordered_inv_def)
  then have "last_updated c - created_at c < max_age_secs" by (simp add: span_ok_def)
  moreover have "created_at c \<le> seconds d \<and> seconds d \<le> last_updated c" if "d \<in> set (anomalies c)" for d
    using that \<open>span_ok c\<close> \<open>wf_cluster c\<close> by (simp add: span_ok_def wf_cluster_def)
  from this [OF assms(4)] this [OF assms(5)] calculation show ?thesis by linarith
qed

text \<open>
  When anomalies arrive in the order of their detection, no service is in two clusters
  that an anomaly arriving next could join, so which cluster owns a service is never ambiguous.
\<close>

theorem joinable_clusters_disjoint:
  assumes "sorted (detections es @ [now])"
    and "s = open_state (fold (cl_step neo) es ((init_clusterer, w), []))"
    and "c \<in> set (eligible_clusters now (active s))" and "d \<in> set (eligible_clusters now (active s))"
    and "c \<noteq> d"
  shows "set (service_ids c) \<inter> set (service_ids d) = {}"
proof -
  have "\<exists>t \<le> now. run_ordered t (fold (cl_step neo) es ((init_clusterer, w), []))"
  proof (cases "detections es = []")
    case True
    then have "sorted (now # detections es)" by simp
    from run_ordered_fold [OF run_ordered_init this, of neo w] True show ?thesis by auto
  next
    case False
    with assms(1) have "last (detections es) \<le> now" by (simp add: sorted_append)
    moreover from assms(1) have "sorted (detections es)" by (simp add: sorted_append)
    ultimately show ?thesis using run_ordered_from_init [OF _ False, of neo w] by blast
  qed
  then have "ordered_inv now s" by (auto simp: assms(2) run_ordered_def intro: ordered_inv_mono)
  then show ?thesis
    using assms(3-5) young_eligible [OF ordered_inv_wf] unfolding ordered_inv_def by blast
qed

subsection \<open>Concrete runs\<close>

definition ex_neo :: "unit neo" where
  "ex_neo sid w =
     (Inr (if sid = ''svc-a'' then [''svc-b''] else if sid = ''svc-b'' then [''svc-a''] else []), w)"

definition ex_anomaly :: "string \<Rightarrow> real \<Rightarrow> anomaly" where
  "ex_anomaly sid ms =
     \<lparr>service_id = sid, detected_at = ms, anomaly_type = Some ''CPU_SPIKE'', severity = Some 3,
      anomaly_id = None\<rparr>"

lemmas cl_eval = cl_step.simps add_anomaly_def connected_clusters_def eligible_clusters_def
  owner_keys_def owner_def related_def bfs.simps init_clusterer_def ex_neo_def ex_anomaly_def
  seconds_def new_cluster_def cluster_add_def open_state_def List.map_filter_def absorb_def
  window_seconds_def max_age_secs_def List.insert_def Let_def

definition ex_run :: "unit cl_run" where
  "ex_run = fold (cl_step ex_neo)
     [Ingest (ex_anomaly ''svc-a'' 1000), Ingest (ex_anomaly ''svc-b'' 61000)] ((init_clusterer, ()), [])"

lemma ex_run_active:
  "active (open_state ex_run) =
   [\<lparr>cid = 0, anomalies = [ex_anomaly ''svc-a'' 1000, ex_anomaly ''svc-b'' 61000],
     service_ids = [''svc-b'', ''svc-a''], created_at = 1, last_updated = 61\<rparr>]"
  by (simp add: ex_run_def cl_eval)

definition ex_topo :: "string \<Rightarrow> string set" where
  "ex_topo x = (if x = ''svc-a'' then {''svc-b''} else if x = ''svc-b'' then {''svc-a''} else {})"

theorem connected_clusters_component_witness:
  "set (map cid (active (open_state ex_run))) =
     {cid k | k x. x \<in> component ex_topo (\<Union>k \<in> set (active (open_state ex_run)). set (service_ids k)) ''svc-a'' \<and>
                   owner (active (open_state ex_run)) x = Some k}"
proof (rule connected_clusters_component)
  show "connected_clusters ex_neo ''svc-a'' (active (open_state ex_run)) (Map.empty, ()) =
      (Inr (active (open_state ex_run)),
       ([''svc-a'' \<mapsto> [''svc-b'', ''svc-a''], ''svc-b'' \<mapsto> [''svc-a'', ''svc-b'']], ()))"
    unfolding ex_run_active by (simp add: cl_eval)
qed (auto simp: static_topology_def cache_ok_def ex_neo_def ex_topo_def)

theorem window_never_decides_witness:
  "fst (pop_finalized 100 (open_state ex_run)) =
     filter (\<lambda>c. 100 - created_at c > max_age_secs) (active (open_state ex_run))"
  using window_never_decides [of ex_run, OF ex_run_def] by blast

theorem cluster_span_bounded_witness:
  "\<bar>seconds (ex_anomaly ''svc-a'' 1000) - seconds (ex_anomaly ''svc-b'' 61000)\<bar> < max_age_secs"
proof (rule cluster_span_bounded [OF _ ex_run_def])
  show "hd (active (open_state ex_run)) \<in> set (active (open_state ex_run)) \<union> set (snd ex_run)"
    by (simp add: ex_run_active)
qed (simp_all add: ex_run_active seconds_def ex_anomaly_def)

lemma ex_far_active:
  "active (open_state (fold (cl_step ex_neo)
      [Ingest (ex_anomaly ''svc-a'' 1000), Ingest (ex_anomaly ''svc-c'' 2000)] ((init_clusterer, ()), []))) =
     [new_cluster 0 (ex_anomaly ''svc-a'' 1000), new_cluster 1 (ex_anomaly ''svc-c'' 2000)]"
  by (simp add: cl_eval)

theorem joinable_clusters_disjoint_witness:
  "set (service_ids (new_cluster 0 (ex_anomaly ''svc-a'' 1000))) \<inter>
   set (service_ids (new_cluster 1 (ex_anomaly ''svc-c'' 2000))) = {}"
proof (rule joinable_clusters_disjoint [where now = 3 and neo = ex_neo and w = "()"
      and es = "[Ingest (ex_anomaly ''svc-a'' 1000), Ingest (ex_anomaly ''svc-c'' 2000)]", OF _ refl])
qed (unfold ex_far_active, simp_all add: eligible_clusters_def window_seconds_def max_age_secs_def
    seconds_def ex_anomaly_def new_cluster_def)

text \<open>
  An anomaly that arrives late joins a current cluster however old it is, and does not move
  the opening time: a cluster can hold anomalies detected 1000 s apart, and its first anomaly can
  be earlier than its opening. (The class comment promises 300 s.)
\<close>

theorem late_anomaly_spreads_cluster:
  "map (\<lambda>c. (anomalies c, created_at c))
     (active (open_state (fold (cl_step ex_neo)
        [Ingest (ex_anomaly ''svc-a'' 1000000), Ingest (ex_anomaly ''svc-b'' 0)] ((init_clusterer, ()), [])))) =
   [([ex_anomaly ''svc-a'' 1000000, ex_anomaly ''svc-b'' 0], 1000)]"
  by (simp add: cl_eval)

end
