(* ===== verification/Kafka_Json.thy ===== *)
theory Kafka_Json
  imports Py_Values
begin

section \<open>The shared Kafka clients\<close>

text \<open>
  \<open>common/kafka_json.py\<close> and \<open>common/kafka_consumer.py\<close>: the JSON producer whose waiting
  \<open>send\<close> must not mistake a lost message for a sent one, the JSON consumer that skips
  undecodable records, and the error log that both throttle. librdkafka is a parameter.
\<close>

subsection \<open>The throttled error log\<close>

text \<open>Lines are kept with the time at which they were printed.\<close>

record log_state =
  last_error_log :: real
  log_lines :: "(real \<times> string) list"

definition log_throttled :: "real \<Rightarrow> string \<Rightarrow> log_state \<Rightarrow> log_state" where
  "log_throttled now line s =
     (if now - last_error_log s > 30
      then s\<lparr>last_error_log := now, log_lines := log_lines s @ [(now, line)]\<rparr>
      else s)"

definition log_spaced :: "log_state \<Rightarrow> bool" where
  "log_spaced s \<longleftrightarrow>
     sorted_wrt (\<lambda>a b. fst b - fst a > 30) (log_lines s) \<and>
     (\<forall>l \<in> set (log_lines s). fst l \<le> last_error_log s)"

lemma log_throttled_spaced: "log_spaced s \<Longrightarrow> log_spaced (log_throttled now line s)"
  by (force simp: log_spaced_def log_throttled_def sorted_wrt_append)

interpretation log_run: step_system "\<lambda>(now, line). log_throttled now line" log_spaced
  by unfold_locales (auto simp: log_throttled_spaced)

definition init_log :: log_state where
  "init_log = \<lparr>last_error_log = 0, log_lines = []\<rparr>"

text \<open>
  However often errors are reported, and even if the clock goes back, two lines of the
  throttled log are always more than 30 s apart.
\<close>

theorem error_log_rate:
  "sorted_wrt (\<lambda>a b. fst b - fst a > 30)
     (log_lines (fold (\<lambda>(now, line). log_throttled now line) es init_log))"
proof -
  have "log_spaced init_log" by (simp add: log_spaced_def init_log_def)
  then show ?thesis using log_run.run_inv [of init_log es] by (simp add: log_spaced_def)
qed

subsection \<open>The producer\<close>

text \<open>
  \<open>produce\<close> hands a message to the local queue or raises (\<open>BufferError\<close> when it is full);
  \<open>serve\<close> is \<open>poll(timeout)\<close>, which runs the delivery callbacks: it returns the errors reported
  for the message in flight with the time at which each was; \<open>flush_queue\<close> is \<open>flush(10)\<close>, which
  also returns how many messages are left.
\<close>

record 'w producer_api =
  produce :: "string \<Rightarrow> string option \<Rightarrow> pydict \<Rightarrow> ('w, unit) prog"
  serve :: "real \<Rightarrow> 'w \<Rightarrow> (real \<times> string) list \<times> 'w"
  flush_queue :: "'w \<Rightarrow> ((real \<times> string) list \<times> nat) \<times> 'w"

record 'w producer =
  producer_log :: log_state
  broker :: 'w

text \<open>\<open>on_delivery\<close>: every reported error is logged.\<close>

definition log_failures :: "string \<Rightarrow> (real \<times> string) list \<Rightarrow> log_state \<Rightarrow> log_state" where
  "log_failures topic errs =
     fold (\<lambda>(now, e). log_throttled now (''delivery to '' @ topic @ '' failed: '' @ e)) errs"

definition enqueue ::
  "'w producer_api \<Rightarrow> string \<Rightarrow> string option \<Rightarrow> pydict \<Rightarrow> ('w, unit) prog" where
  "enqueue api topic k v w =
     (case produce api topic k v w of
        (Inl e, w1) \<Rightarrow>
          if e = BufferError then produce api topic k v (snd (serve api (1 / 2) w1)) else (Inl e, w1)
      | (Inr u, w1) \<Rightarrow> (Inr u, w1))"

definition json_send ::
  "string \<Rightarrow> 'w producer_api \<Rightarrow> string \<Rightarrow> string option \<Rightarrow> pydict \<Rightarrow> bool \<Rightarrow> ('w producer, unit) prog" where
  "json_send name api topic k v wait s =
     (case enqueue api topic k v (broker s) of
        (Inl e, w1) \<Rightarrow> (Inl e, s\<lparr>broker := w1\<rparr>)
      | (Inr _, w1) \<Rightarrow>
          let (errs, w2) = serve api 0 w1;
              s2 = s\<lparr>broker := w2, producer_log := log_failures topic errs (producer_log s)\<rparr>
          in if \<not> wait then (Inr (), s2)
             else let ((more, remaining), w3) = flush_queue api w2;
                      s3 = s2\<lparr>broker := w3, producer_log := log_failures topic more (producer_log s2)\<rparr>
                  in if errs @ more \<noteq> []
                     then (Inl (RuntimeError (name @ '': delivery to '' @ topic @ '' failed: '' @
                             snd (hd (errs @ more)))), s3)
                     else if remaining \<noteq> 0
                     then (Inl (RuntimeError (name @ '': '' @ nat_str remaining @ '' message(s) to '' @
                             topic @ '' not acknowledged within 10s'')), s3)
                     else (Inr (), s3))"

text \<open>
  What librdkafka documents: a queued message for which no delivery error was reported until a
  \<open>flush\<close> left nothing in the queue is stored by the broker.
\<close>

definition broker_law ::
  "'w producer_api \<Rightarrow> ('w \<Rightarrow> (string \<times> string option \<times> pydict) set) \<Rightarrow> bool" where
  "broker_law api stored \<longleftrightarrow>
     (\<forall>topic k v w w1 w2 w3. produce api topic k v w = (Inr (), w1) \<longrightarrow> serve api 0 w1 = ([], w2) \<longrightarrow>
        flush_queue api w2 = (([], 0), w3) \<longrightarrow> (topic, k, v) \<in> stored w3)"

lemma enqueue_produced:
  "enqueue api topic k v w = (Inr (), w1) \<Longrightarrow> \<exists>w0. produce api topic k v w0 = (Inr (), w1)"
  by (auto simp: enqueue_def split: prod.splits sum.splits if_splits)

lemma json_send_stored:
  assumes "broker_law api stored" and "json_send name api topic k v True s = (Inr (), s1)"
  shows "(topic, k, v) \<in> stored (broker s1)"
proof -
  from assms(2) obtain w1 w2 w3 where "enqueue api topic k v (broker s) = (Inr (), w1)"
    and rest: "serve api 0 w1 = ([], w2)" "flush_queue api w2 = (([], 0), w3)" "broker s1 = w3"
    by (auto simp: json_send_def Let_def split: prod.splits sum.splits if_splits)
  from enqueue_produced [OF this(1)] obtain w0 where "produce api topic k v w0 = (Inr (), w1)" by blast
  with assms(1) rest show ?thesis unfolding broker_law_def by blast
qed

text \<open>
  A waiting \<open>send\<close> that returns has its message stored by the broker: a full queue, a delivery
  error and a message that was not acknowledged in time all raise.
\<close>

theorem waiting_send_is_stored:
  assumes "broker_law api stored" and "json_send name api topic k v True s = (Inr (), s1)"
  shows "(topic, k, v) \<in> stored (broker s1)"
  using assms by (rule json_send_stored)

subsection \<open>The consumer\<close>

text \<open>
  What \<open>Consumer.poll\<close> of the library returns; a record has its topic, partition, offset, key
  and payload. The payload is \<open>None\<close> for a tombstone; \<open>loads\<close>
  is \<open>json.loads\<close> of the UTF-8 text, which raises \<open>ValueError\<close> on anything else.
\<close>

datatype 'b polled =
    NoMessage
  | ErrorMessage bool string
  | Payload string nat nat "string option" "'b option"

record consumed_record =
  rec_topic :: string
  rec_key :: "string option"
  rec_value :: pyval

definition decode_payload :: "('b \<Rightarrow> exn + pyval) \<Rightarrow> 'b option \<Rightarrow> exn + pyval" where
  "decode_payload loads v = (case v of None \<Rightarrow> Inl AttributeError | Some b \<Rightarrow> loads b)"

definition json_poll ::
  "('b \<Rightarrow> exn + pyval) \<Rightarrow> real \<Rightarrow> 'b polled \<Rightarrow> (log_state, consumed_record option) prog" where
  "json_poll loads now msg s =
     (case msg of
        NoMessage \<Rightarrow> (Inr None, s)
      | ErrorMessage fatal e \<Rightarrow>
          if fatal then (Inl (ExternalError ''KafkaException''), s)
          else (Inr None, log_throttled now (''consumer error: '' @ e) s)
      | Payload topic part off k v \<Rightarrow>
          (case decode_payload loads v of
             Inl e \<Rightarrow>
               if e \<in> {AttributeError, ValueError}
               then (Inr None, log_throttled now (''skipping an undecodable record from '' @ topic @
                       ''['' @ nat_str part @ '']@'' @ nat_str off) s)
               else (Inl e, s)
           | Inr x \<Rightarrow> (Inr (Some \<lparr>rec_topic = topic, rec_key = k, rec_value = x\<rparr>), s)))"

text \<open>
  One bad payload cannot kill a consumer loop: \<open>poll\<close> raises on a fatal consumer error
  only, and returns a record exactly for a payload that is valid JSON, with its topic, its key and
  the decoded value.
\<close>

theorem poll_skips_bad_payloads:
  assumes "\<And>b e. loads b = Inl e \<Longrightarrow> e = ValueError"
  shows "(fst (json_poll loads now msg s) = Inl x \<longleftrightarrow>
            (\<exists>e. msg = ErrorMessage True e) \<and> x = ExternalError ''KafkaException'') \<and>
         (fst (json_poll loads now msg s) = Inr (Some r) \<longleftrightarrow>
            (\<exists>part off b. msg = Payload (rec_topic r) part off (rec_key r) (Some b) \<and> loads b = Inr (rec_value r)))"
  using assms
  by (cases r) (force simp: json_poll_def decode_payload_def split: polled.splits option.splits sum.splits)

subsection \<open>Concrete clients\<close>

definition ex_producer :: "(string \<times> string option \<times> pydict) list producer_api" where
  "ex_producer =
     \<lparr>produce = (\<lambda>t k v w. (Inr (), (t, k, v) # w)), serve = (\<lambda>_ w. ([], w)),
      flush_queue = (\<lambda>w. (([], 0), w))\<rparr>"

lemma ex_producer_law: "broker_law ex_producer set"
  by (simp add: broker_law_def ex_producer_def)

theorem waiting_send_is_stored_witness:
  "(''incident-alerts'', None, []) \<in>
     set (broker (snd (json_send ''p'' ex_producer ''incident-alerts'' None [] True
       \<lparr>producer_log = init_log, broker = []\<rparr>)))"
  by (rule waiting_send_is_stored [OF ex_producer_law, of "''p''" _ _ _ "\<lparr>producer_log = init_log, broker = []\<rparr>"])
    (simp add: json_send_def enqueue_def ex_producer_def log_failures_def)

definition ex_loads :: "string \<Rightarrow> exn + pyval" where
  "ex_loads b = (if b = ''null'' then Inr PNone else Inl ValueError)"

theorem poll_skips_bad_payloads_witness:
  "fst (json_poll ex_loads 0 (Payload ''t'' 0 7 None (Some ''{'')) init_log) \<noteq> Inl ValueError"
proof -
  have law: "e = ValueError" if "ex_loads b = Inl e" for b e
    using that by (simp add: ex_loads_def split: if_splits)
  show ?thesis
    using poll_skips_bad_payloads [where loads = ex_loads and x = ValueError, OF law] by simp
qed

end
