(* ===== verification/Granger.thy ===== *)
theory Granger
  imports Clusterer "HOL-Library.AList"
begin

section \<open>Root cause by Granger causality\<close>

text \<open>
  \<open>correlation/causality/granger_engine.py\<close>: the latest anomaly of each service picks a metric, its
  history is averaged per minute, every ordered pair of services is tested, and the edges
  found decide the root cause. The database query and statsmodels' test are parameters; the
  test answers with the p-value of each lag or raises.
\<close>

subsection \<open>Series\<close>

record 'w granger_api =
  query_rows :: "string \<Rightarrow> string \<Rightarrow> ('w, (real \<times> real) list) prog"
  granger_test :: "(real \<times> real) list \<Rightarrow> exn + (nat \<times> real) list"

text \<open>\<open>GRANGER_MIN_POINTS\<close>, \<open>GRANGER_PVALUE_THRESHOLD\<close> and \<open>ANOMALY_TYPE_TO_METRIC\<close>.\<close>

definition granger_min_points :: nat where
  "granger_min_points = 15"

definition granger_pvalue_threshold :: real where
  "granger_pvalue_threshold = 5 / 100"

definition anomaly_type_to_metric :: "(string \<times> string) list" where
  "anomaly_type_to_metric =
     [(''CPU_SPIKE'', ''cpu_percent''), (''LATENCY_BURST'', ''latency_p99''),
      (''ERROR_RATE_SPIKE'', ''error_rate''), (''REQUEST_DROP'', ''request_rate'')]"

definition metric_for :: "string option \<Rightarrow> string" where
  "metric_for ty =
     (case Option.bind ty (map_of anomaly_type_to_metric) of None \<Rightarrow> ''cpu_percent'' | Some m \<Rightarrow> m)"

text \<open>A series: the minutes in ascending order, each with the mean of its values.\<close>

type_synonym series = "(int \<times> real) list"

definition minute_of :: "real \<Rightarrow> int" where
  "minute_of t = round_half_even (t / 60)"

definition minute_series :: "(real \<times> real) list \<Rightarrow> series" where
  "minute_series rows =
     map (\<lambda>m. (m, mean (map snd (filter (\<lambda>r. minute_of (fst r) = m) rows))))
       (sort (remdups (map (\<lambda>r. minute_of (fst r)) rows)))"

definition fetch_series :: "'w granger_api \<Rightarrow> string \<Rightarrow> string \<Rightarrow> ('w, series) prog" where
  "fetch_series api sid metric w =
     (case query_rows api sid metric w of
        (Inl e, w1) \<Rightarrow> (Inl e, w1)
      | (Inr rows, w1) \<Rightarrow> (Inr (if rows = [] then [] else minute_series rows), w1))"

text \<open>\<open>pd.concat([effect, cause], axis=1, join='inner')\<close>: the minutes both series have.\<close>

definition inner_join :: "series \<Rightarrow> series \<Rightarrow> (real \<times> real) list" where
  "inner_join xs ys =
     List.map_filter (\<lambda>(m, x). map_option (\<lambda>y. (x, y)) (map_of ys m)) xs"

subsection \<open>Edges\<close>

text \<open>\<open>latest_by_service\<close>: services in the order of their first anomaly.\<close>

definition note_latest :: "anomaly \<Rightarrow> (string \<times> anomaly) list \<Rightarrow> (string \<times> anomaly) list" where
  "note_latest a d =
     (case map_of d (service_id a) of
        None \<Rightarrow> AList.update (service_id a) a d
      | Some b \<Rightarrow> if detected_at b < detected_at a then AList.update (service_id a) a d else d)"

definition latest_by_service :: "anomaly list \<Rightarrow> (string \<times> anomaly) list" where
  "latest_by_service as = fold note_latest as []"

fun collect_series ::
  "'w granger_api \<Rightarrow> (string \<times> anomaly) list \<Rightarrow> ('w, (string \<times> series) list) prog" where
  "collect_series api [] w = (Inr [], w)"
| "collect_series api ((sid, a) # rest) w =
     (case fetch_series api sid (metric_for (anomaly_type a)) w of
        (Inl e, w1) \<Rightarrow> (Inl e, w1)
      | (Inr s, w1) \<Rightarrow>
          (case collect_series api rest w1 of
             (Inl e, w2) \<Rightarrow> (Inl e, w2)
           | (Inr ss, w2) \<Rightarrow>
               (Inr (if granger_min_points \<le> length s then (sid, s) # ss else ss), w2)))"

text \<open>
  Does the first series help to predict the second? Too little common history and a test that
  raises count as no; the minimum over no lags at all raises, outside the \<open>try\<close>.
\<close>

definition causes :: "'w granger_api \<Rightarrow> series \<Rightarrow> series \<Rightarrow> exn + bool" where
  "causes api a b =
     (let joined = inner_join b a
      in if length joined < granger_min_points then Inr False
         else case granger_test api joined of
                Inl e \<Rightarrow> Inr False
              | Inr lags \<Rightarrow> rbind (py_min_key snd lags) (\<lambda>l. Inr (snd l < granger_pvalue_threshold)))"

definition service_pairs :: "(string \<times> series) list \<Rightarrow> ((string \<times> series) \<times> (string \<times> series)) list" where
  "service_pairs ss = filter (\<lambda>(a, b). fst a \<noteq> fst b) (List.product ss ss)"

fun find_edges ::
  "'w granger_api \<Rightarrow> ((string \<times> series) \<times> (string \<times> series)) list \<Rightarrow> exn + (string \<times> string) list" where
  "find_edges api [] = Inr []"
| "find_edges api ((a, b) # ps) =
     rbind (causes api (snd a) (snd b)) (\<lambda>c.
     rbind (find_edges api ps) (\<lambda>es. Inr (if c then (fst a, fst b) # es else es)))"

subsection \<open>The root cause\<close>

record root_cause_result =
  root_cause :: string
  causality_method :: string
  causal_edges :: "(string \<times> string) list"

definition out_degree :: "(string \<times> string) list \<Rightarrow> string \<Rightarrow> nat" where
  "out_degree edges sid = length (filter (\<lambda>e. fst e = sid) edges)"

definition in_degree :: "(string \<times> string) list \<Rightarrow> string \<Rightarrow> nat" where
  "in_degree edges sid = length (filter (\<lambda>e. snd e = sid) edges)"

definition decide_root ::
  "anomaly list \<Rightarrow> string list \<Rightarrow> (string \<times> string) list \<Rightarrow> exn + root_cause_result" where
  "decide_root as sids edges =
     (if edges = []
      then rbind (py_min_key detected_at as) (\<lambda>a.
             Inr \<lparr>root_cause = service_id a, causality_method = ''fallback_earliest'', causal_edges = []\<rparr>)
      else let sources = filter (\<lambda>s. in_degree edges s = 0) sids;
               candidates = (if sources \<noteq> [] then sources else sids)
           in rbind (py_max_key (out_degree edges) candidates) (\<lambda>s.
                Inr \<lparr>root_cause = s, causality_method = ''granger'', causal_edges = edges\<rparr>))"

definition find_root_cause :: "'w granger_api \<Rightarrow> cluster \<Rightarrow> ('w, root_cause_result) prog" where
  "find_root_cause api c w =
     (case collect_series api (latest_by_service (anomalies c)) w of
        (Inl e, w1) \<Rightarrow> (Inl e, w1)
      | (Inr ss, w1) \<Rightarrow>
          (rbind (find_edges api (service_pairs ss)) (decide_root (anomalies c) (map fst ss)), w1))"

subsection \<open>The latest anomaly of each service\<close>

lemma note_latest_keys:
  "distinct (map fst d) \<Longrightarrow> distinct (map fst (note_latest a d)) \<and>
     fst ` set (note_latest a d) = insert (service_id a) (fst ` set d)"
  by (cases "map_of d (service_id a)")
    (auto simp: note_latest_def distinct_update dom_update dest!: map_of_SomeD intro: image_eqI [rotated])

lemma latest_keys:
  "distinct (map fst (latest_by_service as)) \<and> fst ` set (latest_by_service as) = service_id ` set as"
proof -
  have "distinct (map fst d) \<Longrightarrow> distinct (map fst (fold note_latest as d)) \<and>
      fst ` set (fold note_latest as d) = fst ` set d \<union> service_id ` set as" for d
    by (induction as arbitrary: d) (use note_latest_keys in auto)
  from this [of "[]"] show ?thesis by (simp add: latest_by_service_def)
qed

lemma note_latest_lookup:
  "map_of (note_latest a d) k =
     (if k = service_id a \<and> (\<forall>b. map_of d k = Some b \<longrightarrow> detected_at b < detected_at a)
      then Some a else map_of d k)"
  by (auto simp: note_latest_def update_conv' split: option.splits)

lemma collect_series_keys:
  "collect_series api ls w = (Inr ss, w1) \<Longrightarrow>
     set (map fst ss) \<subseteq> set (map fst ls) \<and> (\<forall>s \<in> set ss. granger_min_points \<le> length (snd s))"
proof (induction api ls w arbitrary: ss w1 rule: collect_series.induct)
  case (2 api sid a rest w)
  from "2.prems" obtain s w2 ss' where
    fetch: "fetch_series api sid (metric_for (anomaly_type a)) w = (Inr s, w2)" and
    coll: "collect_series api rest w2 = (Inr ss', w1)" and
    ss: "ss = (if granger_min_points \<le> length s then (sid, s) # ss' else ss')"
    by (auto split: prod.splits sum.splits)
  from "2.IH" [OF fetch [symmetric] refl coll] show ?case unfolding ss by auto
qed simp

lemma find_edges_sound:
  "find_edges api ps = Inr es \<Longrightarrow> e \<in> set es \<Longrightarrow>
     \<exists>a b. (a, b) \<in> set ps \<and> e = (fst a, fst b) \<and> causes api (snd a) (snd b) = Inr True"
proof (induction api ps arbitrary: es rule: find_edges.induct)
  case (2 api a b ps)
  from "2.prems"(1) obtain k es' where k: "causes api (snd a) (snd b) = Inr k"
    "find_edges api ps = Inr es'" "es = (if k then (fst a, fst b) # es' else es')"
    by (auto simp: rbind_def split: sum.splits)
  show ?case
  proof (cases "e \<in> set es'")
    case True
    with "2.IH" k obtain a' b' where "(a', b') \<in> set ps" "e = (fst a', fst b')"
      "causes api (snd a') (snd b') = Inr True" by blast
    then show ?thesis by (intro exI [of _ a'] exI [of _ b']) simp
  next
    case False
    with "2.prems"(2) k have "k" "e = (fst a, fst b)" by (auto split: if_splits)
    with k(1) show ?thesis by (intro exI [of _ a] exI [of _ b]) simp
  qed
qed simp

lemma edges_between_tested:
  assumes "find_edges api (service_pairs ss) = Inr es" and "e \<in> set es"
  shows "fst e \<in> set (map fst ss) \<and> snd e \<in> set (map fst ss) \<and> fst e \<noteq> snd e"
  using find_edges_sound [OF assms] by (force simp: service_pairs_def)

lemma ballI2: "(\<And>a b. (a, b) \<in> S \<Longrightarrow> P a b) \<Longrightarrow> \<forall>(a, b) \<in> S. P a b"
  by blast

text \<open>What a successful call computed.\<close>

lemma find_root_cause_elim:
  assumes "find_root_cause api c w = (Inr r, w1)"
  obtains ss es where "collect_series api (latest_by_service (anomalies c)) w = (Inr ss, w1)"
    and "find_edges api (service_pairs ss) = Inr es"
    and "decide_root (anomalies c) (map fst ss) es = Inr r"
    and "set (map fst ss) \<subseteq> service_id ` set (anomalies c)"
proof -
  from assms obtain ss es where *: "collect_series api (latest_by_service (anomalies c)) w = (Inr ss, w1)"
    "find_edges api (service_pairs ss) = Inr es" "decide_root (anomalies c) (map fst ss) es = Inr r"
    by (auto simp: find_root_cause_def rbind_def split: prod.splits sum.splits)
  have "set (map fst ss) \<subseteq> set (map fst (latest_by_service (anomalies c)))"
    using collect_series_keys [OF *(1)] by blast
  also have "\<dots> = service_id ` set (anomalies c)" using latest_keys by simp
  finally show ?thesis using * that by blast
qed

lemma decide_root_cases:
  assumes "decide_root as sids es = Inr r"
  shows "causal_edges r = es"
    and "es = [] \<Longrightarrow> causality_method r = ''fallback_earliest'' \<and>
           (\<exists>a \<in> set as. root_cause r = service_id a \<and> (\<forall>b \<in> set as. detected_at a \<le> detected_at b))"
    and "es \<noteq> [] \<Longrightarrow> causality_method r = ''granger'' \<and> root_cause r \<in> set sids"
    and "es \<noteq> [] \<Longrightarrow> s \<in> set sids \<Longrightarrow> in_degree es s = 0 \<Longrightarrow>
           in_degree es (root_cause r) = 0 \<and> out_degree es s \<le> out_degree es (root_cause r)"
proof -
  show "causal_edges r = es"
    using assms by (auto simp: decide_root_def rbind_def Let_def split: sum.splits if_splits)
  show "causality_method r = ''fallback_earliest'' \<and>
      (\<exists>a \<in> set as. root_cause r = service_id a \<and> (\<forall>b \<in> set as. detected_at a \<le> detected_at b))"
    if "es = []"
  proof -
    from assms that obtain a where "py_min_key detected_at as = Inr a"
      "root_cause r = service_id a" "causality_method r = ''fallback_earliest''"
      by (auto simp: decide_root_def rbind_def split: sum.splits)
    with py_min_key_Inr [of detected_at as a] show ?thesis by blast
  qed
  let ?sources = "filter (\<lambda>s. in_degree es s = 0) sids"
  have max: "py_max_key (out_degree es) (if ?sources \<noteq> [] then ?sources else sids) = Inr (root_cause r)"
    and how: "causality_method r = ''granger''" if "es \<noteq> []"
    using assms that by (auto simp: decide_root_def rbind_def Let_def split: sum.splits if_splits)
  show "causality_method r = ''granger'' \<and> root_cause r \<in> set sids" if "es \<noteq> []"
    using py_max_key_Inr(1) [OF max [OF that]] how [OF that] by (auto split: if_splits)
  show "in_degree es (root_cause r) = 0 \<and> out_degree es s \<le> out_degree es (root_cause r)"
    if "es \<noteq> []" "s \<in> set sids" "in_degree es s = 0"
  proof -
    from that(2,3) have "?sources \<noteq> []" by (auto simp: filter_empty_conv)
    with max [OF that(1)] have "py_max_key (out_degree es) ?sources = Inr (root_cause r)" by simp
    from py_max_key_Inr [OF this] that(2,3) show ?thesis by auto
  qed
qed

text \<open>
  A root cause is always a service of the cluster. It comes from Granger causality exactly when
  there are causal edges, all of them between different services of the cluster; a service that
  causes others and is caused by none then never loses to a service that is caused by another or
  causes fewer. Without edges it is the service of an earliest anomaly.
\<close>

theorem root_cause_sound:
  assumes "find_root_cause api c w = (Inr r, w1)"
  shows "root_cause r \<in> service_id ` set (anomalies c) \<and>
         causality_method r = (if causal_edges r = [] then ''fallback_earliest'' else ''granger'') \<and>
         (\<forall>(a, b) \<in> set (causal_edges r). {a, b} \<subseteq> service_id ` set (anomalies c) \<and> a \<noteq> b) \<and>
         (causal_edges r = [] \<longrightarrow>
            (\<exists>a \<in> set (anomalies c). root_cause r = service_id a \<and>
               (\<forall>b \<in> set (anomalies c). detected_at a \<le> detected_at b))) \<and>
         (\<forall>(s, b) \<in> set (causal_edges r). in_degree (causal_edges r) s = 0 \<longrightarrow>
            in_degree (causal_edges r) (root_cause r) = 0 \<and>
            out_degree (causal_edges r) s \<le> out_degree (causal_edges r) (root_cause r))"
proof -
  from assms obtain ss es where es: "find_edges api (service_pairs ss) = Inr es"
    and dec: "decide_root (anomalies c) (map fst ss) es = Inr r"
    and sub: "set (map fst ss) \<subseteq> service_id ` set (anomalies c)" by (rule find_root_cause_elim)
  note d = decide_root_cases [OF dec]
  have edges: "fst e \<in> set (map fst ss) \<and> snd e \<in> set (map fst ss) \<and> fst e \<noteq> snd e" if "e \<in> set es" for e
    by (rule edges_between_tested [OF es that])
  have "root_cause r \<in> service_id ` set (anomalies c)"
    using d(2,3) sub by (cases "es = []") auto
  moreover have "\<forall>(s, b) \<in> set es. in_degree es s = 0 \<longrightarrow>
      in_degree es (root_cause r) = 0 \<and> out_degree es s \<le> out_degree es (root_cause r)"
  proof (intro ballI2 impI)
    fix s b
    assume e: "(s, b) \<in> set es" and "in_degree es s = 0"
    then show "in_degree es (root_cause r) = 0 \<and> out_degree es s \<le> out_degree es (root_cause r)"
      using d(4) [of s] edges [OF e] by (metis empty_iff empty_set fst_conv)
  qed
  moreover have "\<forall>(a, b) \<in> set es. {a, b} \<subseteq> service_id ` set (anomalies c) \<and> a \<noteq> b"
  proof (intro ballI2)
    fix a b
    assume "(a, b) \<in> set es"
    from edges [OF this] sub show "{a, b} \<subseteq> service_id ` set (anomalies c) \<and> a \<noteq> b" by auto
  qed
  moreover have "causality_method r = (if es = [] then ''fallback_earliest'' else ''granger'')"
    using d(2,3) by simp
  moreover have "es = [] \<longrightarrow> (\<exists>a \<in> set (anomalies c). root_cause r = service_id a \<and>
      (\<forall>b \<in> set (anomalies c). detected_at a \<le> detected_at b))"
    using d(2) by blast
  ultimately show ?thesis unfolding d(1) by (intro conjI)
qed

lemma collect_series_total:
  assumes "\<And>sid m w. \<exists>rows w1. query_rows api sid m w = (Inr rows, w1)"
  shows "\<exists>ss w1. collect_series api ls w = (Inr ss, w1)"
proof (induction ls arbitrary: w)
  case (Cons l ls)
  obtain sid a where l: "l = (sid, a)" by fastforce
  from assms [of sid "metric_for (anomaly_type a)" w] obtain rows w1
    where "query_rows api sid (metric_for (anomaly_type a)) w = (Inr rows, w1)" by blast
  with Cons [of w1] show ?case by (auto simp: l fetch_series_def split: if_splits)
qed simp

lemma find_edges_total:
  assumes "\<And>xs lags. granger_test api xs = Inr lags \<Longrightarrow> lags \<noteq> []"
  shows "\<exists>es. find_edges api ps = Inr es"
proof (induction ps)
  case (Cons p ps)
  have c: "\<exists>b. causes api x y = Inr b" for x y
  proof (cases "granger_test api (inner_join y x)")
    case (Inr lags)
    from py_key_nonempty(2) [OF assms [OF this], of snd] obtain l where "py_min_key snd lags = Inr l"
      by blast
    with Inr have "causes api x y =
        Inr (granger_min_points \<le> length (inner_join y x) \<and> snd l < granger_pvalue_threshold)"
      by (simp add: causes_def Let_def)
    then show ?thesis by blast
  next
    case (Inl e)
    then have "causes api x y = Inr False" by (simp add: causes_def Let_def)
    then show ?thesis by blast
  qed
  moreover obtain a b where "p = (a, b)" by (cases p)
  moreover obtain k where "causes api (snd a) (snd b) = Inr k" using c by blast
  ultimately show ?case using Cons by auto
qed simp

lemma decide_root_total: "as \<noteq> [] \<Longrightarrow> set (map fst es) \<subseteq> set sids \<Longrightarrow> \<exists>r. decide_root as sids es = Inr r"
proof -
  assume "as \<noteq> []" and sub: "set (map fst es) \<subseteq> set sids"
  then obtain a where a: "py_min_key detected_at as = Inr a" using py_key_nonempty(2) by blast
  show ?thesis
  proof (cases "es = []")
    case True
    with a show ?thesis by (simp add: decide_root_def)
  next
    case False
    with sub have "sids \<noteq> []" by auto
    then have "(if filter (\<lambda>s. in_degree es s = 0) sids \<noteq> [] then filter (\<lambda>s. in_degree es s = 0) sids
               else sids) \<noteq> []" by simp
    from py_key_nonempty(1) [OF this, of "out_degree es"] obtain s where
      "py_max_key (out_degree es) (if filter (\<lambda>s. in_degree es s = 0) sids \<noteq> []
         then filter (\<lambda>s. in_degree es s = 0) sids else sids) = Inr s" by blast
    with False show ?thesis unfolding decide_root_def Let_def by (metis rbind_simps(2))
  qed
qed

text \<open>
  C40. As long as the metrics database answers, every non-empty cluster gets a root cause: too
  short histories and tests that raise never make the analysis fail.
\<close>

theorem root_cause_total:
  assumes "\<And>sid m w. \<exists>rows w1. query_rows api sid m w = (Inr rows, w1)"
    and "\<And>xs lags. granger_test api xs = Inr lags \<Longrightarrow> lags \<noteq> []"
    and "anomalies c \<noteq> []"
  shows "\<exists>r w1. find_root_cause api c w = (Inr r, w1)"
proof -
  obtain ss w1 where ss: "collect_series api (latest_by_service (anomalies c)) w = (Inr ss, w1)"
    using collect_series_total [OF assms(1)] by blast
  moreover obtain es where es: "find_edges api (service_pairs ss) = Inr es"
    using find_edges_total [of api "service_pairs ss"] assms(2) by blast
  moreover have "set (map fst es) \<subseteq> set (map fst ss)" using edges_between_tested [OF es] by auto
  from decide_root_total [OF assms(3) this] obtain r
    where "decide_root (anomalies c) (map fst ss) es = Inr r" by blast
  ultimately show ?thesis by (simp add: find_root_cause_def)
qed

subsection \<open>Concrete clusters\<close>

text \<open>A database that has no history yet, and the clusters of the example run.\<close>

definition ex_granger :: "unit granger_api" where
  "ex_granger = \<lparr>query_rows = (\<lambda>sid m w. (Inr [], w)), granger_test = (\<lambda>xs. Inr [(1, 1 / 100)])\<rparr>"

definition ex_cluster :: cluster where
  "ex_cluster =
     \<lparr>cid = 0, anomalies = [ex_anomaly ''svc-b'' 61000, ex_anomaly ''svc-a'' 1000],
      service_ids = [''svc-b'', ''svc-a''], created_at = 1, last_updated = 61\<rparr>"

lemma ex_find_root_cause:
  "find_root_cause ex_granger ex_cluster () =
     (Inr \<lparr>root_cause = ''svc-a'', causality_method = ''fallback_earliest'', causal_edges = []\<rparr>, ())"
  by (simp add: find_root_cause_def latest_by_service_def note_latest_def ex_cluster_def ex_anomaly_def
      fetch_series_def ex_granger_def granger_min_points_def service_pairs_def decide_root_def py_min_key_def)

theorem root_cause_sound_witness:
  "''svc-a'' \<in> service_id ` set (anomalies ex_cluster)"
  using root_cause_sound [OF ex_find_root_cause] by simp

theorem root_cause_total_witness: "\<exists>r w1. find_root_cause ex_granger ex_cluster () = (Inr r, w1)"
  by (rule root_cause_total) (simp_all add: ex_granger_def ex_cluster_def)

text \<open>
  When every service with causal edges is also caused by another one, a service that has no
  edge at all is preferred: with edges a \<open>\<rightarrow>\<close> b and b \<open>\<rightarrow>\<close> a only, the unrelated service c becomes
  the "granger" root cause.
\<close>

theorem isolated_service_blamed:
  "decide_root as [''svc-a'', ''svc-b'', ''svc-c''] [(''svc-a'', ''svc-b''), (''svc-b'', ''svc-a'')] =
     Inr \<lparr>root_cause = ''svc-c'', causality_method = ''granger'',
          causal_edges = [(''svc-a'', ''svc-b''), (''svc-b'', ''svc-a'')]\<rparr>"
  by (simp add: decide_root_def in_degree_def py_max_key_def)

end
