(* ===== verification/Correlation.thy ===== *)
theory Correlation
  imports Granger Kafka_Json "HOL-Library.List_Lexorder" "HOL-Library.Char_ord"
begin

section \<open>The correlation engine\<close>

text \<open>
  \<open>correlation/main.py\<close> with \<open>storage/timescaledb_client.py\<close> and
  \<open>publisher/incident_publisher.py\<close>: anomalies are clustered, finalised clusters are root-caused,
  saved in one transaction and published, and a cluster that fails is counted and dropped without
  stopping the others. The database connection is a parameter with its transaction.
\<close>

subsection \<open>Saving an incident\<close>

record incident_row =
  row_id :: string
  row_opened :: real
  row_closed :: real
  row_root :: string
  row_members :: "string list"
  row_count :: nat
  row_severity :: int
  row_method :: string

record 'w store_api =
  new_uuid :: "'w \<Rightarrow> string \<times> 'w"
  insert_incident :: "incident_row \<Rightarrow> ('w, unit) prog"
  link_anomalies :: "string \<Rightarrow> string list \<Rightarrow> ('w, unit) prog"
  db_commit :: "('w, unit) prog"
  db_rollback :: "('w, unit) prog"

text \<open>\<open>a.get("severity") or 1\<close>, and the maximum over the cluster.\<close>

definition severity_or_1 :: "anomaly \<Rightarrow> int" where
  "severity_or_1 a = (case severity a of None \<Rightarrow> 1 | Some n \<Rightarrow> if n = 0 then 1 else n)"

definition cluster_severity :: "cluster \<Rightarrow> exn + int" where
  "cluster_severity c = py_max_key (\<lambda>x. x) (map severity_or_1 (anomalies c))"

text \<open>\<open>[a["id"] for a in cluster.anomalies if a.get("id")]\<close>.\<close>

definition anomaly_ids :: "cluster \<Rightarrow> string list" where
  "anomaly_ids c = List.map_filter (\<lambda>a. if anomaly_id a = Some [] then None else anomaly_id a) (anomalies c)"

definition link_members :: "'w store_api \<Rightarrow> string \<Rightarrow> cluster \<Rightarrow> ('w, unit) prog" where
  "link_members st iid c =
     (if anomaly_ids c \<noteq> [] then link_anomalies st iid (anomaly_ids c) else ret ())"

definition save_incident_body ::
  "'w store_api \<Rightarrow> cluster \<Rightarrow> root_cause_result \<Rightarrow> ('w, string) prog" where
  "save_incident_body st c r w =
     (let (iid, w1) = new_uuid st w in
      case cluster_severity c of
        Inl e \<Rightarrow> (Inl e, w1)
      | Inr sev \<Rightarrow>
          bnd (insert_incident st
                 \<lparr>row_id = iid, row_opened = created_at c, row_closed = last_updated c,
                  row_root = root_cause r, row_members = sort (service_ids c),
                  row_count = length (anomalies c), row_severity = sev,
                  row_method = causality_method r\<rparr>) (\<lambda>_.
          bnd (link_members st iid c) (\<lambda>_.
          bnd (db_commit st) (\<lambda>_. ret iid))) w1)"

text \<open>\<open>save_incident\<close>: roll back and raise again; a rollback that raises replaces the error.\<close>

definition save_incident ::
  "'w store_api \<Rightarrow> cluster \<Rightarrow> root_cause_result \<Rightarrow> ('w, string) prog" where
  "save_incident st c r =
     catch (save_incident_body st c r) (\<lambda>e. bnd (db_rollback st) (\<lambda>_. raise e))"

subsection \<open>Publishing an incident\<close>

definition type_or_unknown :: "anomaly \<Rightarrow> string" where
  "type_or_unknown a =
     (case anomaly_type a of None \<Rightarrow> ''UNKNOWN'' | Some t \<Rightarrow> if t = [] then ''UNKNOWN'' else t)"

definition cluster_types :: "cluster \<Rightarrow> string list" where
  "cluster_types c = sort (remdups (map type_or_unknown (anomalies c)))"

definition incident_payload :: "string \<Rightarrow> cluster \<Rightarrow> root_cause_result \<Rightarrow> int \<Rightarrow> pydict" where
  "incident_payload iid c r sev =
     [(''incident_id'', PStr iid),
      (''root_cause_service'', PStr (root_cause r)),
      (''causality_method'', PStr (causality_method r)),
      (''member_service_ids'', PList (map PStr (sort (service_ids c)))),
      (''anomaly_count'', PInt (int (length (anomalies c)))),
      (''severity'', PInt sev),
      (''anomaly_types'', PList (map PStr (cluster_types c))),
      (''opened_at'', PFloat (created_at c)),
      (''closed_at'', PFloat (last_updated c))]"

definition publish_incident ::
  "'w producer_api \<Rightarrow> string \<Rightarrow> cluster \<Rightarrow> root_cause_result \<Rightarrow> ('w producer, unit) prog" where
  "publish_incident api iid c r s =
     (case cluster_severity c of
        Inl e \<Rightarrow> (Inl e, s)
      | Inr sev \<Rightarrow>
          json_send ''IncidentPublisher'' api ''incident-alerts'' (Some (root_cause r))
            (incident_payload iid c r sev) True s)"

subsection \<open>The engine\<close>

record 'w engine_api =
  graph :: "'w neo"
  causality :: "'w granger_api"
  store :: "'w store_api"
  alerts :: "'w producer_api"
  wall_clock :: "'w \<Rightarrow> real \<times> 'w"

record 'w engine =
  clusters :: clusterer
  last_check :: real
  ingested_total :: nat
  incidents_total :: "string \<Rightarrow> nat"
  failures_total :: "string \<Rightarrow> nat"
  publisher_log :: log_state
  engine_world :: 'w

definition count_incidents :: "string \<Rightarrow> 'w engine \<Rightarrow> 'w engine" where
  "count_incidents l s = s\<lparr>incidents_total := (incidents_total s)(l := Suc (incidents_total s l))\<rparr>"

definition count_failure :: "string \<Rightarrow> 'w engine \<Rightarrow> 'w engine" where
  "count_failure l s = s\<lparr>failures_total := (failures_total s)(l := Suc (failures_total s l))\<rparr>"

definition finalize_check_interval :: real where
  "finalize_check_interval = 10"

text \<open>The body of the loop of \<open>_check_finalized\<close> for one cluster, with its \<open>except\<close> branch.\<close>

definition finalize_cluster :: "'w engine_api \<Rightarrow> cluster \<Rightarrow> 'w engine \<Rightarrow> 'w engine" where
  "finalize_cluster api c s =
     (case find_root_cause (causality api) c (engine_world s) of
        (Inl e, w1) \<Rightarrow> count_failure ''save'' (s\<lparr>engine_world := w1\<rparr>)
      | (Inr r, w1) \<Rightarrow>
          (case save_incident (store api) c r w1 of
             (Inl e, w2) \<Rightarrow> count_failure ''save'' (s\<lparr>engine_world := w2\<rparr>)
           | (Inr iid, w2) \<Rightarrow>
               (let (res, p) = publish_incident (alerts api) iid c r
                                 \<lparr>producer_log = publisher_log s, broker = w2\<rparr>;
                    s1 = s\<lparr>engine_world := broker p, publisher_log := producer_log p\<rparr>
                in case res of
                     Inl e \<Rightarrow> count_failure (if iid \<noteq> [] then ''publish'' else ''save'') s1
                   | Inr _ \<Rightarrow> count_incidents (causality_method r) s1)))"

definition check_finalized :: "'w engine_api \<Rightarrow> 'w engine \<Rightarrow> 'w engine" where
  "check_finalized api s =
     (let (now, w) = wall_clock api (engine_world s);
          (fin, cl) = pop_finalized now (clusters s)
      in fold (finalize_cluster api) fin (s\<lparr>clusters := cl, engine_world := w\<rparr>))"

text \<open>
  Reading an anomaly from a decoded record. A record that is no object and a missing
  \<open>detected_at\<close> or \<open>service_id\<close> raise, in the order in which the code reads them. Values that the
  schema of the topic does not allow are approximated: a \<open>service_id\<close> that is no string raises
  \<open>TypeError\<close>, other optional fields of a wrong type count as \<open>None\<close>.
\<close>

fun str_opt :: "pyval \<Rightarrow> string option" where
  "str_opt (PStr s) = Some s"
| "str_opt _ = None"

fun int_opt :: "pyval \<Rightarrow> int option" where
  "int_opt (PInt n) = Some n"
| "int_opt _ = None"

definition read_anomaly :: "pyval \<Rightarrow> exn + anomaly" where
  "read_anomaly v =
     (case v of
        PDict d \<Rightarrow>
          rbind (dict_item d ''detected_at'') (\<lambda>t.
            case num_of t of
              None \<Rightarrow> Inl TypeError
            | Some ms \<Rightarrow>
                rbind (dict_item d ''service_id'') (\<lambda>sid.
                  case str_opt sid of
                    None \<Rightarrow> Inl TypeError
                  | Some name \<Rightarrow>
                      Inr \<lparr>service_id = name, detected_at = ms,
                           anomaly_type = str_opt (dict_get d ''anomaly_type''),
                           severity = int_opt (dict_get d ''severity''),
                           anomaly_id = str_opt (dict_get d ''id'')\<rparr>))
      | _ \<Rightarrow> Inl TypeError)"

text \<open>\<open>anomaly["anomaly_type"]\<close> in the log line after the anomaly was added.\<close>

definition has_type :: "pyval \<Rightarrow> bool" where
  "has_type v = (case v of PDict d \<Rightarrow> map_of d ''anomaly_type'' \<noteq> None | _ \<Rightarrow> False)"

definition engine_ingest :: "'w engine_api \<Rightarrow> pyval \<Rightarrow> ('w engine, unit) prog" where
  "engine_ingest api v s =
     (case read_anomaly v of
        Inl e \<Rightarrow> (Inl e, s)
      | Inr a \<Rightarrow>
          (case add_anomaly (graph api) a (clusters s, engine_world s) of
             (Inl e, (cl, w)) \<Rightarrow> (Inl e, s\<lparr>clusters := cl, engine_world := w\<rparr>)
           | (Inr _, (cl, w)) \<Rightarrow>
               (if has_type v then Inr () else Inl KeyError,
                s\<lparr>clusters := cl, engine_world := w, ingested_total := Suc (ingested_total s)\<rparr>)))"

definition check_and_stamp :: "'w engine_api \<Rightarrow> 'w engine \<Rightarrow> 'w engine" where
  "check_and_stamp api s =
     (let t = check_finalized api s; (now, w) = wall_clock api (engine_world t)
      in t\<lparr>last_check := now, engine_world := w\<rparr>)"

text \<open>One turn of the loop; \<open>None\<close> is a poll that returned no record.\<close>

definition engine_turn :: "'w engine_api \<Rightarrow> pyval option \<Rightarrow> ('w engine, unit) prog" where
  "engine_turn api polled s =
     (case polled of
        None \<Rightarrow> (Inr (), check_and_stamp api s)
      | Some v \<Rightarrow>
          (case engine_ingest api v s of
             (Inl e, t) \<Rightarrow> (Inl e, t)
           | (Inr _, t) \<Rightarrow>
               (let (now, w) = wall_clock api (engine_world t); t1 = t\<lparr>engine_world := w\<rparr>
                in (Inr (), if now - last_check t1 \<ge> finalize_check_interval
                            then check_and_stamp api t1 else t1))))"

text \<open>The loop over a sequence of polls; an exception leaves it.\<close>

fun engine_run :: "'w engine_api \<Rightarrow> pyval option list \<Rightarrow> ('w engine, unit) prog" where
  "engine_run api [] s = (Inr (), s)"
| "engine_run api (p # ps) s =
     (case engine_turn api p s of (Inl e, t) \<Rightarrow> (Inl e, t) | (Inr _, t) \<Rightarrow> engine_run api ps t)"

subsection \<open>Every finalised cluster is accounted for\<close>

definition accounted :: "'w engine \<Rightarrow> nat" where
  "accounted s = incidents_total s ''granger'' + incidents_total s ''fallback_earliest'' +
     failures_total s ''save'' + failures_total s ''publish''"

lemma root_cause_method:
  "find_root_cause api c w = (Inr r, w1) \<Longrightarrow> causality_method r \<in> {''granger'', ''fallback_earliest''}"
proof (erule find_root_cause_elim)
  fix ss es
  assume "decide_root (anomalies c) (map fst ss) es = Inr r"
  from decide_root_cases(2,3) [OF this] show ?thesis by (cases "es = []") simp_all
qed

lemmas engine_counts = count_incidents_def count_failure_def

lemma finalize_cluster_shape:
  obtains (counted) m w l where "m \<in> {''granger'', ''fallback_earliest''}"
      "finalize_cluster api c s = count_incidents m (s\<lparr>engine_world := w, publisher_log := l\<rparr>)"
  | (failed) k w l where "k \<in> {''save'', ''publish''}"
      "finalize_cluster api c s = count_failure k (s\<lparr>engine_world := w, publisher_log := l\<rparr>)"
proof -
  obtain f w1 where rc: "find_root_cause (causality api) c (engine_world s) = (f, w1)" by fastforce
  show thesis
  proof (cases f)
    case (Inl e)
    with rc show thesis
      by (intro failed [where k = "''save''" and w = w1 and l = "publisher_log s"]) (simp_all add: finalize_cluster_def)
  next
    case (Inr r)
    with rc have m: "causality_method r \<in> {''granger'', ''fallback_earliest''}"
      by (metis root_cause_method)
    obtain g w2 where save: "save_incident (store api) c r w1 = (g, w2)" by fastforce
    show thesis
    proof (cases g)
      case (Inl e)
      with rc Inr save show thesis
        by (intro failed [where k = "''save''" and w = w2 and l = "publisher_log s"]) (simp_all add: finalize_cluster_def)
    next
      case iid: (Inr iid)
      obtain h p where pub: "publish_incident (alerts api) iid c r
          \<lparr>producer_log = publisher_log s, broker = w2\<rparr> = (h, p)" by fastforce
      show thesis
      proof (cases h)
        case (Inl e)
        with rc Inr save iid pub show thesis
          by (intro failed [where k = "if iid \<noteq> [] then ''publish'' else ''save''"
              and w = "broker p" and l = "producer_log p"])
            (simp_all add: finalize_cluster_def)
      next
        case (Inr u)
        with rc \<open>f = Inr r\<close> save iid pub m show thesis
          by (intro counted [where m = "causality_method r" and w = "broker p" and l = "producer_log p"])
            (simp_all add: finalize_cluster_def)
      qed
    qed
  qed
qed

lemma finalize_cluster_accounted: "accounted (finalize_cluster api c s) = Suc (accounted s)"
  by (rule finalize_cluster_shape [of api c s]) (auto simp: accounted_def engine_counts)

interpretation finalizer: metered_system "finalize_cluster api" "\<lambda>_. True" accounted for api
  by unfold_locales (simp_all add: finalize_cluster_accounted)

text \<open>
  One failing cluster takes nothing else with it: a check counts every cluster it popped exactly
  once, as an incident or as a failure to save or to publish, whatever the databases and Kafka do.
\<close>

theorem finalized_accounted:
  "accounted (check_finalized api s) =
     accounted s + length (fst (pop_finalized (fst (wall_clock api (engine_world s))) (clusters s)))"
proof -
  obtain now w where clock: "wall_clock api (engine_world s) = (now, w)" by fastforce
  obtain fin cl where pop: "pop_finalized now (clusters s) = (fin, cl)" by fastforce
  have "accounted (check_finalized api s) =
      accounted (s\<lparr>clusters := cl, engine_world := w\<rparr>) + length fin"
    by (simp add: check_finalized_def clock pop finalizer.run_total)
  with clock pop show ?thesis by (simp add: accounted_def)
qed

subsection \<open>The loop survives failing services\<close>

lemma finalize_cluster_ingested [simp]: "ingested_total (finalize_cluster api c s) = ingested_total s"
  by (rule finalize_cluster_shape [of api c s]) (simp_all add: engine_counts)

lemma check_ingested [simp]:
  "ingested_total (check_finalized api s) = ingested_total s"
  "ingested_total (check_and_stamp api s) = ingested_total s"
proof -
  have "ingested_total (fold (finalize_cluster api) cs t) = ingested_total t" for cs t
    by (induction cs arbitrary: t) simp_all
  then show check: "ingested_total (check_finalized api s) = ingested_total s" for s
    by (simp add: check_finalized_def case_prod_unfold Let_def)
  show "ingested_total (check_and_stamp api s) = ingested_total s"
    by (simp add: check_and_stamp_def case_prod_unfold Let_def check)
qed

lemma related_total:
  assumes "\<And>x w. \<exists>xs w1. neo x w = (Inr xs, w1)"
  shows "\<exists>ns c1. related neo x c = (Inr ns, c1)"
proof -
  obtain d w where c: "c = (d, w)" by fastforce
  from assms [of x w] obtain xs w1 where "neo x w = (Inr xs, w1)" by blast
  then show ?thesis by (cases "d x") (simp_all add: related_def c Let_def)
qed

lemma bfs_total:
  assumes "\<And>x w. \<exists>xs w1. neo x w = (Inr xs, w1)"
  shows "\<exists>vis c1. bfs neo keys visited q c = (Inr vis, c1)"
  using assms
proof (induction neo keys visited q c rule: bfs.induct)
  case (2 neo keys visited x q c)
  obtain ns c1 where rel: "related neo x c = (Inr ns, c1)" using related_total [of neo x c] "2.prems" by blast
  obtain v1 q1 where vis: "visit (\<lambda>n. n \<in> set keys) ns visited q = (v1, q1)" by fastforce
  from "2.IH" [OF rel [symmetric] refl vis [symmetric] refl] "2.prems" show ?case
    using rel vis by simp
qed simp

lemma add_anomaly_total:
  assumes "\<And>x w. \<exists>xs w1. neo x w = (Inr xs, w1)"
  shows "\<exists>st1. add_anomaly neo a st = (Inr (), st1)"
proof -
  obtain s w where st: "st = (s, w)" by fastforce
  let ?el = "eligible_clusters (seconds a) (active s)"
  obtain vis c1 where "bfs neo (owner_keys ?el) [service_id a] [service_id a] (related_cache s, w) = (Inr vis, c1)"
    using bfs_total [of neo] assms by blast
  then obtain m c2 w2 where "connected_clusters neo (service_id a) ?el (related_cache s, w) = (Inr m, (c2, w2))"
    by (cases c1) (simp add: connected_clusters_def Let_def)
  then show ?thesis by (cases m) (simp_all add: add_anomaly_def st)
qed

text \<open>A record the topic's schema allows: it is readable and has an anomaly type.\<close>

definition well_formed_anomaly :: "pyval \<Rightarrow> bool" where
  "well_formed_anomaly v \<longleftrightarrow> has_type v \<and> (\<exists>a. read_anomaly v = Inr a)"

lemma engine_turn_survives:
  assumes "\<And>x w. \<exists>xs w1. graph api x w = (Inr xs, w1)"
    and "\<And>v. p = Some v \<Longrightarrow> well_formed_anomaly v"
  shows "\<exists>t. engine_turn api p s = (Inr (), t) \<and>
             ingested_total t = ingested_total s + (if p = None then 0 else 1)"
proof (cases p)
  case None
  then show ?thesis by (simp add: engine_turn_def)
next
  case (Some v)
  with assms(2) obtain a where a: "has_type v" "read_anomaly v = Inr a"
    by (auto simp: well_formed_anomaly_def)
  obtain cl w where "add_anomaly (graph api) a (clusters s, engine_world s) = (Inr (), (cl, w))"
    using add_anomaly_total [of "graph api"] assms(1) by (metis prod.exhaust)
  with a have "engine_ingest api v s =
      (Inr (), s\<lparr>clusters := cl, engine_world := w, ingested_total := Suc (ingested_total s)\<rparr>)"
    by (simp add: engine_ingest_def)
  with Some show ?thesis by (simp add: engine_turn_def case_prod_unfold Let_def)
qed

text \<open>
  The loop outlives its services: over any sequence of polls whose records the schema allows,
  the engine ingests every anomaly and never stops, whatever Granger's database, the incident
  store and Kafka do, as long as Neo4j answers.
\<close>

theorem engine_outlives_services:
  assumes "\<And>x w. \<exists>xs w1. graph api x w = (Inr xs, w1)"
    and "\<forall>v. Some v \<in> set polls \<longrightarrow> well_formed_anomaly v"
  shows "\<exists>t. engine_run api polls s = (Inr (), t) \<and>
             ingested_total t = ingested_total s + length (filter (\<lambda>p. p \<noteq> None) polls)"
  using assms(2)
proof (induction polls arbitrary: s)
  case (Cons p ps)
  from engine_turn_survives [of api p s] assms(1) Cons.prems obtain t1 where
    t1: "engine_turn api p s = (Inr (), t1)"
    "ingested_total t1 = ingested_total s + (if p = None then 0 else 1)" by auto
  from Cons.IH [of t1] Cons.prems obtain t where "engine_run api ps t1 = (Inr (), t)"
    "ingested_total t = ingested_total t1 + length (filter (\<lambda>p. p \<noteq> None) ps)" by auto
  with t1 show ?case by simp
qed simp

text \<open>
  A record that is valid JSON but not an anomaly does stop the engine: without \<open>detected_at\<close> or
  \<open>service_id\<close> the loop ends with an exception and all open clusters are lost, although the
  consumer promises that one bad payload does not kill the loop.
\<close>

theorem bad_record_stops_engine:
  assumes "map_of d ''detected_at'' = None \<or>
           (map_of d ''service_id'' = None \<and> (\<exists>x. num_of (dict_get d ''detected_at'') = Some x))"
  shows "engine_run api (Some (PDict d) # polls) s = (Inl KeyError, s)"
proof (cases "map_of d ''detected_at''")
  case None
  then show ?thesis by (simp add: engine_turn_def engine_ingest_def read_anomaly_def dict_item_def)
next
  case (Some v)
  with assms show ?thesis
    by (auto simp: engine_turn_def engine_ingest_def read_anomaly_def dict_defs)
qed

subsection \<open>Counted means saved and published\<close>

text \<open>
  The database seen from outside: the committed incident rows, and the rows of the open transaction.
  A statement that raises, a commit that raises and a rollback leave the committed rows alone.
\<close>

definition txn_law ::
  "'w store_api \<Rightarrow> ('w \<Rightarrow> incident_row list) \<Rightarrow> ('w \<Rightarrow> incident_row list) \<Rightarrow> bool" where
  "txn_law st rows pend \<longleftrightarrow>
     (\<forall>w. rows (snd (new_uuid st w)) = rows w \<and> pend (snd (new_uuid st w)) = pend w \<and>
          fst (new_uuid st w) \<noteq> []) \<and>
     (\<forall>x w r w1. insert_incident st x w = (r, w1) \<longrightarrow>
          rows w1 = rows w \<and> (r = Inr () \<longrightarrow> pend w1 = pend w @ [x])) \<and>
     (\<forall>i ids w r w1. link_anomalies st i ids w = (r, w1) \<longrightarrow>
          rows w1 = rows w \<and> (r = Inr () \<longrightarrow> pend w1 = pend w)) \<and>
     (\<forall>w r w1. db_commit st w = (r, w1) \<longrightarrow>
          rows w1 = (if r = Inr () then rows w @ pend w else rows w) \<and> (r = Inr () \<longrightarrow> pend w1 = [])) \<and>
     (\<forall>w. rows (snd (db_rollback st w)) = rows w \<and> fst (db_rollback st w) = Inr () \<and>
          pend (snd (db_rollback st w)) = [])"

definition incident_row_of :: "string \<Rightarrow> cluster \<Rightarrow> root_cause_result \<Rightarrow> int \<Rightarrow> incident_row" where
  "incident_row_of iid c r sev =
     \<lparr>row_id = iid, row_opened = created_at c, row_closed = last_updated c, row_root = root_cause r,
      row_members = sort (service_ids c), row_count = length (anomalies c), row_severity = sev,
      row_method = causality_method r\<rparr>"

lemma save_body_rows:
  assumes law: "txn_law st rows pend" and "pend w = []"
    and "save_incident_body st c r w = (res, w1)"
  shows "case res of
           Inl e \<Rightarrow> rows w1 = rows w
         | Inr iid \<Rightarrow> iid \<noteq> [] \<and> pend w1 = [] \<and>
             (\<exists>sev. cluster_severity c = Inr sev \<and> rows w1 = rows w @ [incident_row_of iid c r sev])"
proof -
  obtain iid w2 where u: "new_uuid st w = (iid, w2)" by fastforce
  from law u assms(2) have w2: "rows w2 = rows w" "pend w2 = []" "iid \<noteq> []"
    unfolding txn_law_def by (metis fst_conv snd_conv)+
  show ?thesis
  proof (cases "cluster_severity c")
    case (Inl e)
    with assms(3) u w2 show ?thesis by (auto simp: save_incident_body_def)
  next
    case (Inr sev)
    obtain ri w3 where i: "insert_incident st (incident_row_of iid c r sev) w2 = (ri, w3)" by fastforce
    with law w2 have w3: "rows w3 = rows w" "ri = Inr () \<Longrightarrow> pend w3 = [incident_row_of iid c r sev]"
      unfolding txn_law_def by (metis append_Nil)+
    obtain rl w4 where l: "link_members st iid c w3 = (rl, w4)" by fastforce
    with law w3 have w4: "rows w4 = rows w" "rl = Inr () \<Longrightarrow> pend w4 = pend w3"
      unfolding txn_law_def by (auto simp: link_members_def ret_def split: if_splits)
    obtain rc w5 where k: "db_commit st w4 = (rc, w5)" by fastforce
    with law have w5: "rows w5 = (if rc = Inr () then rows w4 @ pend w4 else rows w4)"
      "rc = Inr () \<Longrightarrow> pend w5 = []"
      unfolding txn_law_def by blast+
    have "save_incident_body st c r w =
        (case ri of Inl e \<Rightarrow> (Inl e, w3) | Inr _ \<Rightarrow>
         (case rl of Inl e \<Rightarrow> (Inl e, w4) | Inr _ \<Rightarrow>
         (case rc of Inl e \<Rightarrow> (Inl e, w5) | Inr _ \<Rightarrow> (Inr iid, w5))))"
      using u Inr i l k unfolding save_incident_body_def incident_row_of_def
      by (simp add: bnd_def ret_def split: sum.splits)
    with assms(3) w2 w3 w4 w5 Inr show ?thesis by (cases ri; cases rl; cases rc) auto
  qed
qed

lemma save_incident_rows:
  assumes law: "txn_law st rows pend" and "pend w = []" and "save_incident st c r w = (res, w1)"
  shows "pend w1 = [] \<and>
         (case res of
            Inl e \<Rightarrow> rows w1 = rows w
          | Inr iid \<Rightarrow> iid \<noteq> [] \<and>
              (\<exists>sev. cluster_severity c = Inr sev \<and> rows w1 = rows w @ [incident_row_of iid c r sev]))"
proof -
  obtain b w2 where body: "save_incident_body st c r w = (b, w2)" by fastforce
  note rows = save_body_rows [OF law assms(2) body]
  obtain e1 w3 where rb: "db_rollback st w2 = (e1, w3)" by fastforce
  with law have "rows w3 = rows w2" "e1 = Inr ()" "pend w3 = []"
    unfolding txn_law_def by (metis fst_conv snd_conv)+
  with rows body rb assms(3) show ?thesis
    by (cases b) (auto simp: save_incident_def catch_def bnd_def raise_def)
qed

text \<open>
  Saving is all or nothing: \<open>save_incident\<close> either commits exactly the row it built and returns
  its id, or raises and leaves the incidents as they were, with no transaction left open for the
  next save.
\<close>

theorem save_incident_atomic:
  assumes "txn_law st rows pend" and "pend w = []" and "save_incident st c r w = (res, w1)"
  shows "pend w1 = [] \<and>
         (case res of
            Inl e \<Rightarrow> rows w1 = rows w
          | Inr iid \<Rightarrow> \<exists>sev. cluster_severity c = Inr sev \<and>
                         rows w1 = rows w @ [incident_row_of iid c r sev])"
  using save_incident_rows [OF assms] by (auto split: sum.splits)

text \<open>The other services do not write incidents.\<close>

definition db_frame ::
  "'w engine_api \<Rightarrow> ('w \<Rightarrow> incident_row list) \<Rightarrow> ('w \<Rightarrow> incident_row list) \<Rightarrow> bool" where
  "db_frame api rows pend \<longleftrightarrow>
     (\<forall>sid m w. rows (snd (query_rows (causality api) sid m w)) = rows w \<and>
                pend (snd (query_rows (causality api) sid m w)) = pend w) \<and>
     (\<forall>t k v w. rows (snd (produce (alerts api) t k v w)) = rows w \<and>
                pend (snd (produce (alerts api) t k v w)) = pend w) \<and>
     (\<forall>d w. rows (snd (serve (alerts api) d w)) = rows w \<and> pend (snd (serve (alerts api) d w)) = pend w) \<and>
     (\<forall>w. rows (snd (flush_queue (alerts api) w)) = rows w \<and>
          pend (snd (flush_queue (alerts api) w)) = pend w)"

text \<open>A function of the world that the producer's operations keep is kept by \<open>send\<close>.\<close>

lemma json_send_frame:
  assumes "\<And>t k v w. f (snd (produce api t k v w)) = f w" and "\<And>d w. f (snd (serve api d w)) = f w"
    and "\<And>w. f (snd (flush_queue api w)) = f w"
  shows "f (broker (snd (json_send name api t k v wait s))) = f (broker s)"
proof -
  have enq: "f (snd (enqueue api t k v w)) = f w" for w
  proof -
    obtain r w1 where p: "produce api t k v w = (r, w1)" by fastforce
    with assms(1) [of t k v w] have "f w1 = f w" by simp
    with p assms(1,2) show ?thesis by (auto simp: enqueue_def split: sum.splits)
  qed
  obtain r w1 where e: "enqueue api t k v (broker s) = (r, w1)" by fastforce
  obtain errs w2 where p: "serve api 0 w1 = (errs, w2)" by fastforce
  obtain more n w3 where q: "flush_queue api w2 = ((more, n), w3)" by (metis prod.exhaust)
  from enq [of "broker s"] assms(2) [of 0 w1] assms(3) [of w2] e p q
  have "f w1 = f (broker s)" "f w2 = f (broker s)" "f w3 = f (broker s)" by simp_all
  with e p q show ?thesis by (cases r) (simp_all add: json_send_def Let_def)
qed

lemma find_root_cause_frame:
  assumes "\<And>sid m w. f (snd (query_rows api sid m w)) = f w"
  shows "f (snd (find_root_cause api c w)) = f w"
proof -
  have fetch: "f (snd (fetch_series api sid m w)) = f w" for sid m w
    using assms [of sid m w] by (auto simp: fetch_series_def split: prod.splits sum.splits)
  have "f (snd (collect_series api ls w)) = f w" for ls w
  proof (induction ls arbitrary: w)
    case (Cons l rest)
    obtain sid a where sid: "l = (sid, a)" by (cases l)
    obtain r w1 where s: "fetch_series api sid (metric_for (anomaly_type a)) w = (r, w1)" by fastforce
    with fetch [of sid "metric_for (anomaly_type a)" w] have w1: "f w1 = f w" by simp
    show ?case
    proof (cases r)
      case (Inl e)
      with s w1 sid show ?thesis by simp
    next
      case (Inr x)
      with s w1 sid Cons [of w1] show ?thesis by (auto split: prod.splits sum.splits)
    qed
  qed simp
  then show ?thesis
    by (auto simp: find_root_cause_def split: prod.splits sum.splits) (metis snd_conv)+
qed

lemma publish_frame:
  assumes "db_frame api rows pend"
  shows "rows (broker (snd (publish_incident (alerts api) iid c r p))) = rows (broker p) \<and>
         pend (broker (snd (publish_incident (alerts api) iid c r p))) = pend (broker p)"
  using assms unfolding db_frame_def publish_incident_def
  by (auto simp: json_send_frame [of rows] json_send_frame [of pend] split: sum.splits)

lemma finalize_after_save:
  assumes "broker_law (alerts api) stored" and "db_frame api rows pend"
    and rc: "find_root_cause (causality api) c (engine_world s) = (Inr r, w1)"
    and save: "save_incident (store api) c r w1 = (Inr iid, w2)" and sev: "cluster_severity c = Inr sev"
    and "iid \<noteq> []" and "pend w2 = []" and t: "t = finalize_cluster api c s"
  shows "pend (engine_world t) = [] \<and> rows (engine_world t) = rows w2 \<and>
     ((incidents_total t = (incidents_total s)(causality_method r := Suc (incidents_total s (causality_method r))) \<and>
       failures_total t = failures_total s \<and>
       (''incident-alerts'', Some (root_cause r), incident_payload iid c r sev) \<in> stored (engine_world t)) \<or>
      (incidents_total t = incidents_total s \<and>
       failures_total t = (failures_total s)(''publish'' := Suc (failures_total s ''publish''))))"
proof -
  let ?p = "\<lparr>producer_log = publisher_log s, broker = w2\<rparr>"
  obtain h p where pub: "publish_incident (alerts api) iid c r ?p = (h, p)" by fastforce
  from publish_frame [OF assms(2), of iid c r ?p] pub assms(7)
  have p: "rows (broker p) = rows w2" "pend (broker p) = []" by simp_all
  show ?thesis
  proof (cases h)
    case (Inl e)
    with rc save pub p assms(6) t show ?thesis by (simp add: finalize_cluster_def engine_counts)
  next
    case (Inr u)
    with pub sev have "json_send ''IncidentPublisher'' (alerts api) ''incident-alerts''
        (Some (root_cause r)) (incident_payload iid c r sev) True ?p = (Inr (), p)"
      by (simp add: publish_incident_def)
    from json_send_stored [OF assms(1) this]
    have "(''incident-alerts'', Some (root_cause r), incident_payload iid c r sev) \<in> stored (broker p)" .
    moreover have "t = count_incidents (causality_method r)
        (s\<lparr>engine_world := broker p, publisher_log := producer_log p\<rparr>)"
      using rc save pub Inr assms(6) t by (simp add: finalize_cluster_def)
    ultimately show ?thesis using p by (simp add: engine_counts)
  qed
qed


subsection \<open>A concrete engine\<close>

text \<open>
  The world of the witnesses: the committed rows, the rows of the open transaction and the
  messages of the broker. Every service answers.
\<close>

type_synonym ex_db = "incident_row list \<times> incident_row list \<times> (string \<times> string option \<times> pydict) list"

definition ex_store :: "ex_db store_api" where
  "ex_store =
     \<lparr>new_uuid = (\<lambda>w. (''0123456789'', w)),
      insert_incident = (\<lambda>x (rs, ps, ms). (Inr (), (rs, ps @ [x], ms))),
      link_anomalies = (\<lambda>i ids w. (Inr (), w)),
      db_commit = (\<lambda>(rs, ps, ms). (Inr (), (rs @ ps, [], ms))),
      db_rollback = (\<lambda>(rs, ps, ms). (Inr (), (rs, [], ms)))\<rparr>"

definition ex_alerts :: "ex_db producer_api" where
  "ex_alerts =
     \<lparr>produce = (\<lambda>t k v (rs, ps, ms). (Inr (), (rs, ps, (t, k, v) # ms))), serve = (\<lambda>_ w. ([], w)),
      flush_queue = (\<lambda>w. (([], 0), w))\<rparr>"

definition ex_engine :: "ex_db engine_api" where
  "ex_engine =
     \<lparr>graph = (\<lambda>sid w. (Inr [], w)),
      causality = \<lparr>query_rows = (\<lambda>sid m w. (Inr [], w)), granger_test = (\<lambda>xs. Inr [(1, 1)])\<rparr>,
      store = ex_store, alerts = ex_alerts, wall_clock = (\<lambda>w. (1000, w))\<rparr>"

definition ex_engine_start :: "ex_db engine" where
  "ex_engine_start =
     \<lparr>clusters = init_clusterer, last_check = 0, ingested_total = 0, incidents_total = (\<lambda>_. 0),
      failures_total = (\<lambda>_. 0), publisher_log = init_log, engine_world = ([], [], [])\<rparr>"

lemma ex_engine_laws:
  "txn_law (store ex_engine) fst (\<lambda>w. fst (snd w))"
  "broker_law (alerts ex_engine) (\<lambda>w. set (snd (snd w)))"
  "db_frame ex_engine fst (\<lambda>w. fst (snd w))"
  by (auto simp: txn_law_def broker_law_def db_frame_def ex_engine_def ex_store_def ex_alerts_def)


theorem save_incident_atomic_witness:
  "fst (snd (snd (save_incident ex_store ex_cluster
       \<lparr>root_cause = ''svc-a'', causality_method = ''granger'', causal_edges = []\<rparr> ([], [], [])))) = []"
  by (rule conjunct1 [OF save_incident_atomic [OF ex_engine_laws(1) [unfolded ex_engine_def, simplified]]])
    (simp_all add: prod_eq_iff)

definition ex_record :: pyval where
  "ex_record = PDict [(''service_id'', PStr ''svc-a''), (''detected_at'', PInt 990000),
                      (''anomaly_type'', PStr ''CPU_SPIKE'')]"

theorem engine_outlives_services_witness:
  "\<exists>t. engine_run ex_engine [Some ex_record, None] ex_engine_start = (Inr (), t) \<and> ingested_total t = 1"
proof -
  have "well_formed_anomaly ex_record"
    by (simp add: well_formed_anomaly_def ex_record_def has_type_def read_anomaly_def dict_item_def)
  then have "\<exists>t. engine_run ex_engine [Some ex_record, None] ex_engine_start = (Inr (), t) \<and>
      ingested_total t = ingested_total ex_engine_start + length (filter (\<lambda>p. p \<noteq> None) [Some ex_record, None])"
    by (intro engine_outlives_services) (simp_all add: ex_engine_def del: split_paired_Ex)
  then show ?thesis by (simp add: ex_engine_start_def)
qed

theorem bad_record_stops_engine_witness:
  "engine_run ex_engine [Some (PDict []), Some ex_record] ex_engine_start = (Inl KeyError, ex_engine_start)"
  by (rule bad_record_stops_engine) simp

end
