(* ===== verification/Flink_Decode.thy ===== *)
theory Flink_Decode
  imports Py_Values "HOL-Library.Word"
begin

section \<open>Decoding the spans of the Flink job\<close>

text \<open>
  \<open>flink_jobs/resilience.py\<close>, \<open>models/metric_event.py\<close> and \<open>operators/span_decoder.py\<close>: a record
  of \<open>raw-telemetry\<close> is Avro in the Confluent wire format or JSON and becomes a \<open>MetricEvent\<close>, or
  is counted and dropped. Bytes are 8-bit words; the record arrives as a string whose
  characters are given by their code points. The schema registry, the Avro reader and the JSON
  parser are parameters.
\<close>

subsection \<open>Metric events\<close>

text \<open>The fields keep whatever JSON value the span had.\<close>

record metric_event =
  me_trace_id :: pyval
  me_span_id :: pyval
  me_service_id :: pyval
  me_timestamp :: pyval
  me_cpu_percent :: pyval
  me_latency_p99 :: pyval
  me_error_rate :: pyval
  me_request_rate :: pyval
  me_anomaly_type :: pyval
  me_is_anomaly :: pyval

text \<open>\<open>d.get("metrics") or d\<close>; calling \<open>get\<close> on anything but an object raises.\<close>

definition metrics_of :: "pydict \<Rightarrow> exn + pydict" where
  "metrics_of d =
     (let m = dict_get d ''metrics''
      in if truthy m then (case m of PDict ms \<Rightarrow> Inr ms | _ \<Rightarrow> Inl AttributeError) else Inr d)"

definition metric_event_of :: "pydict \<Rightarrow> exn + metric_event" where
  "metric_event_of d =
     rbind (metrics_of d) (\<lambda>ms. Inr
       \<lparr>me_trace_id = dict_get_or d ''trace_id'' (PStr []),
        me_span_id = dict_get_or d ''span_id'' (PStr []),
        me_service_id = dict_get_or d ''service_id'' (PStr []),
        me_timestamp = dict_get_or d ''timestamp'' (PInt 0),
        me_cpu_percent = dict_get_or ms ''cpu_percent'' (PFloat 0),
        me_latency_p99 = dict_get_or ms ''latency_p99'' (PFloat 0),
        me_error_rate = dict_get_or ms ''error_rate'' (PFloat 0),
        me_request_rate = dict_get_or ms ''request_rate'' (PFloat 0),
        me_anomaly_type = dict_get d ''anomaly_type'',
        me_is_anomaly = dict_get_or d ''is_anomaly'' (PBool False)\<rparr>)"

definition event_dict :: "metric_event \<Rightarrow> pydict" where
  "event_dict e =
     [(''trace_id'', me_trace_id e), (''span_id'', me_span_id e), (''service_id'', me_service_id e),
      (''timestamp'', me_timestamp e), (''cpu_percent'', me_cpu_percent e),
      (''latency_p99'', me_latency_p99 e), (''error_rate'', me_error_rate e),
      (''request_rate'', me_request_rate e), (''anomaly_type'', me_anomaly_type e),
      (''is_anomaly'', me_is_anomaly e)]"

definition feature_vector :: "metric_event \<Rightarrow> pyval list" where
  "feature_vector e =
     [me_cpu_percent e, me_latency_p99 e, me_error_rate e, me_request_rate e]"

text \<open>
  A metric event survives a round trip through its dictionary, and the nested spans of the
  simulator give the same readings as the flat records of the ingestion service.
\<close>

theorem metric_event_roundtrip:
  "metric_event_of (event_dict e) = Inr e \<and>
   metric_event_of
     [(''trace_id'', me_trace_id e), (''span_id'', me_span_id e), (''service_id'', me_service_id e),
      (''timestamp'', me_timestamp e),
      (''metrics'', PDict [(''cpu_percent'', me_cpu_percent e), (''latency_p99'', me_latency_p99 e),
         (''error_rate'', me_error_rate e), (''request_rate'', me_request_rate e)]),
      (''anomaly_type'', me_anomaly_type e), (''is_anomaly'', me_is_anomaly e)] = Inr e"
  by (simp add: metric_event_of_def metrics_of_def event_dict_def dict_defs)

subsection \<open>The decoder\<close>

text \<open>\<open>ThrottledErrorLog\<close>: the 1st, (every+1)st, ... error is printed.\<close>

record error_log =
  err_count :: nat
  err_lines :: "(nat \<times> exn) list"

definition log_error :: "nat \<Rightarrow> exn \<Rightarrow> error_log \<Rightarrow> error_log" where
  "log_error every e s =
     (let n = Suc (err_count s)
      in s\<lparr>err_count := n, err_lines := (if n mod every = 1 then err_lines s @ [(n, e)] else err_lines s)\<rparr>)"

type_synonym bytes = "8 word list"

record ('sch, 'w) decoder_api =
  get_schema :: "32 word \<Rightarrow> ('w, 'sch) prog"
  read_avro :: "'sch \<Rightarrow> bytes \<Rightarrow> exn + pyval"
  json_loads :: "bytes \<Rightarrow> exn + pyval"

record ('sch, 'w) decoder =
  schemas :: "32 word \<rightharpoonup> 'sch"
  dec_log :: error_log
  decode_failures :: nat
  dec_world :: 'w

text \<open>\<open>struct.unpack(">I", raw[1:5])\<close>: a big-endian 32-bit number; other lengths raise.\<close>

unbundle bit_operations_syntax

fun unpack_be32 :: "bytes \<Rightarrow> exn + 32 word" where
  "unpack_be32 [a, b, c, d] =
     Inr (push_bit 24 (ucast a) OR push_bit 16 (ucast b) OR push_bit 8 (ucast c) OR ucast d)"
| "unpack_be32 _ = Inl (ExternalError ''struct.error'')"

definition safe_json_loads :: "(bytes \<Rightarrow> exn + pyval) \<Rightarrow> bytes \<Rightarrow> exn + pyval" where
  "safe_json_loads loads raw =
     (case loads raw of Inl e \<Rightarrow> if e = ValueError then Inr PNone else Inl e | Inr v \<Rightarrow> Inr v)"

text \<open>The schema, from the cache or the registry; it is cached before it is used.\<close>

definition schema_for ::
  "('sch, 'w) decoder_api \<Rightarrow> 32 word \<Rightarrow> (('sch, 'w) decoder, 'sch) prog" where
  "schema_for api sid s =
     (case schemas s sid of
        Some sch \<Rightarrow> (Inr sch, s)
      | None \<Rightarrow>
          (case get_schema api sid (dec_world s) of
             (Inl e, w) \<Rightarrow> (Inl e, s\<lparr>dec_world := w\<rparr>)
           | (Inr sch, w) \<Rightarrow> (Inr sch, s\<lparr>dec_world := w, schemas := (schemas s)(sid \<mapsto> sch)\<rparr>)))"

definition decode_failed :: "exn \<Rightarrow> ('sch, 'w) decoder \<Rightarrow> ('sch, 'w) decoder" where
  "decode_failed e s = s\<lparr>dec_log := log_error 1000 e (dec_log s), decode_failures := Suc (decode_failures s)\<rparr>"

definition decode_avro ::
  "('sch, 'w) decoder_api \<Rightarrow> bytes \<Rightarrow> (('sch, 'w) decoder, pyval) prog" where
  "decode_avro api raw s =
     (case bnd (lift_res (unpack_be32 (take 4 (drop 1 raw)))) (\<lambda>sid.
             bnd (schema_for api sid) (\<lambda>sch. lift_res (read_avro api sch (drop 5 raw)))) s of
        (Inr v, t) \<Rightarrow> (Inr v, t)
      | (Inl e, t) \<Rightarrow> (Inr PNone, decode_failed e t))"

definition decode_span ::
  "('sch, 'w) decoder_api \<Rightarrow> bytes \<Rightarrow> (('sch, 'w) decoder, pyval) prog" where
  "decode_span api raw s =
     (if raw = [] then (Inr PNone, s)
      else if hd raw = 0 \<and> length raw > 5 then decode_avro api raw s
      else (safe_json_loads (json_loads api) raw, s))"

text \<open>
  The span decoder never raises: an empty record, broken Avro, an unknown schema, a registry
  outage and invalid JSON all become \<open>None\<close>; every Avro failure is counted.
\<close>

theorem decode_span_never_raises:
  assumes "\<And>b e. json_loads api b = Inl e \<Longrightarrow> e = ValueError"
  shows "\<exists>v. fst (decode_span api raw s) = Inr v"
  using assms
  by (auto simp: decode_span_def decode_avro_def safe_json_loads_def split: prod.splits sum.splits)

subsection \<open>The operator\<close>

text \<open>\<open>value.encode("latin-1")\<close>.\<close>

definition latin1_encode :: "nat list \<Rightarrow> exn + bytes" where
  "latin1_encode cs =
     (if \<forall>c \<in> set cs. c < 256 then Inr (map of_nat cs) else Inl (ExternalError ''UnicodeEncodeError''))"

definition count_decode_failure :: "('sch, 'w) decoder \<Rightarrow> ('sch, 'w) decoder" where
  "count_decode_failure s = s\<lparr>decode_failures := Suc (decode_failures s)\<rparr>"

text \<open>\<open>now_ms\<close> is \<open>int(time.time() * 1000)\<close>, used for a span without an event time.\<close>

definition flat_map_span ::
  "('sch, 'w) decoder_api \<Rightarrow> int \<Rightarrow> nat list \<Rightarrow> (('sch, 'w) decoder, metric_event list) prog" where
  "flat_map_span api now_ms value s =
     (case latin1_encode value of
        Inl e \<Rightarrow> (Inr [], count_decode_failure s)
      | Inr raw \<Rightarrow>
          (case decode_span api raw s of
             (Inl e, t) \<Rightarrow> (Inl e, t)
           | (Inr PNone, t) \<Rightarrow> (Inr [], t)
           | (Inr (PDict d), t) \<Rightarrow>
               (case metric_event_of d of
                  Inl e \<Rightarrow> (Inl e, t)
                | Inr ev \<Rightarrow>
                    if \<not> truthy (me_service_id ev) \<or> \<not> truthy (me_span_id ev)
                    then (Inr [], count_decode_failure t)
                    else if \<not> truthy (me_timestamp ev)
                    then (Inr [ev\<lparr>me_timestamp := PInt now_ms\<rparr>], t)
                    else (Inr [ev], t))
           | (Inr _, t) \<Rightarrow> (Inl AttributeError, t)))"

text \<open>
  What the operator emits: at most one event per record, always with a service id, a span id
  and an event time, and with the readings of the decoded object; a missing time becomes the time
  of arrival.
\<close>

theorem emitted_span_complete:
  assumes "flat_map_span api now_ms value s = (Inr evs, t)" and "now_ms \<noteq> 0" and "ev \<in> set evs"
  shows "evs = [ev] \<and> truthy (me_service_id ev) \<and> truthy (me_span_id ev) \<and> truthy (me_timestamp ev) \<and>
         (\<exists>raw d ev0. latin1_encode value = Inr raw \<and> fst (decode_span api raw s) = Inr (PDict d) \<and>
            metric_event_of d = Inr ev0 \<and> feature_vector ev = feature_vector ev0 \<and>
            me_span_id ev = me_span_id ev0 \<and> me_service_id ev = me_service_id ev0)"
proof -
  from assms(1,3) obtain raw where raw: "latin1_encode value = Inr raw"
    by (auto simp: flat_map_span_def split: sum.splits)
  obtain r u where dec: "decode_span api raw s = (r, u)" by fastforce
  from assms(1,3) raw dec obtain d where d: "r = Inr (PDict d)"
    by (auto simp: flat_map_span_def split: sum.splits pyval.splits)
  from assms(1,3) raw dec d obtain ev0 where ev0: "metric_event_of d = Inr ev0"
    by (auto simp: flat_map_span_def split: sum.splits)
  from assms raw dec d ev0 show ?thesis
    by (auto simp: flat_map_span_def feature_vector_def split: if_splits)
qed

text \<open>
  A record that is valid JSON but no object (a number, a string, a list) is not dropped: it
  raises \<open>AttributeError\<close> and fails the job, which restarts from the checkpoint and meets the same
  record again, although the operator promises that one bad payload cannot fail the job.
\<close>

theorem non_object_json_fails_job:
  assumes "latin1_encode value = Inr raw" and "raw \<noteq> []" and "hd raw \<noteq> 0"
    and "json_loads api raw = Inr v" and "v \<noteq> PNone" and "\<nexists>d. v = PDict d"
  shows "flat_map_span api now_ms value s = (Inl AttributeError, s)"
  using assms
  by (cases v) (auto simp: flat_map_span_def decode_span_def safe_json_loads_def)

text \<open>
  A schema is fetched once: as long as it is in the cache, Avro records of that schema are decoded
  without the registry, and a failing record changes nothing but the error counters.
\<close>

theorem cached_schema_no_registry:
  assumes "unpack_be32 (take 4 (drop 1 raw)) = Inr sid" and "schemas s sid = Some sch"
  shows "decode_avro api raw s =
           (case read_avro api sch (drop 5 raw) of
              Inr v \<Rightarrow> (Inr v, s)
            | Inl e \<Rightarrow> (Inr PNone, decode_failed e s)) \<and>
         dec_world (snd (decode_avro api raw s)) = dec_world s \<and>
         schemas (snd (decode_avro api raw s)) = schemas s"
  using assms
  by (auto simp: decode_avro_def schema_for_def bnd_def lift_res_def decode_failed_def split: sum.splits)

subsection \<open>A concrete decoder\<close>

definition ex_decoder :: "(unit, unit) decoder_api" where
  "ex_decoder =
     \<lparr>get_schema = (\<lambda>sid w. (Inr (), w)),
      read_avro = (\<lambda>sch b. if b = [] then Inl ValueError else Inr (PDict [(''span_id'', PStr ''s1''),
         (''service_id'', PStr ''svc-a''), (''timestamp'', PInt 5)])),
      json_loads = (\<lambda>b. if b = [53] then Inr (PInt 5) else Inl ValueError)\<rparr>"

definition ex_decoder_start :: "(unit, unit) decoder" where
  "ex_decoder_start =
     \<lparr>schemas = [1 \<mapsto> ()], dec_log = \<lparr>err_count = 0, err_lines = []\<rparr>, decode_failures = 0, dec_world = ()\<rparr>"

theorem decode_span_never_raises_witness: "\<exists>v. fst (decode_span ex_decoder [123] ex_decoder_start) = Inr v"
  by (rule decode_span_never_raises) (simp add: ex_decoder_def split: if_splits)

theorem non_object_json_fails_job_witness:
  "flat_map_span ex_decoder 7 [53] ex_decoder_start = (Inl AttributeError, ex_decoder_start)"
  by (rule non_object_json_fails_job [of _ "[53]" _ "PInt 5"]) (simp_all add: latin1_encode_def ex_decoder_def)

theorem cached_schema_no_registry_witness:
  "dec_world (snd (decode_avro ex_decoder [0, 0, 0, 0, 1, 9] ex_decoder_start)) = ()"
  using cached_schema_no_registry [of "[0, 0, 0, 0, 1, 9]" 1 ex_decoder_start "()" ex_decoder]
  by (simp add: ex_decoder_start_def)

lemma ex_flat_map:
  "\<exists>ev t. flat_map_span ex_decoder 7 [0, 0, 0, 0, 1, 9] ex_decoder_start = (Inr [ev], t)"
  by (simp add: flat_map_span_def latin1_encode_def decode_span_def decode_avro_def schema_for_def
      bnd_def lift_res_def ex_decoder_start_def ex_decoder_def metric_event_of_def metrics_of_def dict_defs)

theorem emitted_span_complete_witness:
  "\<exists>ev t. flat_map_span ex_decoder 7 [0, 0, 0, 0, 1, 9] ex_decoder_start = (Inr [ev], t) \<and>
     truthy (me_span_id ev)"
proof -
  from ex_flat_map obtain ev t
    where run: "flat_map_span ex_decoder 7 [0, 0, 0, 0, 1, 9] ex_decoder_start = (Inr [ev], t)" by blast
  with emitted_span_complete [OF run, of ev] show ?thesis by auto
qed

end
