(* ===== verification/Flink_Dedup.thy ===== *)
theory Flink_Dedup
  imports Prelude
begin

section \<open>Deduplication with a rotating Bloom filter\<close>

text \<open>
  \<open>flink_jobs/operators/deduplication_filter.py\<close>: a Bloom filter of two generations in front of
  Flink's keyed state with a time to live. Times are milliseconds. pybloom's filter and Flink's
  state are parameters; \<open>bf_add\<close> answers \<open>None\<close> where pybloom raises \<open>IndexError\<close>.
\<close>

subsection \<open>RotatingBloom\<close>

record 'b bloom_ops =
  bf_new :: 'b
  bf_member :: "string \<Rightarrow> 'b \<Rightarrow> bool"
  bf_add :: "string \<Rightarrow> 'b \<Rightarrow> 'b option"

record 'b rotating_bloom =
  started_ms :: int
  rotated_ms :: int
  cur_bloom :: 'b
  prev_bloom :: "'b option"

definition new_rotating :: "'b bloom_ops \<Rightarrow> int \<Rightarrow> 'b rotating_bloom" where
  "new_rotating bf now =
     \<lparr>started_ms = now, rotated_ms = now, cur_bloom = bf_new bf, prev_bloom = None\<rparr>"

definition rotate :: "'b bloom_ops \<Rightarrow> int \<Rightarrow> 'b rotating_bloom \<Rightarrow> 'b rotating_bloom" where
  "rotate bf now r = r\<lparr>prev_bloom := Some (cur_bloom r), cur_bloom := bf_new bf, rotated_ms := now\<rparr>"

definition rotate_if_due :: "'b bloom_ops \<Rightarrow> int \<Rightarrow> int \<Rightarrow> 'b rotating_bloom \<Rightarrow> 'b rotating_bloom" where
  "rotate_if_due bf ttl now r = (if now - rotated_ms r \<ge> ttl then rotate bf now r else r)"

definition is_warm :: "int \<Rightarrow> int \<Rightarrow> 'b rotating_bloom \<Rightarrow> bool" where
  "is_warm ttl now r \<longleftrightarrow> now - started_ms r \<ge> ttl"

definition maybe_contains ::
  "'b bloom_ops \<Rightarrow> int \<Rightarrow> int \<Rightarrow> string \<Rightarrow> 'b rotating_bloom \<Rightarrow> bool \<times> 'b rotating_bloom" where
  "maybe_contains bf ttl now k r =
     (let r1 = rotate_if_due bf ttl now r
      in (bf_member bf k (cur_bloom r1) \<or>
          (case prev_bloom r1 of None \<Rightarrow> False | Some p \<Rightarrow> bf_member bf k p), r1))"

text \<open>\<open>add\<close>: a full generation is replaced early; \<open>again\<close> is the clock reading of that branch.\<close>

definition bloom_add ::
  "'b bloom_ops \<Rightarrow> int \<Rightarrow> int \<Rightarrow> int \<Rightarrow> string \<Rightarrow> ('b rotating_bloom, unit) prog" where
  "bloom_add bf ttl now again k r =
     (let r1 = rotate_if_due bf ttl now r
      in case bf_add bf k (cur_bloom r1) of
           Some b \<Rightarrow> (Inr (), r1\<lparr>cur_bloom := b\<rparr>)
         | None \<Rightarrow>
             (let r2 = rotate bf again r1
              in case bf_add bf k (cur_bloom r2) of
                   Some b \<Rightarrow> (Inr (), r2\<lparr>cur_bloom := b\<rparr>)
                 | None \<Rightarrow> (Inl IndexError, r2)))"

subsection \<open>The operator\<close>

text \<open>
  Flink's \<open>ValueState\<close> of the current key with its TTL: whether a value is visible at a time, and
  an update at a time. The clock is read several times while one element is processed.
\<close>

record 's ttl_state =
  ts_visible :: "int \<Rightarrow> string \<Rightarrow> 's \<Rightarrow> bool"
  ts_update :: "int \<Rightarrow> string \<Rightarrow> 's \<Rightarrow> 's"

record readings =
  warm_at :: int
  probe_at :: int
  read_at :: int
  write_at :: int
  add_at :: int
  add_again_at :: int

record ('b, 's) dedup =
  bloom :: "'b rotating_bloom"
  seen_state :: 's
  skipped_lookups :: nat
  state_lookups :: nat
  dedup_dropped :: nat
  events_processed :: nat

text \<open>The pre-check: is the span provably new?\<close>

definition provably_new ::
  "'b bloom_ops \<Rightarrow> int \<Rightarrow> readings \<Rightarrow> string \<Rightarrow> 'b rotating_bloom \<Rightarrow> bool \<times> 'b rotating_bloom" where
  "provably_new bf ttl t k r =
     (if is_warm ttl (warm_at t) r
      then let (hit, r1) = maybe_contains bf ttl (probe_at t) k r in (\<not> hit, r1)
      else (False, r))"

text \<open>The result says whether the event is emitted.\<close>

definition process_element ::
  "'b bloom_ops \<Rightarrow> 's ttl_state \<Rightarrow> int \<Rightarrow> readings \<Rightarrow> string \<Rightarrow> (('b, 's) dedup, bool) prog" where
  "process_element bf ts ttl t k s =
     (let (new, r) = provably_new bf ttl t k (bloom s);
          dup = (\<not> new \<and> ts_visible ts (read_at t) k (seen_state s));
          s1 = (if new then s\<lparr>bloom := r, skipped_lookups := Suc (skipped_lookups s)\<rparr>
                else s\<lparr>bloom := r, state_lookups := Suc (state_lookups s)\<rparr>);
          s2 = (if dup then s1\<lparr>dedup_dropped := Suc (dedup_dropped s1)\<rparr>
                else s1\<lparr>seen_state := ts_update ts (write_at t) k (seen_state s1)\<rparr>);
          (res, r1) = bloom_add bf ttl (add_at t) (add_again_at t) k (bloom s2);
          s3 = s2\<lparr>bloom := r1\<rparr>
      in case res of
           Inl e \<Rightarrow> (Inl e, s3)
         | Inr _ \<Rightarrow> (Inr (\<not> dup),
             if dup then s3 else s3\<lparr>events_processed := Suc (events_processed s3)\<rparr>))"

subsection \<open>What the libraries document\<close>

text \<open>A Bloom filter never forgets a key it added.\<close>

definition bloom_law :: "'b bloom_ops \<Rightarrow> bool" where
  "bloom_law bf \<longleftrightarrow>
     (\<forall>k b b'. bf_add bf k b = Some b' \<longrightarrow>
        bf_member bf k b' \<and> (\<forall>j. bf_member bf j b \<longrightarrow> bf_member bf j b'))"

text \<open>A value is visible until the TTL after its last write; \<open>last_write\<close> observes the state.\<close>

definition ttl_law :: "'s ttl_state \<Rightarrow> int \<Rightarrow> ('s \<Rightarrow> string \<Rightarrow> int option) \<Rightarrow> bool" where
  "ttl_law ts ttl last_write \<longleftrightarrow>
     (\<forall>now k s. ts_visible ts now k s \<longleftrightarrow> (\<exists>w. last_write s k = Some w \<and> now - w < ttl)) \<and>
     (\<forall>now k s. last_write (ts_update ts now k s) = (last_write s)(k \<mapsto> now))"

subsection \<open>The filter covers one time to live\<close>

text \<open>
  Every key whose last addition was at \<open>a\<close> is in the current generation, or in the previous one
  and was added before the last rotation, or was dropped after at least one TTL.
\<close>

definition covers :: "'b bloom_ops \<Rightarrow> int \<Rightarrow> 'b rotating_bloom \<Rightarrow> string \<Rightarrow> int \<Rightarrow> bool" where
  "covers bf ttl r k a \<longleftrightarrow>
     bf_member bf k (cur_bloom r) \<or>
     (a \<le> rotated_ms r \<and> (case prev_bloom r of None \<Rightarrow> False | Some p \<Rightarrow> bf_member bf k p)) \<or>
     a + ttl \<le> rotated_ms r"

lemma covers_rotate_if_due:
  assumes "covers bf ttl r k a" and "a \<le> now" and "rotated_ms r \<le> now"
  shows "covers bf ttl (rotate_if_due bf ttl now r) k a"
  using assms by (auto simp: covers_def rotate_if_due_def rotate_def split: option.splits)

lemma covers_hit:
  assumes "covers bf ttl r k a" and "a \<le> now" and "rotated_ms r \<le> now" and "now - a < ttl"
  shows "fst (maybe_contains bf ttl now k r)"
proof -
  let ?r = "rotate_if_due bf ttl now r"
  have "covers bf ttl ?r k a" by (rule covers_rotate_if_due [OF assms(1-3)])
  moreover have "rotated_ms ?r \<le> now" using assms(3) by (simp add: rotate_if_due_def rotate_def)
  ultimately show ?thesis using assms(4) by (auto simp: covers_def maybe_contains_def Let_def)
qed

text \<open>Additions that fit into the current generation: no early replacement.\<close>

definition fits :: "'b bloom_ops \<Rightarrow> int \<Rightarrow> int \<Rightarrow> string \<Rightarrow> 'b rotating_bloom \<Rightarrow> bool" where
  "fits bf ttl now k r \<longleftrightarrow> bf_add bf k (cur_bloom (rotate_if_due bf ttl now r)) \<noteq> None"

lemma bloom_add_fits:
  assumes law: "bloom_law bf" and fit: "fits bf ttl now k r"
    and le: "rotated_ms r \<le> now" and add: "bloom_add bf ttl now again k r = (res, r1)"
  shows "res = Inr ()" and "rotated_ms r1 \<le> now" and "started_ms r1 = started_ms r"
    and "covers bf ttl r1 k now"
    and "\<And>j a. covers bf ttl r j a \<Longrightarrow> a \<le> now \<Longrightarrow> covers bf ttl r1 j a"
proof -
  let ?r = "rotate_if_due bf ttl now r"
  from fit obtain b where b: "bf_add bf k (cur_bloom ?r) = Some b" by (auto simp: fits_def)
  with law have mem: "bf_member bf k b" "\<And>j. bf_member bf j (cur_bloom ?r) \<Longrightarrow> bf_member bf j b"
    unfolding bloom_law_def by blast+
  from add b have r1: "res = Inr ()" "r1 = ?r\<lparr>cur_bloom := b\<rparr>" by (simp_all add: bloom_add_def Let_def)
  show "res = Inr ()" by (fact r1(1))
  show "rotated_ms r1 \<le> now" using le by (simp add: r1 rotate_if_due_def rotate_def)
  show "started_ms r1 = started_ms r" by (simp add: r1 rotate_if_due_def rotate_def)
  show "covers bf ttl r1 k now" using mem(1) by (simp add: covers_def r1)
  show "covers bf ttl r1 j a" if "covers bf ttl r j a" "a \<le> now" for j a
    using covers_rotate_if_due [OF that le] mem(2) by (auto simp: covers_def r1)
qed

subsection \<open>The pre-check never changes a decision\<close>

definition in_order :: "int \<Rightarrow> readings \<Rightarrow> bool" where
  "in_order now t \<longleftrightarrow>
     now \<le> warm_at t \<and> warm_at t \<le> probe_at t \<and> probe_at t \<le> read_at t \<and> read_at t \<le> write_at t \<and>
     write_at t \<le> add_at t"

text \<open>
  At \<open>now\<close>, every value the state holds was written in the past, and if it was written after
  this worker started, the filter covers its key at least as long.
\<close>

definition dedup_inv ::
  "'b bloom_ops \<Rightarrow> int \<Rightarrow> ('s \<Rightarrow> string \<Rightarrow> int option) \<Rightarrow> int \<Rightarrow> ('b, 's) dedup \<Rightarrow> bool" where
  "dedup_inv bf ttl last_write now s \<longleftrightarrow>
     rotated_ms (bloom s) \<le> now \<and>
     (\<forall>k w. last_write (seen_state s) k = Some w \<longrightarrow> w \<le> now \<and>
        (started_ms (bloom s) < w \<longrightarrow> (\<exists>a. w \<le> a \<and> a \<le> now \<and> covers bf ttl (bloom s) k a)))"

lemma precheck_sound:
  assumes "ttl_law ts ttl last_write" and inv: "dedup_inv bf ttl last_write now s" and ord: "in_order now t"
    and new: "fst (provably_new bf ttl t k (bloom s))"
  shows "\<not> ts_visible ts (read_at t) k (seen_state s)"
proof
  assume "ts_visible ts (read_at t) k (seen_state s)"
  with assms(1) obtain w where w: "last_write (seen_state s) k = Some w" "read_at t - w < ttl"
    by (auto simp: ttl_law_def)
  from new have warm: "warm_at t - started_ms (bloom s) \<ge> ttl"
    and miss: "\<not> fst (maybe_contains bf ttl (probe_at t) k (bloom s))"
    by (auto simp: provably_new_def is_warm_def case_prod_unfold Let_def split: if_splits)
  from warm w(2) ord have "started_ms (bloom s) < w" by (simp add: in_order_def)
  with inv w(1) obtain a where "w \<le> a" "a \<le> now" "covers bf ttl (bloom s) k a"
    by (auto simp: dedup_inv_def)
  moreover have "rotated_ms (bloom s) \<le> now" using inv by (simp add: dedup_inv_def)
  ultimately have "fst (maybe_contains bf ttl (probe_at t) k (bloom s))"
    using w(2) ord by (intro covers_hit [of bf ttl _ k a]) (simp_all add: in_order_def)
  with miss show False ..
qed

lemma provably_new_covers:
  assumes "rotated_ms r \<le> now" and "in_order now t"
  shows "started_ms (snd (provably_new bf ttl t k r)) = started_ms r"
    and "rotated_ms (snd (provably_new bf ttl t k r)) \<le> probe_at t"
    and "covers bf ttl r j a \<Longrightarrow> a \<le> now \<Longrightarrow> covers bf ttl (snd (provably_new bf ttl t k r)) j a"
proof -
  have eq: "snd (provably_new bf ttl t k r) = r \<or>
      snd (provably_new bf ttl t k r) = rotate_if_due bf ttl (probe_at t) r"
    by (auto simp: provably_new_def maybe_contains_def Let_def)
  have rot: "started_ms (rotate_if_due bf ttl (probe_at t) r) = started_ms r"
    "rotated_ms (rotate_if_due bf ttl (probe_at t) r) \<le> probe_at t"
    using assms by (simp_all add: rotate_if_due_def rotate_def in_order_def)
  show "started_ms (snd (provably_new bf ttl t k r)) = started_ms r" using eq rot(1) by metis
  show "rotated_ms (snd (provably_new bf ttl t k r)) \<le> probe_at t"
    using eq rot(2) assms by (auto simp: in_order_def)
  show "covers bf ttl (snd (provably_new bf ttl t k r)) j a" if "covers bf ttl r j a" "a \<le> now"
    using eq that covers_rotate_if_due [OF that(1), of "probe_at t"] assms
    by (auto simp: in_order_def)
qed

text \<open>The reference: no Bloom filter, the state alone decides.\<close>

definition plain_dedup :: "'s ttl_state \<Rightarrow> readings \<Rightarrow> string \<Rightarrow> 's \<Rightarrow> bool \<times> 's" where
  "plain_dedup ts t k st =
     (if ts_visible ts (read_at t) k st then (False, st) else (True, ts_update ts (write_at t) k st))"

definition generation_fits ::
  "'b bloom_ops \<Rightarrow> int \<Rightarrow> readings \<Rightarrow> string \<Rightarrow> ('b, 's) dedup \<Rightarrow> bool" where
  "generation_fits bf ttl t k s = fits bf ttl (add_at t) k (snd (provably_new bf ttl t k (bloom s)))"

lemma process_element_plain:
  assumes bl: "bloom_law bf" and tl: "ttl_law ts ttl last_write" and inv: "dedup_inv bf ttl last_write now s"
    and ord: "in_order now t" and fit: "generation_fits bf ttl t k s"
    and step: "process_element bf ts ttl t k s = (res, s1)"
  shows "res = Inr (fst (plain_dedup ts t k (seen_state s)))"
    and "seen_state s1 = snd (plain_dedup ts t k (seen_state s))"
    and "dedup_inv bf ttl last_write (add_at t) s1"
proof -
  obtain new r where pre: "provably_new bf ttl t k (bloom s) = (new, r)" by fastforce
  from inv have rot: "rotated_ms (bloom s) \<le> now" by (simp add: dedup_inv_def)
  note pn = provably_new_covers [OF rot ord, where bf = bf and ttl = ttl and k = k, unfolded pre snd_conv]
  obtain b r1 where add: "bloom_add bf ttl (add_at t) (add_again_at t) k r = (b, r1)" by fastforce
  have "rotated_ms r \<le> add_at t" using pn(2) ord by (simp add: in_order_def)
  note bf = bloom_add_fits [OF bl fit [unfolded generation_fits_def pre snd_conv] this add]
  let ?vis = "ts_visible ts (read_at t) k (seen_state s)"
  have "new \<Longrightarrow> \<not> ?vis" using precheck_sound [OF tl inv ord] pre by simp
  then have dup: "(\<not> new \<and> ?vis) = ?vis" by blast
  have res: "res = Inr (\<not> ?vis)" and s1: "bloom s1 = r1"
    "seen_state s1 = (if ?vis then seen_state s else ts_update ts (write_at t) k (seen_state s))"
    using step pre add bf(1) dup unfolding process_element_def Let_def
    by (auto split: if_splits)
  then show "res = Inr (fst (plain_dedup ts t k (seen_state s)))"
    and "seen_state s1 = snd (plain_dedup ts t k (seen_state s))"
    by (simp_all add: plain_dedup_def)
  have now: "now \<le> add_at t" "write_at t \<le> add_at t" using ord by (simp_all add: in_order_def)
  have old: "w \<le> add_at t \<and> (started_ms r1 < w \<longrightarrow> (\<exists>a. w \<le> a \<and> a \<le> add_at t \<and> covers bf ttl r1 j a))"
    if "last_write (seen_state s) j = Some w" for j w
  proof -
    from inv that have w: "w \<le> now" "started_ms (bloom s) < w \<Longrightarrow>
        \<exists>a. w \<le> a \<and> a \<le> now \<and> covers bf ttl (bloom s) j a" by (auto simp: dedup_inv_def)
    have "\<exists>a. w \<le> a \<and> a \<le> add_at t \<and> covers bf ttl r1 j a" if "started_ms (bloom s) < w"
    proof -
      from w(2) [OF that] obtain a where "w \<le> a" "a \<le> now" "covers bf ttl (bloom s) j a" by blast
      with pn(3) bf(5) now(1) show ?thesis by (meson order.trans)
    qed
    with w(1) now(1) bf(3) pn(1) show ?thesis by auto
  qed
  have law: "last_write (ts_update ts (write_at t) k (seen_state s)) =
      (last_write (seen_state s))(k \<mapsto> write_at t)"
    using tl by (simp add: ttl_law_def)
  show "dedup_inv bf ttl last_write (add_at t) s1"
    unfolding dedup_inv_def s1
  proof (intro conjI allI impI)
    show "rotated_ms r1 \<le> add_at t" by (fact bf(2))
    fix j w
    assume w: "last_write (if ?vis then seen_state s else ts_update ts (write_at t) k (seen_state s)) j = Some w"
    have "last_write (seen_state s) j = Some w \<or> (j = k \<and> w = write_at t)"
      using w by (auto simp: law split: if_splits)
    with old now bf(4) show "w \<le> add_at t"
      and "started_ms r1 < w \<Longrightarrow> \<exists>a. w \<le> a \<and> a \<le> add_at t \<and> covers bf ttl r1 j a"
      by auto
  qed
qed

subsection \<open>Runs\<close>

fun dedup_run ::
  "'b bloom_ops \<Rightarrow> 's ttl_state \<Rightarrow> int \<Rightarrow> (readings \<times> string) list \<Rightarrow> ('b, 's) dedup \<Rightarrow> (exn + bool) list" where
  "dedup_run bf ts ttl [] s = []"
| "dedup_run bf ts ttl ((t, k) # es) s =
     (let (res, s1) = process_element bf ts ttl t k s in res # dedup_run bf ts ttl es s1)"

fun plain_run :: "'s ttl_state \<Rightarrow> (readings \<times> string) list \<Rightarrow> 's \<Rightarrow> bool list" where
  "plain_run ts [] st = []"
| "plain_run ts ((t, k) # es) st =
     (let (emit, st1) = plain_dedup ts t k st in emit # plain_run ts es st1)"

text \<open>The clock never goes back, and no generation of the filter fills up.\<close>

fun readings_ordered :: "int \<Rightarrow> (readings \<times> string) list \<Rightarrow> bool" where
  "readings_ordered now [] = True"
| "readings_ordered now ((t, k) # es) \<longleftrightarrow> in_order now t \<and> readings_ordered (add_at t) es"

fun never_full ::
  "'b bloom_ops \<Rightarrow> 's ttl_state \<Rightarrow> int \<Rightarrow> (readings \<times> string) list \<Rightarrow> ('b, 's) dedup \<Rightarrow> bool" where
  "never_full bf ts ttl [] s = True"
| "never_full bf ts ttl ((t, k) # es) s \<longleftrightarrow>
     generation_fits bf ttl t k s \<and> never_full bf ts ttl es (snd (process_element bf ts ttl t k s))"

lemma dedup_run_plain:
  assumes "bloom_law bf" and "ttl_law ts ttl last_write"
    and "dedup_inv bf ttl last_write now s" and "readings_ordered now es" and "never_full bf ts ttl es s"
  shows "dedup_run bf ts ttl es s = map Inr (plain_run ts es (seen_state s))"
  using assms(3-5)
proof (induction es arbitrary: now s)
  case (Cons e es)
  obtain t k where e: "e = (t, k)" by fastforce
  obtain res s1 where step: "process_element bf ts ttl t k s = (res, s1)" by fastforce
  from Cons.prems e have "in_order now t" "generation_fits bf ttl t k s" by simp_all
  note p = process_element_plain [OF assms(1,2) Cons.prems(1) this step]
  from Cons.IH [OF p(3)] Cons.prems step e p(1,2) show ?case by (simp add: case_prod_unfold Let_def)
qed simp

definition fresh_dedup :: "'b bloom_ops \<Rightarrow> int \<Rightarrow> 's \<Rightarrow> ('b, 's) dedup" where
  "fresh_dedup bf start restored =
     \<lparr>bloom = new_rotating bf start, seen_state = restored, skipped_lookups = 0, state_lookups = 0,
      dedup_dropped = 0, events_processed = 0\<rparr>"

text \<open>
  C9. The Bloom pre-check is invisible: started at any time on any restored state, the operator emits
  exactly the spans that a filter without it would emit, one by one, whatever false positives
  occur and however often the generations rotate, as long as no generation fills up.
\<close>

theorem bloom_precheck_transparent:
  assumes "bloom_law bf" and "ttl_law ts ttl last_write"
    and "\<And>k w. last_write restored k = Some w \<Longrightarrow> w \<le> start"
    and "readings_ordered start es" and "never_full bf ts ttl es (fresh_dedup bf start restored)"
  shows "dedup_run bf ts ttl es (fresh_dedup bf start restored) = map Inr (plain_run ts es restored)"
proof -
  have "dedup_inv bf ttl last_write start (fresh_dedup bf start restored)"
    using assms(3) by (fastforce simp: dedup_inv_def fresh_dedup_def new_rotating_def)
  from dedup_run_plain [OF assms(1,2) this assms(4,5)] show ?thesis by (simp add: fresh_dedup_def)
qed

definition emitted :: "(readings \<times> string) list \<Rightarrow> (exn + bool) list \<Rightarrow> (readings \<times> string) list" where
  "emitted es outs = map fst (filter (\<lambda>(e, r). r = Inr True) (zip es outs))"

lemma emitted_Cons:
  "emitted (e # es) (r # outs) = (if r = Inr True then e # emitted es outs else emitted es outs)"
  by (simp add: emitted_def)

lemma plain_emitted_after_write:
  assumes "ttl_law ts ttl last_write"
  shows "readings_ordered now es \<Longrightarrow> (\<And>k w. last_write st k = Some w \<Longrightarrow> w \<le> now) \<Longrightarrow>
     (t', k) \<in> set (emitted es (map Inr (plain_run ts es st))) \<Longrightarrow> last_write st k = Some w \<Longrightarrow>
     ttl \<le> read_at t' - w"
proof (induction es arbitrary: now st w)
  case (Cons e es)
  obtain t j where e: "e = (t, j)" by fastforce
  obtain b st1 where p: "plain_dedup ts t j st = (b, st1)" by fastforce
  from Cons.prems(1) e have ord: "in_order now t" "readings_ordered (add_at t) es" by simp_all
  have upd: "last_write st1 = (if b then (last_write st)(j \<mapsto> write_at t) else last_write st)"
    using p assms by (auto simp: plain_dedup_def ttl_law_def split: if_splits)
  have w: "w \<le> now" using Cons.prems(2,4) by blast
  have le: "now \<le> write_at t" "write_at t \<le> add_at t" using ord(1) by (simp_all add: in_order_def)
  have bound: "v \<le> add_at t" if "last_write st1 i = Some v" for i v
    using that Cons.prems(2) le upd by (fastforce split: if_splits)
  show ?case
  proof (cases "(t', k) \<in> set (emitted es (map Inr (plain_run ts es st1)))")
    case mem: True
    show ?thesis
    proof (cases "b \<and> j = k")
      case True
      then have "last_write st1 k = Some (write_at t)" by (simp add: upd)
      from Cons.IH [OF ord(2) _ mem this] bound have "ttl \<le> read_at t' - write_at t" by blast
      with w le show ?thesis by simp
    next
      case False
      with upd Cons.prems(4) have "last_write st1 k = Some w" by auto
      from Cons.IH [OF ord(2) _ mem this] bound show ?thesis by blast
    qed
  next
    case False
    with Cons.prems(3) e p have "t' = t" "k = j" b
      by (auto simp: emitted_Cons split: if_splits)
    with p have "\<not> ts_visible ts (read_at t) j st" by (simp add: plain_dedup_def split: if_splits)
    with assms Cons.prems(4) \<open>t' = t\<close> \<open>k = j\<close> show ?thesis by (force simp: ttl_law_def)
  qed
qed (simp add: emitted_def)

lemma plain_emissions_spaced:
  assumes "ttl_law ts ttl last_write"
  shows "readings_ordered now es \<Longrightarrow> (\<And>k w. last_write st k = Some w \<Longrightarrow> w \<le> now) \<Longrightarrow>
     sorted_wrt (\<lambda>(t, k) (t', k'). k = k' \<longrightarrow> ttl \<le> read_at t' - write_at t)
       (emitted es (map Inr (plain_run ts es st)))"
proof (induction es arbitrary: now st)
  case (Cons e es)
  obtain t j where e: "e = (t, j)" by fastforce
  obtain b st1 where p: "plain_dedup ts t j st = (b, st1)" by fastforce
  from Cons.prems(1) e have ord: "in_order now t" "readings_ordered (add_at t) es" by simp_all
  have upd: "last_write st1 = (if b then (last_write st)(j \<mapsto> write_at t) else last_write st)"
    using p assms by (auto simp: plain_dedup_def ttl_law_def split: if_splits)
  have bound: "v \<le> add_at t" if "last_write st1 i = Some v" for i v
    using that Cons.prems(2) [of i v] ord(1) upd by (auto simp: in_order_def split: if_splits)
  note IH = Cons.IH [OF ord(2) bound]
  show ?case
  proof (cases b)
    case True
    then have "last_write st1 j = Some (write_at t)" by (simp add: upd)
    then have "ttl \<le> read_at t' - write_at t"
      if "(t', j) \<in> set (emitted es (map Inr (plain_run ts es st1)))" for t'
      using plain_emitted_after_write [OF assms ord(2) _ that] bound by blast
    with True IH e p show ?thesis by (auto simp: emitted_Cons)
  next
    case False
    with IH e p show ?thesis by (simp add: emitted_Cons)
  qed
qed (simp add: emitted_def)

text \<open>
  A span is emitted at most once per TTL: under the same conditions, between two emissions of one
  span id at least the TTL has passed since the first was recorded.
\<close>

theorem duplicates_suppressed:
  assumes "bloom_law bf" and "ttl_law ts ttl last_write"
    and "\<And>k w. last_write restored k = Some w \<Longrightarrow> w \<le> start"
    and "readings_ordered start es" and "never_full bf ts ttl es (fresh_dedup bf start restored)"
  shows "sorted_wrt (\<lambda>(t, k) (t', k'). k = k' \<longrightarrow> ttl \<le> read_at t' - write_at t)
           (emitted es (dedup_run bf ts ttl es (fresh_dedup bf start restored)))"
proof -
  have "dedup_inv bf ttl last_write start (fresh_dedup bf start restored)"
    using assms(3) by (fastforce simp: dedup_inv_def fresh_dedup_def new_rotating_def)
  from dedup_run_plain [OF assms(1,2) this assms(4,5)]
    plain_emissions_spaced [OF assms(2,4), of restored] assms(3)
  show ?thesis by (simp add: fresh_dedup_def)
qed

subsection \<open>Concrete filters\<close>

text \<open>An exact filter that holds \<open>n\<close> keys, and a state that remembers the last write.\<close>

definition ex_bloom :: "nat \<Rightarrow> string list bloom_ops" where
  "ex_bloom n =
     \<lparr>bf_new = [], bf_member = (\<lambda>k b. k \<in> set b),
      bf_add = (\<lambda>k b. if length b < n then Some (k # b) else None)\<rparr>"

definition ex_state :: "int \<Rightarrow> (string \<rightharpoonup> int) ttl_state" where
  "ex_state ttl =
     \<lparr>ts_visible = (\<lambda>now k s. case s k of None \<Rightarrow> False | Some w \<Rightarrow> now - w < ttl),
      ts_update = (\<lambda>now k s. s(k \<mapsto> now))\<rparr>"

definition ex_at :: "int \<Rightarrow> readings" where
  "ex_at n = \<lparr>warm_at = n, probe_at = n, read_at = n, write_at = n, add_at = n, add_again_at = n\<rparr>"

definition ex_spans :: "(readings \<times> string) list" where
  "ex_spans = [(ex_at 700, ''a''), (ex_at 701, ''b''), (ex_at 702, ''a'')]"

lemma ex_bloom_law: "bloom_law (ex_bloom n)"
  by (auto simp: bloom_law_def ex_bloom_def split: if_splits)

lemma ex_ttl_law: "ttl_law (ex_state ttl) ttl (\<lambda>s. s)"
  by (auto simp: ttl_law_def ex_state_def split: option.splits)

lemmas dedup_eval = process_element_def provably_new_def maybe_contains_def rotate_if_due_def rotate_def
  is_warm_def bloom_add_def fresh_dedup_def new_rotating_def ex_bloom_def ex_state_def ex_at_def
  generation_fits_def fits_def in_order_def plain_dedup_def Let_def ex_spans_def

theorem bloom_precheck_transparent_witness:
  "dedup_run (ex_bloom 5) (ex_state 600) 600 ex_spans (fresh_dedup (ex_bloom 5) 0 Map.empty) =
     map Inr (plain_run (ex_state 600) ex_spans Map.empty) \<and>
   plain_run (ex_state 600) ex_spans Map.empty = [True, True, False]"
proof
  show "dedup_run (ex_bloom 5) (ex_state 600) 600 ex_spans (fresh_dedup (ex_bloom 5) 0 Map.empty) =
     map Inr (plain_run (ex_state 600) ex_spans Map.empty)"
    by (rule bloom_precheck_transparent [OF ex_bloom_law ex_ttl_law]) (simp_all add: dedup_eval)
qed (simp add: dedup_eval)

theorem duplicates_suppressed_witness:
  "sorted_wrt (\<lambda>(t, k) (t', k'). k = k' \<longrightarrow> 600 \<le> read_at t' - write_at t)
     (emitted ex_spans (dedup_run (ex_bloom 5) (ex_state 600) 600 ex_spans (fresh_dedup (ex_bloom 5) 0 Map.empty)))"
  by (rule duplicates_suppressed [OF ex_bloom_law ex_ttl_law]) (simp_all add: dedup_eval)

text \<open>
  When a generation fills up within a TTL, keys of the last TTL are forgotten although the
  comment promises that the union holds them all: with room for one key, three spans in a burst
  push the first out, and its duplicate 3 ms later is taken as provably new and emitted again.
\<close>

theorem burst_forgets_recent_spans:
  "dedup_run (ex_bloom 1) (ex_state 600) 600
     [(ex_at 700, ''a''), (ex_at 701, ''b''), (ex_at 702, ''c''), (ex_at 703, ''a'')]
     (fresh_dedup (ex_bloom 1) 0 Map.empty) =
   map Inr [True, True, True, True]"
  by (simp add: dedup_eval)

end
