(* ===== verification/Flink_Sinks.thy ===== *)
theory Flink_Sinks
  imports Kafka_Json
begin

section \<open>The side sinks of the Flink job\<close>

text \<open>
  \<open>flink_jobs/sinks/timescaledb_sink.py\<close> and \<open>redis_sink.py\<close>: idempotent inserts that are retried
  with a new connection and then raised, and the best-effort top-k. PostgreSQL and Redis are
  parameters; rows are what the inserts identify by their conflict target.
\<close>

subsection \<open>TimescaleDBSink\<close>

record 'w tsdb_api =
  pg_connect :: "('w, unit) prog"
  create_index :: "('w, unit) prog"
  index_exists :: "('w, bool) prog"
  pg_commit :: "('w, unit) prog"
  pg_rollback :: "('w, unit) prog"
  pg_close :: "('w, unit) prog"
  pg_closed :: "'w \<Rightarrow> bool"
  pg_sleep :: "real \<Rightarrow> 'w \<Rightarrow> 'w"

text \<open>\<open>conn_set\<close>: \<open>self._conn\<close> is not \<open>None\<close>.\<close>

record 'w tsdb =
  conn_set :: bool
  idempotent_metrics :: bool
  tsdb_world :: 'w

definition on_tsdb :: "('w, 'a) prog \<Rightarrow> ('w tsdb, 'a) prog" where
  "on_tsdb p s = (let (r, w) = p (tsdb_world s) in (r, s\<lparr>tsdb_world := w\<rparr>))"

definition ensure_unique_index :: "'w tsdb_api \<Rightarrow> ('w tsdb, unit) prog" where
  "ensure_unique_index api =
     bnd (catch (bnd (on_tsdb (create_index api)) (\<lambda>_. on_tsdb (pg_commit api)))
            (\<lambda>_. on_tsdb (pg_rollback api))) (\<lambda>_.
     bnd (on_tsdb (index_exists api)) (\<lambda>b.
     bnd (modify (\<lambda>s. s\<lparr>idempotent_metrics := b\<rparr>)) (\<lambda>_. on_tsdb (pg_commit api))))"

definition tsdb_open :: "'w tsdb_api \<Rightarrow> ('w tsdb, unit) prog" where
  "tsdb_open api =
     bnd (on_tsdb (pg_connect api)) (\<lambda>_.
     bnd (modify (\<lambda>s. s\<lparr>conn_set := True\<rparr>)) (\<lambda>_. ensure_unique_index api))"

definition ensure_conn :: "'w tsdb_api \<Rightarrow> ('w tsdb, unit) prog" where
  "ensure_conn api s =
     (if \<not> conn_set s \<or> pg_closed api (tsdb_world s) then tsdb_open api s else (Inr (), s))"

definition reset_conn :: "'w tsdb_api \<Rightarrow> 'w tsdb \<Rightarrow> 'w tsdb" where
  "reset_conn api s =
     (let t = (if conn_set s then snd (on_tsdb (pg_close api) s) else s) in t\<lparr>conn_set := False\<rparr>)"

text \<open>The \<open>except\<close> branch: roll back on a live connection, and reset when that fails too.\<close>

definition undo :: "'w tsdb_api \<Rightarrow> 'w tsdb \<Rightarrow> 'w tsdb" where
  "undo api s =
     (if conn_set s \<and> \<not> pg_closed api (tsdb_world s)
      then (case on_tsdb (pg_rollback api) s of (Inr _, t) \<Rightarrow> t | (Inl _, t) \<Rightarrow> reset_conn api t)
      else s)"

definition tsdb_attempts :: nat where
  "tsdb_attempts = 3"

definition try_once :: "'w tsdb_api \<Rightarrow> ('w, unit) prog \<Rightarrow> ('w tsdb, unit) prog" where
  "try_once api oper =
     bnd (ensure_conn api) (\<lambda>_. bnd (on_tsdb oper) (\<lambda>_. on_tsdb (pg_commit api)))"

text \<open>
  \<open>run_left api oper n l\<close>: \<open>n\<close> attempts are left and \<open>l\<close> is the last error; the attempt number is
  \<open>tsdb_attempts - n + 1\<close>.
\<close>

fun run_left :: "'w tsdb_api \<Rightarrow> ('w, unit) prog \<Rightarrow> nat \<Rightarrow> exn \<Rightarrow> ('w tsdb, unit) prog" where
  "run_left api oper 0 l s = (Inl l, s)"
| "run_left api oper (Suc n) l s =
     (case try_once api oper s of
        (Inr _, t) \<Rightarrow> (Inr (), t)
      | (Inl e, t) \<Rightarrow>
          (let u = undo api t
           in run_left api oper n e
                (if n > 0
                 then (reset_conn api u)\<lparr>tsdb_world :=
                        pg_sleep api (real (tsdb_attempts - n) / 2) (tsdb_world (reset_conn api u))\<rparr>
                 else u)))"

definition tsdb_run :: "'w tsdb_api \<Rightarrow> ('w, unit) prog \<Rightarrow> ('w tsdb, unit) prog" where
  "tsdb_run api oper = run_left api oper tsdb_attempts TypeError"

subsection \<open>What is inserted\<close>

text \<open>One row of \<open>metrics\<close> per metric that has a value; the flag names the conflict target.\<close>

definition metric_rows :: "pydict \<Rightarrow> exn + (pyval \<times> pyval \<times> string \<times> pyval) list" where
  "metric_rows aggregate =
     rbind (dict_item aggregate ''timestamp_iso'') (\<lambda>ts.
     rbind (dict_item aggregate ''service_id'') (\<lambda>sid.
     Inr (map (\<lambda>(name, v). (ts, sid, name, v))
       (filter (\<lambda>(name, v). v \<noteq> PNone)
          [(''cpu_percent'', dict_get aggregate ''cpu_mean''),
           (''latency_p99'', dict_get aggregate ''latency_p99''),
           (''error_rate'', dict_get aggregate ''error_rate_mean''),
           (''request_rate'', dict_get aggregate ''request_rate_mean'')]))))"

definition write_metric ::
  "'w tsdb_api \<Rightarrow> (bool \<Rightarrow> (pyval \<times> pyval \<times> string \<times> pyval) list \<Rightarrow> ('w, unit) prog) \<Rightarrow>
     pydict \<Rightarrow> ('w tsdb, unit) prog" where
  "write_metric api insert_metrics aggregate s =
     (case metric_rows aggregate of
        Inl e \<Rightarrow> (Inl e, s)
      | Inr rows \<Rightarrow> tsdb_run api (insert_metrics (idempotent_metrics s) rows) s)"

record anomaly_row =
  ar_id :: string
  ar_detected_at :: string
  ar_service_id :: string
  ar_anomaly_type :: string
  ar_severity :: int
  ar_model_used :: string
  ar_reconstruction_error :: "real option"

definition write_anomaly ::
  "'w tsdb_api \<Rightarrow> (anomaly_row \<Rightarrow> ('w, unit) prog) \<Rightarrow> anomaly_row \<Rightarrow> ('w tsdb, unit) prog" where
  "write_anomaly api insert_anomaly row = tsdb_run api (insert_anomaly row)"

subsection \<open>RedisTopKSink\<close>

definition topk_key :: string where
  "topk_key = ''anomaly_scores''"

definition topk_size :: int where
  "topk_size = 100"

text \<open>
  \<open>zadd_and_trim key member score from to\<close> is the pipeline of \<open>ZADD\<close> and \<open>ZREMRANGEBYRANK\<close>; a
  \<open>redis.RedisError\<close> is the named external error. \<open>now\<close> is read in the \<open>except\<close> branch only.
\<close>

definition redis_error :: exn where
  "redis_error = ExternalError ''RedisError''"

definition topk_member :: "string \<Rightarrow> string \<Rightarrow> int \<Rightarrow> string" where
  "topk_member sid ty detected = sid @ ''|'' @ ty @ ''|'' @ int_str detected"

definition record_anomaly ::
  "(string \<Rightarrow> string \<Rightarrow> real \<Rightarrow> int \<Rightarrow> int \<Rightarrow> ('w, unit) prog) \<Rightarrow> real \<Rightarrow>
     string \<Rightarrow> string \<Rightarrow> int \<Rightarrow> real \<Rightarrow> (log_state \<times> 'w, bool) prog" where
  "record_anomaly zadd_and_trim now sid ty detected score s =
     (let (lg, w) = s in
      case zadd_and_trim topk_key (topk_member sid ty detected) score 0 (- topk_size - 1) w of
        (Inr _, w1) \<Rightarrow> (Inr True, (lg, w1))
      | (Inl e, w1) \<Rightarrow>
          if e = redis_error
          then (Inr False, (log_throttled now ''[RedisTopKSink] write failed - top-k not updated'' lg, w1))
          else (Inl e, (lg, w1)))"

subsection \<open>A retried write is exactly once\<close>

text \<open>
  The database seen from outside: the committed rows and the rows of the open transaction. A
  commit that raises may or may not have been applied, one that returns and a rollback that returns end the
  transaction; only the operation itself adds rows to it.
\<close>

definition between :: "'r set \<Rightarrow> 'r set \<Rightarrow> 'r set \<Rightarrow> bool" where
  "between a x b \<longleftrightarrow> a \<subseteq> x \<and> x \<subseteq> b"

definition harmless ::
  "('w \<Rightarrow> 'r set) \<Rightarrow> ('w \<Rightarrow> 'r set) \<Rightarrow> ('w, 'a) prog \<Rightarrow> bool" where
  "harmless stored pend p \<longleftrightarrow>
     (\<forall>w. stored (snd (p w)) = stored w \<and> pend (snd (p w)) \<subseteq> pend w)"

definition tsdb_law :: "'w tsdb_api \<Rightarrow> ('w \<Rightarrow> 'r set) \<Rightarrow> ('w \<Rightarrow> 'r set) \<Rightarrow> bool" where
  "tsdb_law api stored pend \<longleftrightarrow>
     harmless stored pend (pg_connect api) \<and> harmless stored pend (create_index api) \<and>
     harmless stored pend (index_exists api) \<and> harmless stored pend (pg_rollback api) \<and>
     harmless stored pend (pg_close api) \<and>
     (\<forall>d w. stored (pg_sleep api d w) = stored w \<and> pend (pg_sleep api d w) = pend w) \<and>
     (\<forall>w. between (stored w) (stored (snd (pg_commit api w))) (stored w \<union> pend w) \<and>
          pend (snd (pg_commit api w)) \<subseteq> pend w \<and>
          (fst (pg_commit api w) = Inr () \<longrightarrow>
             stored (snd (pg_commit api w)) = stored w \<union> pend w \<and> pend (snd (pg_commit api w)) = {})) \<and>
     (\<forall>w. fst (pg_rollback api w) = Inr () \<longrightarrow> pend (snd (pg_rollback api w)) = {})"

definition writes :: "('w \<Rightarrow> 'r set) \<Rightarrow> ('w \<Rightarrow> 'r set) \<Rightarrow> ('w, unit) prog \<Rightarrow> 'r set \<Rightarrow> bool" where
  "writes stored pend oper rows \<longleftrightarrow>
     (\<forall>w. stored (snd (oper w)) = stored w \<and> pend (snd (oper w)) \<subseteq> pend w \<union> rows \<and>
          (fst (oper w) = Inr () \<longrightarrow> pend (snd (oper w)) = pend w \<union> rows))"

text \<open>What every step of a retried write of \<open>rows\<close> keeps.\<close>

definition write_inv :: "('w \<Rightarrow> 'r set) \<Rightarrow> ('w \<Rightarrow> 'r set) \<Rightarrow> 'r set \<Rightarrow> 'r set \<Rightarrow> 'w tsdb \<Rightarrow> bool" where
  "write_inv stored pend old rows s \<longleftrightarrow>
     between old (stored (tsdb_world s)) (old \<union> rows) \<and> pend (tsdb_world s) \<subseteq> rows"

definition keeps_inv ::
  "('w \<Rightarrow> 'r set) \<Rightarrow> ('w \<Rightarrow> 'r set) \<Rightarrow> 'r set \<Rightarrow> 'r set \<Rightarrow> ('w tsdb, 'a) prog \<Rightarrow> bool" where
  "keeps_inv stored pend old rows p \<longleftrightarrow>
     (\<forall>s. write_inv stored pend old rows s \<longrightarrow> write_inv stored pend old rows (snd (p s)))"

lemma keeps_bnd [intro]:
  assumes "keeps_inv stored pend old rows p" and "\<And>x. keeps_inv stored pend old rows (f x)"
  shows "keeps_inv stored pend old rows (bnd p f)"
  unfolding keeps_inv_def
proof (intro allI impI)
  fix s assume "write_inv stored pend old rows s"
  moreover obtain r t where p: "p s = (r, t)" by fastforce
  ultimately have "write_inv stored pend old rows t"
    using assms(1) unfolding keeps_inv_def by (metis snd_conv)
  with assms(2) p show "write_inv stored pend old rows (snd (bnd p f s))"
    by (cases r) (simp_all add: bnd_def keeps_inv_def)
qed

lemma keeps_catch [intro]:
  assumes "keeps_inv stored pend old rows p" and "\<And>e. keeps_inv stored pend old rows (h e)"
  shows "keeps_inv stored pend old rows (catch p h)"
  unfolding keeps_inv_def
proof (intro allI impI)
  fix s assume "write_inv stored pend old rows s"
  moreover obtain r t where p: "p s = (r, t)" by fastforce
  ultimately have "write_inv stored pend old rows t"
    using assms(1) unfolding keeps_inv_def by (metis snd_conv)
  with assms(2) p show "write_inv stored pend old rows (snd (catch p h s))"
    by (cases r) (simp_all add: catch_def keeps_inv_def)
qed

lemma write_inv_on_tsdb:
  "write_inv stored pend old rows (snd (on_tsdb p s)) \<longleftrightarrow>
     between old (stored (snd (p (tsdb_world s)))) (old \<union> rows) \<and> pend (snd (p (tsdb_world s))) \<subseteq> rows"
  by (simp add: on_tsdb_def case_prod_unfold Let_def write_inv_def)

lemma keeps_harmless: "harmless stored pend p \<Longrightarrow> keeps_inv stored pend old rows (on_tsdb p)"
  unfolding keeps_inv_def harmless_def write_inv_def on_tsdb_def by (simp add: case_prod_unfold Let_def) blast

lemma keeps_modify:
  "(\<And>s. tsdb_world (f s) = tsdb_world s) \<Longrightarrow> keeps_inv stored pend old rows (modify f)"
  by (simp add: keeps_inv_def write_inv_def modify_def)

lemma tsdb_law_keeps:
  assumes "tsdb_law api stored pend"
  shows "keeps_inv stored pend old rows (on_tsdb (pg_connect api))"
    and "keeps_inv stored pend old rows (on_tsdb (create_index api))"
    and "keeps_inv stored pend old rows (on_tsdb (index_exists api))"
    and "keeps_inv stored pend old rows (on_tsdb (pg_rollback api))"
    and "keeps_inv stored pend old rows (on_tsdb (pg_close api))"
    and "keeps_inv stored pend old rows (on_tsdb (pg_commit api))"
proof -
  from assms have h: "harmless stored pend (pg_connect api)" "harmless stored pend (create_index api)"
    "harmless stored pend (index_exists api)" "harmless stored pend (pg_rollback api)"
    "harmless stored pend (pg_close api)" by (simp_all add: tsdb_law_def)
  show "keeps_inv stored pend old rows (on_tsdb (pg_connect api))" by (rule keeps_harmless [OF h(1)])
  show "keeps_inv stored pend old rows (on_tsdb (create_index api))" by (rule keeps_harmless [OF h(2)])
  show "keeps_inv stored pend old rows (on_tsdb (index_exists api))" by (rule keeps_harmless [OF h(3)])
  show "keeps_inv stored pend old rows (on_tsdb (pg_rollback api))" by (rule keeps_harmless [OF h(4)])
  show "keeps_inv stored pend old rows (on_tsdb (pg_close api))" by (rule keeps_harmless [OF h(5)])
  have commit: "between (stored w) (stored (snd (pg_commit api w))) (stored w \<union> pend w)"
    "pend (snd (pg_commit api w)) \<subseteq> pend w" for w
    using assms by (simp_all add: tsdb_law_def)
  show "keeps_inv stored pend old rows (on_tsdb (pg_commit api))"
    unfolding keeps_inv_def write_inv_on_tsdb
  proof (intro allI impI)
    fix s :: "'a tsdb"
    assume "write_inv stored pend old rows s"
    with commit [of "tsdb_world s"]
    show "between old (stored (snd (pg_commit api (tsdb_world s)))) (old \<union> rows) \<and>
        pend (snd (pg_commit api (tsdb_world s))) \<subseteq> rows"
      by (auto simp: write_inv_def between_def)
  qed
qed

lemma keeps_open: "tsdb_law api stored pend \<Longrightarrow> keeps_inv stored pend old rows (tsdb_open api)"
  unfolding tsdb_open_def ensure_unique_index_def
  by (intro keeps_bnd keeps_catch tsdb_law_keeps keeps_modify) simp_all

lemma keeps_ensure_conn: "tsdb_law api stored pend \<Longrightarrow> keeps_inv stored pend old rows (ensure_conn api)"
  using keeps_open [of api stored pend old rows] by (simp add: keeps_inv_def ensure_conn_def)

lemma keeps_writes:
  assumes "writes stored pend oper rows"
  shows "keeps_inv stored pend old rows (on_tsdb oper)"
  unfolding keeps_inv_def write_inv_on_tsdb
proof (intro allI impI)
  fix s :: "'a tsdb"
  assume "write_inv stored pend old rows s"
  moreover from assms have "stored (snd (oper (tsdb_world s))) = stored (tsdb_world s)"
    "pend (snd (oper (tsdb_world s))) \<subseteq> pend (tsdb_world s) \<union> rows" by (simp_all add: writes_def)
  ultimately show "between old (stored (snd (oper (tsdb_world s)))) (old \<union> rows) \<and>
      pend (snd (oper (tsdb_world s))) \<subseteq> rows" by (auto simp: write_inv_def)
qed

lemma keeps_try_once:
  "tsdb_law api stored pend \<Longrightarrow> writes stored pend oper rows \<Longrightarrow>
     keeps_inv stored pend old rows (try_once api oper)"
  unfolding try_once_def by (intro keeps_bnd keeps_ensure_conn keeps_writes tsdb_law_keeps)

lemma try_once_done:
  assumes law: "tsdb_law api stored pend" and op: "writes stored pend oper rows"
    and inv: "write_inv stored pend old rows s" and run: "try_once api oper s = (Inr (), t)"
  shows "stored (tsdb_world t) = old \<union> rows"
proof -
  from run obtain s1 s2 where s1: "ensure_conn api s = (Inr (), s1)"
    and s2: "on_tsdb oper s1 = (Inr (), s2)" and t: "on_tsdb (pg_commit api) s2 = (Inr (), t)"
    by (auto simp: try_once_def bnd_def split: prod.splits sum.splits)
  from keeps_ensure_conn [OF law, of old rows] inv s1 have "write_inv stored pend old rows s1"
    unfolding keeps_inv_def by (metis snd_conv)
  then have "between old (stored (tsdb_world s1)) (old \<union> rows)" "pend (tsdb_world s1) \<subseteq> rows"
    by (simp_all add: write_inv_def)
  moreover from s2 have "fst (oper (tsdb_world s1)) = Inr ()" "tsdb_world s2 = snd (oper (tsdb_world s1))"
    by (auto simp: on_tsdb_def Let_def split: prod.splits)
  with op have "stored (tsdb_world s2) = stored (tsdb_world s1)"
    "pend (tsdb_world s2) = pend (tsdb_world s1) \<union> rows" by (simp_all add: writes_def)
  moreover from t have "fst (pg_commit api (tsdb_world s2)) = Inr ()"
    "tsdb_world t = snd (pg_commit api (tsdb_world s2))"
    by (auto simp: on_tsdb_def Let_def split: prod.splits)
  with law have "stored (tsdb_world t) = stored (tsdb_world s2) \<union> pend (tsdb_world s2)"
    by (simp add: tsdb_law_def)
  ultimately show ?thesis by (auto simp: between_def)
qed

lemma undo_inv:
  assumes law: "tsdb_law api stored pend" and inv: "write_inv stored pend old rows s"
  shows "write_inv stored pend old rows (reset_conn api s)" and "write_inv stored pend old rows (undo api s)"
proof -
  have reset: "write_inv stored pend old rows (reset_conn api u)" if "write_inv stored pend old rows u" for u
    using tsdb_law_keeps(5) [OF law, of old rows] that
    by (auto simp: reset_conn_def keeps_inv_def write_inv_def Let_def)
  show "write_inv stored pend old rows (reset_conn api s)" by (rule reset [OF inv])
  obtain r t where rb: "on_tsdb (pg_rollback api) s = (r, t)" by fastforce
  with tsdb_law_keeps(4) [OF law, of old rows] inv have "write_inv stored pend old rows t"
    unfolding keeps_inv_def by (metis snd_conv)
  with rb inv reset show "write_inv stored pend old rows (undo api s)"
    by (cases r) (simp_all add: undo_def)
qed

text \<open>The loop of \<open>_run\<close> is a bounded retry; giving up after the last attempt is preceded by the rollback only.\<close>

definition recover :: "'w tsdb_api \<Rightarrow> nat \<Rightarrow> 'w tsdb \<Rightarrow> 'w tsdb" where
  "recover api n t =
     (let u = undo api t
      in if n > 0
         then (reset_conn api u)\<lparr>tsdb_world := pg_sleep api (real (tsdb_attempts - n) / 2) (tsdb_world (reset_conn api u))\<rparr>
         else u)"

interpretation tsdb_retry: bounded_retry "try_once api oper" "recover api" "run_left api oper" Inr Inl "\<lambda>e. e" for api oper
  by unfold_locales (simp_all add: recover_def Let_def split: prod.split sum.split)

lemma run_left_inv:
  assumes law: "tsdb_law api stored pend" and op: "writes stored pend oper rows"
    and inv: "write_inv stored pend old rows s" and run: "run_left api oper n l s = (r, t)"
  shows "write_inv stored pend old rows t \<and> (r = Inr () \<longrightarrow> stored (tsdb_world t) = old \<union> rows)"
proof -
  have once: "write_inv stored pend old rows (snd (try_once api oper u))" if "write_inv stored pend old rows u" for u
    using keeps_try_once [OF law op, of old] that by (simp add: keeps_inv_def)
  have "stored (pg_sleep api d w) = stored w \<and> pend (pg_sleep api d w) = pend w" for d w
    using law by (simp add: tsdb_law_def)
  then have "write_inv stored pend old rows (recover api k u)" if "write_inv stored pend old rows u" for k u
    using undo_inv(2) [OF law that] undo_inv(1) [OF law undo_inv(2) [OF law that]]
    by (simp add: recover_def Let_def write_inv_def)
  from tsdb_retry.loop_outcome [where ok = "write_inv stored pend old rows", OF once this inv run]
  show ?thesis using once try_once_done [OF law op] by (metis Inl_Inr_False old.unit.exhaust snd_conv)
qed

text \<open>What the next write may rely on: no transaction is open on a connection it would use.\<close>

definition no_open_rows :: "'w tsdb_api \<Rightarrow> ('w \<Rightarrow> 'r set) \<Rightarrow> 'w tsdb \<Rightarrow> bool" where
  "no_open_rows api pend s \<longleftrightarrow> (conn_set s \<and> \<not> pg_closed api (tsdb_world s) \<longrightarrow> pend (tsdb_world s) = {})"

lemma reset_conn_set [simp]: "conn_set (reset_conn api s) = False"
  by (simp add: reset_conn_def Let_def)

lemma undo_no_open_rows:
  assumes "tsdb_law api stored pend"
  shows "no_open_rows api pend (undo api s)"
proof -
  obtain r w where rb: "pg_rollback api (tsdb_world s) = (r, w)" by fastforce
  have "fst (pg_rollback api (tsdb_world s)) = Inr () \<longrightarrow> pend (snd (pg_rollback api (tsdb_world s))) = {}"
    using assms by (simp add: tsdb_law_def)
  with rb show ?thesis by (cases r) (auto simp: undo_def no_open_rows_def on_tsdb_def)
qed

lemma try_once_closes:
  assumes "tsdb_law api stored pend" and "try_once api oper s = (Inr (), t)"
  shows "pend (tsdb_world t) = {}"
proof -
  from assms(2) obtain s2 where "on_tsdb (pg_commit api) s2 = (Inr (), t)"
    by (auto simp: try_once_def bnd_def split: prod.splits sum.splits)
  then have "fst (pg_commit api (tsdb_world s2)) = Inr ()" "tsdb_world t = snd (pg_commit api (tsdb_world s2))"
    by (auto simp: on_tsdb_def Let_def split: prod.splits)
  with assms(1) show ?thesis by (simp add: tsdb_law_def)
qed

lemma run_left_no_open_rows:
  assumes law: "tsdb_law api stored pend" and "no_open_rows api pend s" and "run_left api oper n l s = (r, t)"
  shows "no_open_rows api pend t"
proof -
  from tsdb_retry.loop_outcome [where ok = "\<lambda>_. True", OF _ _ _ assms(3)]
  consider u where "try_once api oper u = (Inr (), t)" | "t = s" | u where "t = recover api 0 u" by auto
  then show ?thesis
    using assms(2) try_once_closes [OF law] undo_no_open_rows [OF law] by cases (auto simp: no_open_rows_def recover_def)
qed


text \<open>A database that drops the first connection after the statement, then works.\<close>

definition ex_pg :: "(nat \<times> string set \<times> string set) tsdb_api" where
  "ex_pg =
     \<lparr>pg_connect = (\<lambda>(n, d, p). (Inr (), (n, d, {}))), create_index = (\<lambda>w. (Inr (), w)),
      index_exists = (\<lambda>w. (Inr True, w)),
      pg_commit = (\<lambda>(n, d, p). if n = 0 \<and> p \<noteq> {} then (Inl (ExternalError ''OperationalError''), (1, d \<union> p, {}))
                               else (Inr (), (n, d \<union> p, {}))),
      pg_rollback = (\<lambda>(n, d, p). (Inr (), (n, d, {}))), pg_close = (\<lambda>w. (Inr (), w)),
      pg_closed = (\<lambda>w. False), pg_sleep = (\<lambda>t w. w)\<rparr>"

definition ex_insert :: "(nat \<times> string set \<times> string set, unit) prog" where
  "ex_insert w = (case w of (n, d, p) \<Rightarrow> (Inr (), (n, d, insert ''row'' p)))"

lemma ex_pg_law: "tsdb_law ex_pg (fst \<circ> snd) (snd \<circ> snd)"
  by (auto simp: tsdb_law_def harmless_def ex_pg_def between_def split: if_splits)

lemma ex_insert_writes: "writes (fst \<circ> snd) (snd \<circ> snd) ex_insert {''row''}"
  by (auto simp: writes_def ex_insert_def)

lemma ex_pg_run:
  "tsdb_run ex_pg ex_insert \<lparr>conn_set = False, idempotent_metrics = False, tsdb_world = (0, {}, {})\<rparr> =
     (Inr (), \<lparr>conn_set = True, idempotent_metrics = True, tsdb_world = (1, {''row''}, {})\<rparr>)"
  by (simp add: tsdb_run_def tsdb_attempts_def numeral_3_eq_3 try_once_def ensure_conn_def tsdb_open_def
      ensure_unique_index_def on_tsdb_def ex_pg_def ex_insert_def undo_def reset_conn_def prog_defs Let_def)


end
