(* ===== verification/Flink_Windows.thy ===== *)
theory Flink_Windows
  imports Flink_Sinks
begin

section \<open>The windows of the Flink job\<close>

text \<open>
  \<open>flink_jobs/operators/zscore_trigger.py\<close>, \<open>window_aggregator.py\<close> and \<open>models/anomaly_event.py\<close>:
  the tumbling aggregate, the z-score test of the latest event of a sliding window, the
  anomaly it builds and the side effects of the window functions. NumPy and \<open>uuid5\<close> are parameters.
\<close>

subsection \<open>NumPy\<close>

record numpy =
  np_mean :: "real list \<Rightarrow> real"
  np_std :: "real list \<Rightarrow> real"
  np_max :: "real list \<Rightarrow> real"
  np_percentile :: "real list \<Rightarrow> real \<Rightarrow> real"
  np_argmax :: "real list \<Rightarrow> nat"

text \<open>What NumPy documents on non-empty arrays: population deviation, first maximum.\<close>

definition numpy_law :: "numpy \<Rightarrow> bool" where
  "numpy_law np \<longleftrightarrow>
     (\<forall>xs. xs \<noteq> [] \<longrightarrow>
        np_mean np xs = mean xs \<and>
        np_std np xs = sqrt (mean (map (\<lambda>x. (x - mean xs)\<^sup>2) xs)) \<and>
        np_max np xs = Max (set xs) \<and>
        (\<forall>q. 0 \<le> q \<longrightarrow> q \<le> 100 \<longrightarrow> Min (set xs) \<le> np_percentile np xs q \<and> np_percentile np xs q \<le> Max (set xs)) \<and>
        np_argmax np xs < length xs \<and> (\<forall>x \<in> set xs. x \<le> xs ! np_argmax np xs))"

subsection \<open>The z-score test\<close>

text \<open>The numeric view of a \<open>MetricEvent\<close>: \<open>np.array(..., dtype=float)\<close> of its four readings.\<close>

record span =
  sp_time :: int
  sp_cpu :: real
  sp_latency :: real
  sp_errors :: real
  sp_requests :: real
  sp_trace_id :: string
  sp_span_id :: string

record metric_field =
  mf_value :: "span \<Rightarrow> real"
  mf_type :: string
  mf_direction :: real

text \<open>\<open>METRIC_FIELDS\<close>, \<open>ANOMALY_TYPES\<close> and \<open>DIRECTION\<close>.\<close>

definition metric_fields :: "metric_field list" where
  "metric_fields =
     [\<lparr>mf_value = sp_cpu, mf_type = ''CPU_SPIKE'', mf_direction = 1\<rparr>,
      \<lparr>mf_value = sp_latency, mf_type = ''LATENCY_BURST'', mf_direction = 1\<rparr>,
      \<lparr>mf_value = sp_errors, mf_type = ''ERROR_RATE_SPIKE'', mf_direction = 1\<rparr>,
      \<lparr>mf_value = sp_requests, mf_type = ''REQUEST_DROP'', mf_direction = - 1\<rparr>]"

definition zscore_threshold :: real where
  "zscore_threshold = 3"

definition min_window_events :: nat where
  "min_window_events = 10"

definition slide_interval_seconds :: int where
  "slide_interval_seconds = 30"

text \<open>One column of \<open>z\<close>: the row's value against the distribution of the window.\<close>

definition z_score :: "numpy \<Rightarrow> span list \<Rightarrow> span \<Rightarrow> metric_field \<Rightarrow> real" where
  "z_score np events e f =
     (mf_value f e - np_mean np (map (mf_value f) events)) /
     (np_std np (map (mf_value f) events) + 1 / 10 ^ 9)"

definition toward_anomaly :: "numpy \<Rightarrow> span list \<Rightarrow> span \<Rightarrow> real list" where
  "toward_anomaly np events e =
     map (\<lambda>f. z_score np events e f * mf_direction f) metric_fields"

record candidate =
  cand_type :: string
  cand_z :: real
  cand_event :: span

text \<open>\<open>row\<close>: the first of the events with the latest timestamp.\<close>

definition evaluate_window ::
  "numpy \<Rightarrow> real \<Rightarrow> nat \<Rightarrow> span list \<Rightarrow> int \<Rightarrow> exn + candidate option" where
  "evaluate_window np threshold min_events events new_from_ms =
     (if length events < min_events then Inr None
      else rbind (py_max_key (\<lambda>i. sp_time (events ! i)) [0..<length events]) (\<lambda>row.
        let e = events ! row in
        if sp_time e < new_from_ms then Inr None
        else
          let toward = toward_anomaly np events e;
              col = np_argmax np toward;
              f = metric_fields ! col
          in if toward ! col \<le> threshold then Inr None
             else Inr (Some \<lparr>cand_type = mf_type f, cand_z = py_round 4 (z_score np events e f),
                             cand_event = e\<rparr>)))"

subsection \<open>The anomaly\<close>

definition compute_severity :: "real \<Rightarrow> int" where
  "compute_severity s =
     (if s \<ge> 9 / 10 then 5 else if s \<ge> 75 / 100 then 4 else if s \<ge> 55 / 100 then 3
      else if s \<ge> 35 / 100 then 2 else 1)"

record anomaly_event =
  ae_service_id :: string
  ae_type :: string
  ae_severity :: int
  ae_score :: real
  ae_model :: string
  ae_detected_at :: int
  ae_id :: string
  ae_reconstruction_error :: "real option"
  ae_z_score :: "real option"
  ae_trace_id :: "string option"
  ae_span_id :: "string option"

definition opt_val :: "('a \<Rightarrow> pyval) \<Rightarrow> 'a option \<Rightarrow> pyval" where
  "opt_val f x = (case x of None \<Rightarrow> PNone | Some y \<Rightarrow> f y)"

definition anomaly_dict :: "anomaly_event \<Rightarrow> pydict" where
  "anomaly_dict a =
     [(''id'', PStr (ae_id a)), (''service_id'', PStr (ae_service_id a)),
      (''anomaly_type'', PStr (ae_type a)), (''severity'', PInt (ae_severity a)),
      (''anomaly_score'', PFloat (ae_score a)), (''model_used'', PStr (ae_model a)),
      (''detected_at'', PInt (ae_detected_at a)),
      (''reconstruction_error'', opt_val PFloat (ae_reconstruction_error a)),
      (''z_score'', opt_val PFloat (ae_z_score a)),
      (''trace_id'', opt_val PStr (ae_trace_id a)), (''span_id'', opt_val PStr (ae_span_id a))]"

text \<open>\<open>uuid5\<close> is \<open>str(uuid.uuid5(uuid.NAMESPACE_URL, name))\<close>, a function of the name.\<close>

definition build_anomaly :: "(string \<Rightarrow> string) \<Rightarrow> string \<Rightarrow> candidate \<Rightarrow> anomaly_event" where
  "build_anomaly uuid5 sid c =
     (let e = cand_event c; z = cand_z c; score = min 1 (\<bar>z\<bar> / 10)
      in \<lparr>ae_service_id = sid, ae_type = cand_type c, ae_severity = compute_severity score,
          ae_score = score, ae_model = ''ZSCORE'', ae_detected_at = sp_time e,
          ae_id = uuid5 (''distrosense/anomaly/'' @ sid @ ''/'' @ int_str (sp_time e) @ ''/'' @ cand_type c),
          ae_reconstruction_error = None, ae_z_score = Some z,
          ae_trace_id = Some (sp_trace_id e), ae_span_id = Some (sp_span_id e)\<rparr>)"

subsection \<open>The window functions\<close>

record 'w window_env =
  we_numpy :: numpy
  we_uuid5 :: "string \<Rightarrow> string"
  we_iso_utc :: "int \<Rightarrow> string"
  we_tsdb :: "'w tsdb_api"
  we_insert_anomaly :: "anomaly_row \<Rightarrow> ('w, unit) prog"
  we_insert_metrics :: "bool \<Rightarrow> (pyval \<times> pyval \<times> string \<times> pyval) list \<Rightarrow> ('w, unit) prog"
  we_zadd_and_trim :: "string \<Rightarrow> string \<Rightarrow> real \<Rightarrow> int \<Rightarrow> int \<Rightarrow> ('w, unit) prog"

record 'w window_state =
  ws_tsdb :: "'w tsdb"
  ws_topk_log :: log_state
  ws_anomalies :: "string \<Rightarrow> nat"
  ws_flushed :: nat

definition anomaly_row_of :: "(int \<Rightarrow> string) \<Rightarrow> string \<Rightarrow> anomaly_event \<Rightarrow> anomaly_row" where
  "anomaly_row_of to_iso sid a =
     \<lparr>ar_id = ae_id a, ar_detected_at = to_iso (ae_detected_at a), ar_service_id = sid,
      ar_anomaly_type = ae_type a, ar_severity = ae_severity a, ar_model_used = ae_model a,
      ar_reconstruction_error = None\<rparr>"

text \<open>
  \<open>ZScoreWindowFunction.process\<close>: the emitted JSON objects. \<open>now\<close> is the clock that the Redis
  error log reads.
\<close>

definition zscore_process ::
  "'w window_env \<Rightarrow> real \<Rightarrow> string \<Rightarrow> int \<Rightarrow> span list \<Rightarrow> ('w window_state, pydict list) prog" where
  "zscore_process env now key window_end events s =
     (case evaluate_window (we_numpy env) zscore_threshold min_window_events events
             (window_end - slide_interval_seconds * 1000) of
        Inl e \<Rightarrow> (Inl e, s)
      | Inr None \<Rightarrow> (Inr [], s)
      | Inr (Some c) \<Rightarrow>
          (let a = build_anomaly (we_uuid5 env) key c;
               s1 = s\<lparr>ws_anomalies := (ws_anomalies s)(ae_type a := Suc (ws_anomalies s (ae_type a)))\<rparr>
           in case write_anomaly (we_tsdb env) (we_insert_anomaly env)
                     (anomaly_row_of (we_iso_utc env) key a) (ws_tsdb s1) of
                (Inl e, t) \<Rightarrow> (Inl e, s1\<lparr>ws_tsdb := t\<rparr>)
              | (Inr _, t) \<Rightarrow>
                  (case record_anomaly (we_zadd_and_trim env) now (ae_service_id a) (ae_type a)
                          (ae_detected_at a) (ae_score a) (ws_topk_log s1, tsdb_world t) of
                     (Inl e, (lg, w)) \<Rightarrow> (Inl e, s1\<lparr>ws_tsdb := t\<lparr>tsdb_world := w\<rparr>, ws_topk_log := lg\<rparr>)
                   | (Inr _, (lg, w)) \<Rightarrow>
                       (Inr [anomaly_dict a], s1\<lparr>ws_tsdb := t\<lparr>tsdb_world := w\<rparr>, ws_topk_log := lg\<rparr>))))"

definition aggregate_events :: "numpy \<Rightarrow> string \<Rightarrow> int \<Rightarrow> int \<Rightarrow> span list \<Rightarrow> pydict" where
  "aggregate_events np sid start end_ms events =
     [(''service_id'', PStr sid), (''window_start_ms'', PInt start), (''window_end_ms'', PInt end_ms),
      (''cpu_mean'', PFloat (np_mean np (map sp_cpu events))),
      (''cpu_max'', PFloat (np_max np (map sp_cpu events))),
      (''latency_p99'', PFloat (np_percentile np (map sp_latency events) 99)),
      (''latency_mean'', PFloat (np_mean np (map sp_latency events))),
      (''error_rate_mean'', PFloat (np_mean np (map sp_errors events))),
      (''request_rate_mean'', PFloat (np_mean np (map sp_requests events))),
      (''span_count'', PInt (int (length events)))]"

definition aggregate_process ::
  "'w window_env \<Rightarrow> string \<Rightarrow> int \<Rightarrow> int \<Rightarrow> span list \<Rightarrow> ('w window_state, pydict list) prog" where
  "aggregate_process env key start end_ms events s =
     (if events = [] then (Inr [], s)
      else let aggregate = aggregate_events (we_numpy env) key start end_ms events
           in case write_metric (we_tsdb env) (we_insert_metrics env)
                     (aggregate @ [(''timestamp_iso'', PStr (we_iso_utc env end_ms))]) (ws_tsdb s) of
                (Inl e, t) \<Rightarrow> (Inl e, s\<lparr>ws_tsdb := t\<rparr>)
              | (Inr _, t) \<Rightarrow> (Inr [aggregate], s\<lparr>ws_tsdb := t, ws_flushed := Suc (ws_flushed s)\<rparr>))"

subsection \<open>What an anomaly means\<close>

lemma argmax_toward:
  assumes "numpy_law np" and "events \<noteq> []"
  shows "np_argmax np (toward_anomaly np events e) < length metric_fields"
    and "f \<in> set metric_fields \<Longrightarrow> z_score np events e f * mf_direction f \<le>
           toward_anomaly np events e ! np_argmax np (toward_anomaly np events e)"
proof -
  have ne: "toward_anomaly np events e \<noteq> []" by (simp add: toward_anomaly_def metric_fields_def)
  with assms(1) have "np_argmax np (toward_anomaly np events e) < length (toward_anomaly np events e)"
    and max: "\<forall>x \<in> set (toward_anomaly np events e).
      x \<le> toward_anomaly np events e ! np_argmax np (toward_anomaly np events e)"
    unfolding numpy_law_def by blast+
  then show "np_argmax np (toward_anomaly np events e) < length metric_fields"
    by (simp add: toward_anomaly_def)
  show "f \<in> set metric_fields \<Longrightarrow> z_score np events e f * mf_direction f \<le>
      toward_anomaly np events e ! np_argmax np (toward_anomaly np events e)"
    using max by (auto simp: toward_anomaly_def)
qed

text \<open>The parts of an evaluation that found an anomaly.\<close>

lemma evaluate_elim:
  assumes "numpy_law np" and "evaluate_window np threshold min_events events nf = Inr (Some c)"
  obtains f where "f \<in> set metric_fields" and "cand_type c = mf_type f"
    and "cand_event c \<in> set events" and "\<forall>e \<in> set events. sp_time e \<le> sp_time (cand_event c)"
    and "nf \<le> sp_time (cand_event c)" and "min_events \<le> length events"
    and "threshold < z_score np events (cand_event c) f * mf_direction f"
    and "cand_z c = py_round 4 (z_score np events (cand_event c) f)"
proof -
  from assms(2) have len: "min_events \<le> length events"
    by (auto simp: evaluate_window_def split: if_splits)
  from assms(2) len obtain row where row: "py_max_key (\<lambda>i. sp_time (events ! i)) [0..<length events] = Inr row"
    by (auto simp: evaluate_window_def rbind_def split: sum.splits if_splits)
  note max = py_max_key_Inr [OF row]
  from max(1) have r: "row < length events" by simp
  let ?e = "events ! row"
  let ?t = "toward_anomaly np events ?e"
  let ?f = "metric_fields ! np_argmax np ?t"
  from assms(2) len row have *: "\<not> sp_time ?e < nf" "\<not> ?t ! np_argmax np ?t \<le> threshold"
    "c = \<lparr>cand_type = mf_type ?f, cand_z = py_round 4 (z_score np events ?e ?f), cand_event = ?e\<rparr>"
    by (auto simp: evaluate_window_def Let_def split: if_splits)
  have col: "np_argmax np ?t < length metric_fields"
    by (rule argmax_toward(1) [OF assms(1)]) (use r in auto)
  then have "?t ! np_argmax np ?t = z_score np events ?e ?f * mf_direction ?f"
    by (simp add: toward_anomaly_def)
  moreover have "\<forall>e \<in> set events. sp_time e \<le> sp_time ?e"
    using max(2) by (auto simp: in_set_conv_nth)
  ultimately show thesis using * r col len by (intro that [of ?f]) auto
qed

lemma metric_direction: "f \<in> set metric_fields \<Longrightarrow> \<bar>mf_direction f\<bar> = 1"
  by (auto simp: metric_fields_def)

text \<open>
  C35. An anomaly is what the design says: it concerns the latest event of the window, which is new in
  this slide, and the metric named by its type lies more than the threshold times the (slightly
  widened) standard deviation from the mean of the window, upwards for CPU, latency and errors
  and downwards for the request rate.
\<close>

theorem anomaly_sound:
  assumes "numpy_law np" and "evaluate_window np threshold min_events events nf = Inr (Some c)"
  shows "cand_event c \<in> set events \<and> nf \<le> sp_time (cand_event c) \<and>
         (\<forall>e \<in> set events. sp_time e \<le> sp_time (cand_event c)) \<and>
         (\<exists>f \<in> set metric_fields. cand_type c = mf_type f \<and>
            threshold * (sqrt (mean (map (\<lambda>x. (x - mean (map (mf_value f) events))\<^sup>2) (map (mf_value f) events))) + 1 / 10 ^ 9)
            < (mf_value f (cand_event c) - mean (map (mf_value f) events)) * mf_direction f)"
proof -
  from assms obtain f where f: "f \<in> set metric_fields" "cand_type c = mf_type f"
    "cand_event c \<in> set events" "\<forall>e \<in> set events. sp_time e \<le> sp_time (cand_event c)"
    "nf \<le> sp_time (cand_event c)"
    "threshold < z_score np events (cand_event c) f * mf_direction f" by (rule evaluate_elim)
  let ?xs = "map (mf_value f) events"
  let ?d = "sqrt (mean (map (\<lambda>x. (x - mean ?xs)\<^sup>2) ?xs)) + 1 / 10 ^ 9"
  from f(3) have "?xs \<noteq> []" by auto
  with assms(1) have np: "np_mean np ?xs = mean ?xs"
    "np_std np ?xs = sqrt (mean (map (\<lambda>x. (x - mean ?xs)\<^sup>2) ?xs))"
    unfolding numpy_law_def by blast+
  have "0 \<le> mean (map (\<lambda>x. (x - mean ?xs)\<^sup>2) ?xs)"
    by (auto simp: mean_def intro!: divide_nonneg_nonneg sum_list_nonneg)
  then have d: "0 < ?d" by (intro add_nonneg_pos) simp_all
  have "z_score np events (cand_event c) f * mf_direction f =
      (mf_value f (cand_event c) - mean ?xs) * mf_direction f / ?d"
    by (simp add: z_score_def np)
  with f(6) d have "threshold * ?d < (mf_value f (cand_event c) - mean ?xs) * mf_direction f"
    by (simp add: pos_less_divide_eq)
  with f show ?thesis by blast
qed

subsection \<open>How large a z-score can be\<close>

lemma sum_list_shift_square:
  fixes e :: "real list"
  shows "sum_list (map (\<lambda>x. (x - a)\<^sup>2) e) =
     sum_list (map (\<lambda>x. x\<^sup>2) e) - 2 * a * sum_list e + real (length e) * a\<^sup>2"
  by (induction e) (simp_all add: power2_eq_square algebra_simps)

lemma sum_list_cauchy:
  fixes e :: "real list"
  shows "(sum_list e)\<^sup>2 \<le> real (length e) * sum_list (map (\<lambda>x. x\<^sup>2) e)"
proof (induction e)
  case (Cons a e)
  have "0 \<le> sum_list (map (\<lambda>x. (x - a)\<^sup>2) e)" by (auto intro!: sum_list_nonneg)
  then have "2 * a * sum_list e \<le> sum_list (map (\<lambda>x. x\<^sup>2) e) + real (length e) * a\<^sup>2"
    by (simp add: sum_list_shift_square)
  with Cons show ?case by (simp add: power2_eq_square algebra_simps)
qed simp

lemma deviations_sum_zero: "xs \<noteq> [] \<Longrightarrow> sum_list (map (\<lambda>x. x - mean xs) xs) = 0"
proof -
  have "sum_list (map (\<lambda>x. x - c) ys) = sum_list ys - real (length ys) * c" for c and ys :: "real list"
    by (induction ys) (simp_all add: algebra_simps)
  then show "xs \<noteq> [] \<Longrightarrow> ?thesis" by (simp add: mean_def)
qed

text \<open>Samuelson's inequality: no value is further than \<open>sqrt (n - 1)\<close> deviations from the mean.\<close>

lemma samuelson:
  assumes "x \<in> set xs"
  shows "(x - mean xs)\<^sup>2 \<le> real (length xs - 1) * mean (map (\<lambda>y. (y - mean xs)\<^sup>2) xs)"
proof -
  let ?m = "mean xs"
  from assms obtain us vs where xs: "xs = us @ x # vs" by (meson split_list)
  let ?rest = "map (\<lambda>y. y - ?m) (us @ vs)" and ?Q = "sum_list (map (\<lambda>y. (y - ?m)\<^sup>2) xs)"
  have n: "real (length xs) = real (length (us @ vs)) + 1" "length xs - 1 = length (us @ vs)"
    by (simp_all add: xs)
  have "sum_list (map (\<lambda>y. y - ?m) xs) = sum_list ?rest + (x - ?m)" by (simp add: xs)
  then have "sum_list ?rest = - (x - ?m)" using deviations_sum_zero [of xs] xs by simp
  with sum_list_cauchy [of ?rest] have "(x - ?m)\<^sup>2 \<le> real (length (us @ vs)) * sum_list (map (\<lambda>d. d\<^sup>2) ?rest)"
    by (simp add: power2_commute)
  also have "sum_list (map (\<lambda>d. d\<^sup>2) ?rest) = ?Q - (x - ?m)\<^sup>2" by (simp add: xs comp_def)
  finally have "(x - ?m)\<^sup>2 * real (length xs) \<le> real (length (us @ vs)) * ?Q"
    by (simp add: n(1) algebra_simps)
  moreover have "0 < real (length xs)" by (simp add: xs)
  ultimately show ?thesis unfolding n(2) by (simp add: mean_def pos_le_divide_eq)
qed

lemma z_score_bound:
  assumes "numpy_law np" and "e \<in> set events" and "\<bar>mf_direction f\<bar> = 1"
  shows "z_score np events e f * mf_direction f \<le> sqrt (real (length events - 1))"
proof -
  let ?xs = "map (mf_value f) events"
  let ?x = "mf_value f e" and ?v = "mean (map (\<lambda>y. (y - mean ?xs)\<^sup>2) ?xs)"
  from assms(2) have "?xs \<noteq> []" by auto
  with assms(1) have np: "np_mean np ?xs = mean ?xs" "np_std np ?xs = sqrt ?v"
    unfolding numpy_law_def by blast+
  have v: "0 \<le> ?v" by (auto simp: mean_def intro!: divide_nonneg_nonneg sum_list_nonneg)
  have "(?x - mean ?xs)\<^sup>2 \<le> real (length events - 1) * ?v"
    using samuelson [of ?x ?xs] assms(2) by simp
  then have "\<bar>?x - mean ?xs\<bar> \<le> sqrt (real (length events - 1) * ?v)"
    by (metis real_sqrt_abs real_sqrt_le_iff)
  also have "\<dots> \<le> sqrt (real (length events - 1)) * (sqrt ?v + 1 / 10 ^ 9)"
    by (simp add: real_sqrt_mult mult_left_mono)
  finally have le: "\<bar>?x - mean ?xs\<bar> \<le> sqrt (real (length events - 1)) * (sqrt ?v + 1 / 10 ^ 9)" .
  have d: "0 < sqrt ?v + 1 / 10 ^ 9" using v by (intro add_nonneg_pos) simp_all
  have "z_score np events e f * mf_direction f \<le> \<bar>z_score np events e f * mf_direction f\<bar>" by simp
  also have "\<dots> = \<bar>?x - mean ?xs\<bar> / (sqrt ?v + 1 / 10 ^ 9)"
    using d by (simp add: z_score_def np abs_mult assms(3))
  also have "\<dots> \<le> sqrt (real (length events - 1))"
    using le d by (simp add: pos_divide_le_eq)
  finally show ?thesis .
qed

text \<open>
  A window needs at least 11 events to be anomalous: with 10 events, the configured minimum, no
  value can be more than 3 standard deviations from the mean, so the minimum of 10 is in effect
  11.
\<close>

theorem anomaly_needs_eleven_events:
  assumes "numpy_law np"
    and "evaluate_window np zscore_threshold min_window_events events nf = Inr (Some c)"
  shows "11 \<le> length events"
proof -
  from assms obtain f where f: "f \<in> set metric_fields" "cand_event c \<in> set events"
    "zscore_threshold < z_score np events (cand_event c) f * mf_direction f" by (rule evaluate_elim)
  with z_score_bound [OF assms(1) f(2) metric_direction [OF f(1)]]
  have "sqrt 9 < sqrt (real (length events - 1))" by (simp add: zscore_threshold_def)
  then have "9 < real (length events - 1)" by (simp only: real_sqrt_less_iff)
  then show ?thesis by linarith
qed

subsection \<open>Each event is judged once\<close>

text \<open>The ends of the sliding windows are the multiples of the slide; a window holds what lies before its end.\<close>

definition window_end :: "int \<Rightarrow> bool" where
  "window_end t \<longleftrightarrow> slide_interval_seconds * 1000 dvd t"

text \<open>
  No anomaly is reported twice: if one event is found anomalous in two of the overlapping 5-minute
  windows, they are the same window.
\<close>

theorem event_judged_once:
  assumes "numpy_law np" and "window_end t1" and "window_end t2"
    and "\<forall>e \<in> set evs1. sp_time e < t1" and "\<forall>e \<in> set evs2. sp_time e < t2"
    and "evaluate_window np th n evs1 (t1 - slide_interval_seconds * 1000) = Inr (Some c1)"
    and "evaluate_window np th n evs2 (t2 - slide_interval_seconds * 1000) = Inr (Some c2)"
    and "cand_event c1 = cand_event c2"
  shows "t1 = t2"
proof -
  let ?s = "sp_time (cand_event c1)"
  from assms(1,6) obtain f where "cand_event c1 \<in> set evs1" "t1 - slide_interval_seconds * 1000 \<le> ?s"
    by (rule evaluate_elim)
  moreover from assms(1,7) obtain g where "cand_event c2 \<in> set evs2"
    "t2 - slide_interval_seconds * 1000 \<le> sp_time (cand_event c2)" by (rule evaluate_elim)
  ultimately have "t1 - 30000 \<le> ?s" "?s < t1" "t2 - 30000 \<le> ?s" "?s < t2"
    using assms(4,5,8) by (auto simp: slide_interval_seconds_def)
  moreover from assms(2,3) have dvd: "30000 dvd t1" "30000 dvd t2"
    by (simp_all add: window_end_def slide_interval_seconds_def)
  from dvd(1) obtain k1 where "t1 = 30000 * k1" by (elim dvdE)
  moreover from dvd(2) obtain k2 where "t2 = 30000 * k2" by (elim dvdE)
  ultimately have "k1 < k2 + 1" "k2 < k1 + 1" by linarith+
  with \<open>t1 = 30000 * k1\<close> \<open>t2 = 30000 * k2\<close> show ?thesis by simp
qed

subsection \<open>Severity\<close>

lemma compute_severity_bounds: "1 \<le> compute_severity s \<and> compute_severity s \<le> 5"
  by (simp add: compute_severity_def)

lemma compute_severity_mono: "s \<le> t \<Longrightarrow> compute_severity s \<le> compute_severity t"
  by (simp add: compute_severity_def)

text \<open>
  The anomaly built from a detection has a score between 0.3 and 1 and a severity between 1 and 5 that
  never decreases with the score; its z-score is negative exactly for a drop of the request
  rate, and its time, trace and span are those of the event.
\<close>

theorem built_anomaly_in_range:
  assumes "numpy_law np"
    and "evaluate_window np zscore_threshold min_window_events events nf = Inr (Some c)"
    and "a = build_anomaly uuid5 sid c"
  shows "3 / 10 \<le> ae_score a \<and> ae_score a \<le> 1 \<and> 1 \<le> ae_severity a \<and> ae_severity a \<le> 5 \<and>
         (\<forall>s \<ge> ae_score a. ae_severity a \<le> compute_severity s) \<and>
         (cand_z c < 0 \<longleftrightarrow> ae_type a = ''REQUEST_DROP'') \<and>
         ae_detected_at a = sp_time (cand_event c) \<and> ae_span_id a = Some (sp_span_id (cand_event c))"
proof -
  from assms(1,2) obtain f where f: "f \<in> set metric_fields" "cand_type c = mf_type f"
    "zscore_threshold < z_score np events (cand_event c) f * mf_direction f"
    "cand_z c = py_round 4 (z_score np events (cand_event c) f)" by (rule evaluate_elim)
  let ?z = "z_score np events (cand_event c) f"
  have round3: "py_round 4 3 = 3" "py_round 4 (- 3) = - 3"
    using py_round_int [of 4 3] py_round_int [of 4 "- 3"] by simp_all
  have z: "3 \<le> \<bar>cand_z c\<bar> \<and> (cand_z c < 0 \<longleftrightarrow> cand_type c = ''REQUEST_DROP'')"
  proof (cases "mf_direction f = 1")
    case True
    with f(3) have "3 \<le> ?z" by (simp add: zscore_threshold_def)
    from py_round_mono [OF this, of 4] round3 f(4) have "3 \<le> cand_z c" by simp
    moreover have "cand_type c \<noteq> ''REQUEST_DROP''" using f(1,2) True by (auto simp: metric_fields_def)
    ultimately show ?thesis by simp
  next
    case False
    with f(1) have "mf_direction f = - 1" "mf_type f = ''REQUEST_DROP''" by (auto simp: metric_fields_def)
    with f(3) have "?z \<le> - 3" by (simp add: zscore_threshold_def)
    from py_round_mono [OF this, of 4] round3 f(4) have "cand_z c \<le> - 3" by simp
    with f(2) \<open>mf_type f = _\<close> show ?thesis by simp
  qed
  obtain sc where sc: "sc = min 1 (\<bar>cand_z c\<bar> / 10)" by blast
  with z have range: "3 / 10 \<le> sc" "sc \<le> 1" by (simp_all add: min_def)
  have a: "ae_score a = sc" "ae_severity a = compute_severity sc" "ae_type a = cand_type c"
    "ae_detected_at a = sp_time (cand_event c)" "ae_span_id a = Some (sp_span_id (cand_event c))"
    by (simp_all add: assms(3) build_anomaly_def Let_def sc)
  have mono: "\<forall>s \<ge> sc. compute_severity sc \<le> compute_severity s" using compute_severity_mono by blast
  show ?thesis
    unfolding a
  proof (intro conjI)
    show "3 / 10 \<le> sc" and "sc \<le> 1" by (fact range)+
    show "1 \<le> compute_severity sc" and "compute_severity sc \<le> 5"
      using compute_severity_bounds [of sc] by simp_all
    show "\<forall>s \<ge> sc. compute_severity sc \<le> compute_severity s" by (fact mono)
    show "(cand_z c < 0) = (cand_type c = ''REQUEST_DROP'')" using z by (rule conjunct2)
  qed (rule refl)+
qed

subsection \<open>Replayed windows\<close>

text \<open>Redis does not touch the database.\<close>

definition env_law :: "'w window_env \<Rightarrow> ('w \<Rightarrow> anomaly_row set) \<Rightarrow> ('w \<Rightarrow> anomaly_row set) \<Rightarrow> bool" where
  "env_law env stored pend \<longleftrightarrow>
     tsdb_law (we_tsdb env) stored pend \<and>
     (\<forall>row. writes stored pend (we_insert_anomaly env row) {row}) \<and>
     (\<forall>k m x i j w. stored (snd (we_zadd_and_trim env k m x i j w)) = stored w \<and>
        (fst (we_zadd_and_trim env k m x i j w) = Inr () \<or>
         fst (we_zadd_and_trim env k m x i j w) = Inl redis_error))"

lemma record_anomaly_total:
  assumes "env_law env stored pend" and "record_anomaly (we_zadd_and_trim env) now sid ty d x (lg, w) = (r, (lg1, w1))"
  shows "(\<exists>b. r = Inr b) \<and> stored w1 = stored w"
proof -
  obtain q w2 where q: "we_zadd_and_trim env topk_key (topk_member sid ty d) x 0 (- topk_size - 1) w = (q, w2)"
    by fastforce
  from assms(1) have "\<forall>k m x i j w. stored (snd (we_zadd_and_trim env k m x i j w)) = stored w \<and>
      (fst (we_zadd_and_trim env k m x i j w) = Inr () \<or>
       fst (we_zadd_and_trim env k m x i j w) = Inl redis_error)"
    unfolding env_law_def by (elim conjE)
  note law = this [rule_format, of topk_key "topk_member sid ty d" x 0 "- topk_size - 1" w, unfolded q]
  then have same: "stored w2 = stored w" and "q = Inr () \<or> q = Inl redis_error" by simp_all
  from this(2) show ?thesis
  proof
    assume "q = Inr ()"
    with assms(2) same show ?thesis by (auto simp: record_anomaly_def q)
  next
    assume "q = Inl redis_error"
    with assms(2) have "r = Inr False" "w1 = w2" unfolding record_anomaly_def by (simp_all add: q)
    with same show ?thesis by simp
  qed
qed

lemma zscore_process_effect:
  assumes env: "env_law env stored pend" and clean: "pend (tsdb_world (ws_tsdb s)) = {}"
    and run: "zscore_process env now key wend events s = (Inr out, s1)"
  shows "(\<exists>c. evaluate_window (we_numpy env) zscore_threshold min_window_events events
               (wend - slide_interval_seconds * 1000) = Inr c \<and>
             out = (case c of None \<Rightarrow> [] | Some x \<Rightarrow> [anomaly_dict (build_anomaly (we_uuid5 env) key x)]) \<and>
             stored (tsdb_world (ws_tsdb s1)) = stored (tsdb_world (ws_tsdb s)) \<union>
               (case c of None \<Rightarrow> {} | Some x \<Rightarrow>
                  {anomaly_row_of (we_iso_utc env) key (build_anomaly (we_uuid5 env) key x)}))"
proof (cases "evaluate_window (we_numpy env) zscore_threshold min_window_events events
               (wend - slide_interval_seconds * 1000)")
  case (Inl e)
  with run show ?thesis by (simp add: zscore_process_def)
next
  case (Inr c)
  show ?thesis
  proof (cases c)
    case None
    with Inr run show ?thesis by (simp add: zscore_process_def)
  next
    case (Some x)
    let ?a = "build_anomaly (we_uuid5 env) key x"
    let ?row = "anomaly_row_of (we_iso_utc env) key ?a"
    obtain r t where w: "write_anomaly (we_tsdb env) (we_insert_anomaly env) ?row (ws_tsdb s) = (r, t)"
      by fastforce
    obtain q lg w1 where k: "record_anomaly (we_zadd_and_trim env) now (ae_service_id ?a) (ae_type ?a)
        (ae_detected_at ?a) (ae_score ?a) (ws_topk_log s, tsdb_world t) = (q, (lg, w1))"
      by (metis prod.exhaust)
    have "r \<noteq> Inl e" for e
      using run by (auto simp: zscore_process_def Let_def Inr Some w)
    then obtain u where r: "r = Inr u" by (cases r) auto
    from env have law: "tsdb_law (we_tsdb env) stored pend" "writes stored pend (we_insert_anomaly env ?row) {?row}"
      by (simp_all add: env_law_def)
    have "write_inv stored pend (stored (tsdb_world (ws_tsdb s))) {?row} (ws_tsdb s)"
      using clean by (auto simp: write_inv_def between_def)
    from run_left_inv [OF law this] w r
    have t: "stored (tsdb_world t) = stored (tsdb_world (ws_tsdb s)) \<union> {?row}"
      by (simp add: write_anomaly_def tsdb_run_def)
    from record_anomaly_total [OF env k] obtain b where "q = Inr b" "stored w1 = stored (tsdb_world t)" by blast
    then have b: "q = Inr b" and w1: "stored w1 = stored (tsdb_world t)" by simp_all
    from run have "out = [anomaly_dict ?a]" "tsdb_world (ws_tsdb s1) = w1"
      unfolding zscore_process_def Let_def Inr Some by (auto simp: w r k b)
    with Inr Some t w1 show ?thesis by simp
  qed
qed

text \<open>
  C19. Replaying a window is harmless: when Flink fires the same window again after a failure, the same
  records are emitted, whatever happened in between, and an anomaly row that the first firing
  stored is not stored a second time.
\<close>

theorem replayed_window_idempotent:
  assumes "env_law env stored pend"
    and "pend (tsdb_world (ws_tsdb s)) = {}" and "pend (tsdb_world (ws_tsdb u)) = {}"
    and "zscore_process env now key wend events s = (Inr out, s1)"
    and "stored (tsdb_world (ws_tsdb s1)) \<subseteq> stored (tsdb_world (ws_tsdb u))"
    and "zscore_process env later key wend events u = (Inr out2, u1)"
  shows "out2 = out \<and> stored (tsdb_world (ws_tsdb u1)) = stored (tsdb_world (ws_tsdb u))"
  using zscore_process_effect [OF assms(1,2,4)] zscore_process_effect [OF assms(1,3,6)] assms(5)
  by (auto split: option.splits)

text \<open>
  The aggregate of a non-empty window is consistent: each mean lies between the extremes of its metric, the
  99th percentile does not exceed the maximum latency, and all four metrics are written.
\<close>

theorem aggregate_consistent:
  assumes "numpy_law np" and "events \<noteq> []"
    and "agg = aggregate_events np sid start end_ms events"
  shows "length (case metric_rows (agg @ [(''timestamp_iso'', ts)]) of Inl _ \<Rightarrow> [] | Inr rows \<Rightarrow> rows) = 4 \<and>
         (\<exists>m. map_of agg ''cpu_mean'' = Some (PFloat m) \<and>
            Min (set (map sp_cpu events)) \<le> m \<and> m \<le> Max (set (map sp_cpu events)) \<and>
            map_of agg ''cpu_max'' = Some (PFloat (Max (set (map sp_cpu events))))) \<and>
         (\<exists>p. map_of agg ''latency_p99'' = Some (PFloat p) \<and> p \<le> Max (set (map sp_latency events))) \<and>
         map_of agg ''span_count'' = Some (PInt (int (length events)))"
proof -
  have bounds: "Min (set xs) \<le> mean xs \<and> mean xs \<le> Max (set xs)" if "xs \<noteq> []" for xs
  proof -
    from that have n: "0 < real (length xs)" by simp
    have "sum_list (map (\<lambda>_. Min (set xs)) xs) \<le> sum_list (map (\<lambda>x. x) xs)"
      "sum_list (map (\<lambda>x. x) xs) \<le> sum_list (map (\<lambda>_. Max (set xs)) xs)"
      by (rule sum_list_mono; simp)+
    then have "real (length xs) * Min (set xs) \<le> sum_list xs" "sum_list xs \<le> real (length xs) * Max (set xs)"
      by (simp_all add: sum_list_triv)
    with n show ?thesis by (simp add: mean_def pos_le_divide_eq pos_divide_le_eq mult.commute)
  qed
  have cpu: "map sp_cpu events \<noteq> []" and lat: "map sp_latency events \<noteq> []" using assms(2) by simp_all
  have np: "np_mean np xs = mean xs" "np_max np xs = Max (set xs)" "np_percentile np xs 99 \<le> Max (set xs)"
    if "xs \<noteq> []" for xs
    using assms(1) that unfolding numpy_law_def by (simp_all add: numpy_law_def)
  show ?thesis
    unfolding assms(3) aggregate_events_def
    using np [OF cpu] np(3) [OF lat] bounds [OF cpu] by (simp add: metric_rows_def dict_defs)
qed

subsection \<open>A concrete window\<close>

text \<open>An instance of NumPy, and sixteen idle events followed by a spike.\<close>

definition ex_numpy :: numpy where
  "ex_numpy =
     \<lparr>np_mean = mean, np_std = (\<lambda>xs. sqrt (mean (map (\<lambda>x. (x - mean xs)\<^sup>2) xs))),
      np_max = (\<lambda>xs. Max (set xs)), np_percentile = (\<lambda>xs q. Max (set xs)),
      np_argmax = (\<lambda>xs. case py_max_key (\<lambda>i. xs ! i) [0..<length xs] of Inl _ \<Rightarrow> 0 | Inr i \<Rightarrow> i)\<rparr>"

lemma ex_numpy_law: "numpy_law ex_numpy"
proof -
  have arg: "np_argmax ex_numpy xs < length xs \<and> (\<forall>x \<in> set xs. x \<le> xs ! np_argmax ex_numpy xs)"
    if ne: "xs \<noteq> []" for xs
  proof -
    from ne have "[0..<length xs] \<noteq> []" by simp
    from py_key_nonempty(1) [OF this, of "\<lambda>i. xs ! i"] obtain i
      where i: "py_max_key (\<lambda>i. xs ! i) [0..<length xs] = Inr i" by blast
    then have "np_argmax ex_numpy xs = i" by (simp add: ex_numpy_def)
    with py_max_key_Inr [OF i] show ?thesis by (auto simp: in_set_conv_nth)
  qed
  show ?thesis
    unfolding numpy_law_def
  proof (intro allI impI conjI)
    fix xs :: "real list"
    assume "xs \<noteq> []"
    then show "np_argmax ex_numpy xs < length xs" "\<forall>x \<in> set xs. x \<le> xs ! np_argmax ex_numpy xs"
      using arg by blast+
    fix q :: real
    show "Min (set xs) \<le> np_percentile ex_numpy xs q" "np_percentile ex_numpy xs q \<le> Max (set xs)"
      using \<open>xs \<noteq> []\<close> by (simp_all add: ex_numpy_def)
  qed (simp_all add: ex_numpy_def)
qed

definition ex_span :: "int \<Rightarrow> real \<Rightarrow> span" where
  "ex_span t cpu =
     \<lparr>sp_time = t, sp_cpu = cpu, sp_latency = 0, sp_errors = 0, sp_requests = 0,
      sp_trace_id = ''t1'', sp_span_id = ''s1''\<rparr>"

definition ex_window :: "span list" where
  "ex_window = replicate 16 (ex_span 299000 0) @ [ex_span 299500 17]"

definition ex_candidate :: candidate where
  "ex_candidate =
     \<lparr>cand_type = ''CPU_SPIKE'',
      cand_z = py_round 4 (z_score ex_numpy ex_window (ex_span 299500 17) (hd metric_fields)),
      cand_event = ex_span 299500 17\<rparr>"

lemma ex_spike: "z_score ex_numpy ex_window (ex_span 299500 17) (hd metric_fields) = 16 / (4 + 1 / 10 ^ 9)"
proof -
  have "map sp_cpu ex_window = replicate 16 0 @ [17]" by (simp add: ex_window_def ex_span_def)
  then show ?thesis
    by (simp add: z_score_def metric_fields_def ex_numpy_def mean_def sum_list_replicate ex_span_def
        power2_eq_square)
qed

lemma ex_evaluate:
  "evaluate_window ex_numpy zscore_threshold min_window_events ex_window 270000 = Inr (Some ex_candidate)"
proof -
  have rows: "py_max_key (\<lambda>i. sp_time (ex_window ! i)) [0..<length ex_window] = Inr 16"
    by (simp add: ex_window_def ex_span_def py_max_key_def numeral_eq_Suc upt_rec)
  have e: "ex_window ! 16 = ex_span 299500 17" by (simp add: ex_window_def nth_append)
  let ?z = "16 / (4 + 1 / 10 ^ 9) :: real"
  have flat: "z_score ex_numpy ex_window (ex_span 299500 17) \<lparr>mf_value = g, mf_type = ty, mf_direction = d\<rparr> = 0"
    if "g \<in> {sp_latency, sp_errors, sp_requests}" for g ty d
  proof -
    from that have "map g ex_window = replicate 17 0" "g (ex_span 299500 17) = 0"
      by (auto simp: ex_window_def ex_span_def replicate_append_same numeral_eq_Suc)
    then show ?thesis by (simp add: z_score_def ex_numpy_def mean_def sum_list_replicate)
  qed
  have toward: "toward_anomaly ex_numpy ex_window (ex_span 299500 17) = [?z, 0, 0, 0]"
    using ex_spike by (simp add: toward_anomaly_def metric_fields_def flat)
  have "np_argmax ex_numpy [?z, 0, 0, 0] = 0"
    by (simp add: ex_numpy_def py_max_key_def upt_rec)
  moreover have "length ex_window = 17" "sp_time (ex_span 299500 17) = 299500"
    by (simp_all add: ex_window_def ex_span_def)
  ultimately show ?thesis
    using rows e toward
    by (simp add: evaluate_window_def ex_candidate_def min_window_events_def zscore_threshold_def
        metric_fields_def Let_def)
qed

theorem anomaly_sound_witness:
  "cand_event ex_candidate \<in> set ex_window \<and> 270000 \<le> sp_time (cand_event ex_candidate)"
  using anomaly_sound [OF ex_numpy_law ex_evaluate] by blast

theorem anomaly_needs_eleven_events_witness: "11 \<le> length ex_window"
  by (rule anomaly_needs_eleven_events [OF ex_numpy_law ex_evaluate])

theorem event_judged_once_witness:
  "evaluate_window ex_numpy zscore_threshold min_window_events ex_window
     (330000 - slide_interval_seconds * 1000) \<noteq> Inr (Some ex_candidate)"
proof
  assume again: "evaluate_window ex_numpy zscore_threshold min_window_events ex_window
     (330000 - slide_interval_seconds * 1000) = Inr (Some ex_candidate)"
  have "(300000 :: int) = 330000"
  proof (rule event_judged_once [OF ex_numpy_law _ _ _ _ _ again])
    show "evaluate_window ex_numpy zscore_threshold min_window_events ex_window
        (300000 - slide_interval_seconds * 1000) = Inr (Some ex_candidate)"
      using ex_evaluate by (simp add: slide_interval_seconds_def)
  qed (simp_all add: window_end_def slide_interval_seconds_def ex_window_def ex_span_def)
  then show False by simp
qed

theorem built_anomaly_in_range_witness:
  "1 \<le> ae_severity (build_anomaly (\<lambda>n. n) ''svc-a'' ex_candidate) \<and>
   ae_severity (build_anomaly (\<lambda>n. n) ''svc-a'' ex_candidate) \<le> 5"
  using built_anomaly_in_range [OF ex_numpy_law ex_evaluate refl] by blast

theorem aggregate_consistent_witness:
  "map_of (aggregate_events ex_numpy ''svc-a'' 0 60000 ex_window) ''span_count'' = Some (PInt (int (length ex_window)))"
  using aggregate_consistent [OF ex_numpy_law _ refl, of ex_window "''svc-a''" 0 60000 PNone]
  by (simp add: ex_window_def)

text \<open>A database and a Redis that always answer.\<close>

type_synonym ex_rows = "anomaly_row set \<times> anomaly_row set"

definition ex_env :: "ex_rows window_env" where
  "ex_env =
     \<lparr>we_numpy = ex_numpy, we_uuid5 = (\<lambda>n. n), we_iso_utc = int_str,
      we_tsdb =
        \<lparr>pg_connect = (\<lambda>(d, p). (Inr (), (d, {}))), create_index = (\<lambda>w. (Inr (), w)),
         index_exists = (\<lambda>w. (Inr True, w)), pg_commit = (\<lambda>(d, p). (Inr (), (d \<union> p, {}))),
         pg_rollback = (\<lambda>(d, p). (Inr (), (d, {}))), pg_close = (\<lambda>w. (Inr (), w)),
         pg_closed = (\<lambda>w. False), pg_sleep = (\<lambda>t w. w)\<rparr>,
      we_insert_anomaly = (\<lambda>row (d, p). (Inr (), (d, insert row p))),
      we_insert_metrics = (\<lambda>b rows w. (Inr (), w)),
      we_zadd_and_trim = (\<lambda>k m x i j w. (Inl redis_error, w))\<rparr>"

definition ex_window_state :: "ex_rows window_state" where
  "ex_window_state =
     \<lparr>ws_tsdb = \<lparr>conn_set = True, idempotent_metrics = True, tsdb_world = ({}, {})\<rparr>,
      ws_topk_log = init_log, ws_anomalies = (\<lambda>_. 0), ws_flushed = 0\<rparr>"

lemma ex_env_law: "env_law ex_env fst snd"
  by (auto simp: env_law_def ex_env_def tsdb_law_def harmless_def writes_def between_def)

lemma ex_process:
  assumes "conn_set (ws_tsdb u)" and "snd (tsdb_world (ws_tsdb u)) = {}"
  shows "\<exists>s. zscore_process ex_env now ''svc-a'' 300000 ex_window u =
     (Inr [anomaly_dict (build_anomaly (\<lambda>n. n) ''svc-a'' ex_candidate)], s) \<and>
     conn_set (ws_tsdb s) \<and> snd (tsdb_world (ws_tsdb s)) = {}"
proof -
  have "evaluate_window (we_numpy ex_env) zscore_threshold min_window_events ex_window
      (300000 - slide_interval_seconds * 1000) = Inr (Some ex_candidate)"
    using ex_evaluate by (simp add: ex_env_def slide_interval_seconds_def)
  moreover obtain d where "tsdb_world (ws_tsdb u) = (d, {})" using assms(2) by (metis prod.collapse)
  ultimately show ?thesis
    using assms(1)
    by (simp add: zscore_process_def Let_def write_anomaly_def tsdb_run_def tsdb_attempts_def
        numeral_3_eq_3 try_once_def ensure_conn_def on_tsdb_def bnd_def record_anomaly_def
        ex_env_def)
qed

theorem replayed_window_idempotent_witness:
  "\<exists>out s1 s2. zscore_process ex_env 0 ''svc-a'' 300000 ex_window ex_window_state = (Inr out, s1) \<and>
     zscore_process ex_env 9 ''svc-a'' 300000 ex_window s1 = (Inr out, s2) \<and>
     fst (tsdb_world (ws_tsdb s2)) = fst (tsdb_world (ws_tsdb s1))"
proof -
  have "conn_set (ws_tsdb ex_window_state)" and clean: "snd (tsdb_world (ws_tsdb ex_window_state)) = {}"
    by (simp_all add: ex_window_state_def)
  from ex_process [OF this] obtain out s1 where s1: "zscore_process ex_env 0 ''svc-a'' 300000 ex_window
      ex_window_state = (Inr out, s1)" "conn_set (ws_tsdb s1)" "snd (tsdb_world (ws_tsdb s1)) = {}" by blast
  from ex_process [OF s1(2,3)] obtain out2 s2 where s2:
    "zscore_process ex_env 9 ''svc-a'' 300000 ex_window s1 = (Inr out2, s2)" by blast
  from replayed_window_idempotent [OF ex_env_law clean s1(3,1) subset_refl s2] s1(1) s2 show ?thesis by blast
qed

end
