(* ===== verification/Flink_Job.thy ===== *)
theory Flink_Job
  imports Flink_Decode Flink_Dedup Flink_Windows
begin

section \<open>The Flink job\<close>

text \<open>
  \<open>flink_jobs/jobs/\<close>, \<open>operators/watermark_assigner.py\<close> and \<open>operators/late_counter.py\<close>: the front of
  the job (decoding and deduplication of the records), the two keyed window branches and the counter of
  late events, composed as \<open>AnomalyDetectionJob.build\<close> composes them. Flink's window operators and
  watermark generator are parameters with their documented behaviour; times are milliseconds.
\<close>

subsection \<open>Flink's window operator\<close>

text \<open>
  An event-time window operator on a keyed stream, without allowed lateness and with a side output: an
  element arrives for a key at its timestamp (the answer: it goes to the side output), or the watermark
  advances and windows fire.
\<close>

type_synonym win = "int \<times> int"

record ('e, 'st) window_op =
  wo_start :: 'st
  wo_elem :: "string \<Rightarrow> int \<Rightarrow> 'e \<Rightarrow> 'st \<Rightarrow> bool \<times> 'st"
  wo_advance :: "int \<Rightarrow> 'st \<Rightarrow> (string \<times> win \<times> 'e list) list \<times> 'st"

record ('e, 'st) flink_api =
  fl_tumbling :: "int \<Rightarrow> ('e, 'st) window_op"
  fl_sliding :: "int \<Rightarrow> int \<Rightarrow> ('e, 'st) window_op"

text \<open>The windows of a timestamp: aligned to the slide \<open>d\<close>, of the size \<open>n\<close>, containing it.\<close>

definition in_window :: "int \<Rightarrow> int \<Rightarrow> int \<Rightarrow> win \<Rightarrow> bool" where
  "in_window n d t win \<longleftrightarrow>
     d dvd fst win \<and> snd win = fst win + n \<and> fst win \<le> t \<and> t < snd win"

text \<open>A window is closed when the watermark has reached its last millisecond.\<close>

definition win_closed :: "int \<Rightarrow> win \<Rightarrow> bool" where
  "win_closed w win \<longleftrightarrow> snd win - 1 \<le> w"

text \<open>The watermark before any: \<open>Long.MIN_VALUE\<close>.\<close>

definition no_watermark :: int where
  "no_watermark = - (2 ^ 63)"

text \<open>
  What Flink documents: an element is added to every window of its that is not closed and is late if
  all are; an advance fires every window that becomes closed and holds elements, once, and drops it.
  \<open>wmk\<close> and \<open>buf\<close> observe the operator's state.
\<close>

definition window_law ::
  "('e, 'st) window_op \<Rightarrow> (int \<Rightarrow> win \<Rightarrow> bool) \<Rightarrow> ('st \<Rightarrow> int) \<Rightarrow> ('st \<Rightarrow> string \<Rightarrow> win \<Rightarrow> 'e list) \<Rightarrow> bool" where
  "window_law op asg wmk buf \<longleftrightarrow>
     wmk (wo_start op) = no_watermark \<and> (\<forall>k win. buf (wo_start op) k win = []) \<and>
     (\<forall>k t e s late s'. wo_elem op k t e s = (late, s') \<longrightarrow>
        late = (\<forall>win. asg t win \<longrightarrow> win_closed (wmk s) win) \<and> wmk s' = wmk s \<and>
        (\<forall>j win. buf s' j win = (if j = k \<and> asg t win \<and> \<not> win_closed (wmk s) win then buf s j win @ [e] else buf s j win))) \<and>
     (\<forall>v s fired s'. wo_advance op v s = (fired, s') \<longrightarrow>
        wmk s' = max (wmk s) v \<and> distinct (map (\<lambda>(k, win, es). (k, win)) fired) \<and>
        (\<forall>k win es. (k, win, es) \<in> set fired \<longleftrightarrow> es = buf s k win \<and> es \<noteq> [] \<and> win_closed (wmk s') win) \<and>
        (\<forall>k win. buf s' k win = (if win_closed (wmk s') win then [] else buf s k win)))"

definition flink_law :: "('e, 'st) flink_api \<Rightarrow> bool" where
  "flink_law fl \<longleftrightarrow>
     (\<forall>n > 0. \<exists>wmk buf. window_law (fl_tumbling fl n) (in_window n n) wmk buf) \<and>
     (\<forall>n > 0. \<forall>d > 0. \<exists>wmk buf. window_law (fl_sliding fl n d) (in_window n d) wmk buf)"

subsection \<open>Configuration\<close>

definition tumbling_window_seconds :: int where
  "tumbling_window_seconds = 60"

definition sliding_window_seconds :: int where
  "sliding_window_seconds = 300"

definition watermark_lag_seconds :: int where
  "watermark_lag_seconds = 5"

text \<open>\<open>Time.seconds\<close> and \<open>Duration.of_seconds\<close>, in milliseconds.\<close>

definition time_seconds :: "int \<Rightarrow> int" where
  "time_seconds n = n * 1000"

subsection \<open>Event time\<close>

text \<open>An event with the numeric view of its readings, under the service it belongs to.\<close>

type_synonym service_span = "string \<times> span"

definition service_key :: "service_span \<Rightarrow> string" where
  "service_key e = fst e"

definition extract_timestamp :: "service_span \<Rightarrow> int" where
  "extract_timestamp e = sp_time (snd e)"

text \<open>What reaches the window operators: events, and watermarks with the clock at that moment.\<close>

datatype job_item = Elem service_span | Mark int int

text \<open>
  \<open>for_bounded_out_of_orderness\<close>: a watermark trails the highest timestamp \<open>m\<close> seen so far by the lag and
  one millisecond; emission is periodic, so it may trail further.
\<close>

fun bounded_out_of_orderness :: "int \<Rightarrow> int \<Rightarrow> job_item list \<Rightarrow> bool" where
  "bounded_out_of_orderness lag m [] = True"
| "bounded_out_of_orderness lag m (Elem e # is) = bounded_out_of_orderness lag (max m (extract_timestamp e)) is"
| "bounded_out_of_orderness lag m (Mark now v # is) \<longleftrightarrow> v \<le> m - lag - 1 \<and> bounded_out_of_orderness lag m is"

definition watermark_strategy :: "job_item list \<Rightarrow> bool" where
  "watermark_strategy is =
     bounded_out_of_orderness (time_seconds watermark_lag_seconds)
       (no_watermark + time_seconds watermark_lag_seconds + 1) is"

subsection \<open>The branches\<close>

text \<open>The window function runs on every fired window; an exception fails the task.\<close>

fun fire_windows ::
  "(string \<Rightarrow> win \<Rightarrow> 'e list \<Rightarrow> ('s, pydict list) prog) \<Rightarrow> (string \<times> win \<times> 'e list) list \<Rightarrow> ('s, pydict list) prog" where
  "fire_windows f [] = ret []"
| "fire_windows f ((k, win, es) # fired) =
     bnd (f k win es) (\<lambda>ds. bnd (fire_windows f fired) (\<lambda>rest. ret (ds @ rest)))"

text \<open>\<open>MetricAggregationJob.attach\<close>: the windows and their function.\<close>

definition aggregation_windows :: "('e, 'st) flink_api \<Rightarrow> ('e, 'st) window_op" where
  "aggregation_windows fl = fl_tumbling fl (time_seconds tumbling_window_seconds)"

definition aggregation_function ::
  "'w window_env \<Rightarrow> string \<Rightarrow> win \<Rightarrow> service_span list \<Rightarrow> ('w window_state, pydict list) prog" where
  "aggregation_function env k win es = aggregate_process env k (fst win) (snd win) (map snd es)"

text \<open>\<open>SlidingWindowJob.attach\<close>.\<close>

definition zscore_windows :: "('e, 'st) flink_api \<Rightarrow> ('e, 'st) window_op" where
  "zscore_windows fl =
     fl_sliding fl (time_seconds sliding_window_seconds) (time_seconds slide_interval_seconds)"

definition zscore_function ::
  "'w window_env \<Rightarrow> real \<Rightarrow> string \<Rightarrow> win \<Rightarrow> service_span list \<Rightarrow> ('w window_state, pydict list) prog" where
  "zscore_function env now k win es = zscore_process env now k (snd win) (map snd es)"

text \<open>
  The running job: the two operators, the state of the two window functions (each runs in a worker of its
  own), the world that both write to, the counter of late events and what was sent to the two topics.
\<close>

record ('st, 'w) job =
  jb_tumbling :: 'st
  jb_sliding :: 'st
  jb_agg :: "'w window_state"
  jb_zs :: "'w window_state"
  jb_world :: 'w
  jb_late :: nat
  jb_aggregates :: "pydict list"
  jb_anomalies :: "pydict list"

definition job_start :: "(service_span, 'st) flink_api \<Rightarrow> 'w window_state \<Rightarrow> 'w window_state \<Rightarrow> 'w \<Rightarrow> ('st, 'w) job" where
  "job_start fl agg zs w =
     \<lparr>jb_tumbling = wo_start (aggregation_windows fl), jb_sliding = wo_start (zscore_windows fl),
      jb_agg = agg, jb_zs = zs, jb_world = w, jb_late = 0, jb_aggregates = [], jb_anomalies = []\<rparr>"

text \<open>A window function of one worker runs against the world of both.\<close>

definition in_world :: "('w window_state, 'a) prog \<Rightarrow> 'w window_state \<Rightarrow> 'w \<Rightarrow> (exn + 'a) \<times> 'w window_state \<times> 'w" where
  "in_world p ws w =
     (case p (ws\<lparr>ws_tsdb := (ws_tsdb ws)\<lparr>tsdb_world := w\<rparr>\<rparr>) of (r, t) \<Rightarrow> (r, t, tsdb_world (ws_tsdb t)))"

text \<open>\<open>CountLateEvents\<close> on the union of both side outputs.\<close>

definition count_late :: "bool \<Rightarrow> ('st, 'w) job \<Rightarrow> ('st, 'w) job" where
  "count_late late s = (if late then s\<lparr>jb_late := Suc (jb_late s)\<rparr> else s)"

definition job_element :: "(service_span, 'st) flink_api \<Rightarrow> service_span \<Rightarrow> ('st, 'w) job \<Rightarrow> ('st, 'w) job" where
  "job_element fl e s =
     (let (late1, t) = wo_elem (aggregation_windows fl) (service_key e) (extract_timestamp e) e (jb_tumbling s);
          (late2, u) = wo_elem (zscore_windows fl) (service_key e) (extract_timestamp e) e (jb_sliding s)
      in count_late late2 (count_late late1 (s\<lparr>jb_tumbling := t, jb_sliding := u\<rparr>)))"

definition fire_aggregates ::
  "'w window_env \<Rightarrow> (string \<times> win \<times> service_span list) list \<Rightarrow> (('st, 'w) job, unit) prog" where
  "fire_aggregates env fired s =
     (case in_world (fire_windows (aggregation_function env) fired) (jb_agg s) (jb_world s) of
        (Inl e, ws, w) \<Rightarrow> (Inl e, s\<lparr>jb_agg := ws, jb_world := w\<rparr>)
      | (Inr ds, ws, w) \<Rightarrow> (Inr (), s\<lparr>jb_agg := ws, jb_world := w, jb_aggregates := jb_aggregates s @ ds\<rparr>))"

definition fire_anomalies ::
  "'w window_env \<Rightarrow> real \<Rightarrow> (string \<times> win \<times> service_span list) list \<Rightarrow> (('st, 'w) job, unit) prog" where
  "fire_anomalies env now fired s =
     (case in_world (fire_windows (zscore_function env now) fired) (jb_zs s) (jb_world s) of
        (Inl e, ws, w) \<Rightarrow> (Inl e, s\<lparr>jb_zs := ws, jb_world := w\<rparr>)
      | (Inr ds, ws, w) \<Rightarrow> (Inr (), s\<lparr>jb_zs := ws, jb_world := w, jb_anomalies := jb_anomalies s @ ds\<rparr>))"

definition job_watermark ::
  "(service_span, 'st) flink_api \<Rightarrow> 'w window_env \<Rightarrow> int \<Rightarrow> int \<Rightarrow> (('st, 'w) job, unit) prog" where
  "job_watermark fl env now v s =
     (let (fired1, t) = wo_advance (aggregation_windows fl) v (jb_tumbling s);
          (fired2, u) = wo_advance (zscore_windows fl) v (jb_sliding s)
      in bnd (fire_aggregates env fired1) (\<lambda>_. fire_anomalies env (of_int now) fired2)
           (s\<lparr>jb_tumbling := t, jb_sliding := u\<rparr>))"

fun job_run :: "(service_span, 'st) flink_api \<Rightarrow> 'w window_env \<Rightarrow> job_item list \<Rightarrow> (('st, 'w) job, unit) prog" where
  "job_run fl env [] = ret ()"
| "job_run fl env (Elem e # is) = (\<lambda>s. job_run fl env is (job_element fl e s))"
| "job_run fl env (Mark now v # is) = bnd (job_watermark fl env now v) (\<lambda>_. job_run fl env is)"


subsection \<open>What one operator fires\<close>

text \<open>The fired windows of a run of one operator, and how many elements it put into the side output.\<close>

fun op_run ::
  "(service_span, 'st) window_op \<Rightarrow> job_item list \<Rightarrow> 'st \<Rightarrow> (string \<times> win \<times> service_span list) list \<times> nat \<times> 'st" where
  "op_run op [] s = ([], 0, s)"
| "op_run op (Elem e # is) s =
     (let (late, s1) = wo_elem op (service_key e) (extract_timestamp e) e s; (F, n, s2) = op_run op is s1
      in (F, of_bool late + n, s2))"
| "op_run op (Mark now v # is) s =
     (let (F1, s1) = wo_advance op v s; (F2, n, s2) = op_run op is s1 in (F1 @ F2, n, s2))"

text \<open>
  The reference: the watermark after a run, the events of a service and a window that arrive before the
  window is closed, in their order, and the number of events all of whose windows are closed.
\<close>

fun watermark_after :: "int \<Rightarrow> job_item list \<Rightarrow> int" where
  "watermark_after w [] = w"
| "watermark_after w (Elem e # is) = watermark_after w is"
| "watermark_after w (Mark now v # is) = watermark_after (max w v) is"

fun on_time :: "(int \<Rightarrow> win \<Rightarrow> bool) \<Rightarrow> string \<Rightarrow> win \<Rightarrow> int \<Rightarrow> job_item list \<Rightarrow> service_span list" where
  "on_time asg k win w [] = []"
| "on_time asg k win w (Elem e # is) =
     (if service_key e = k \<and> asg (extract_timestamp e) win \<and> \<not> win_closed w win
      then e # on_time asg k win w is else on_time asg k win w is)"
| "on_time asg k win w (Mark now v # is) = on_time asg k win (max w v) is"

lemma win_closed_mono: "win_closed w win \<Longrightarrow> w \<le> v \<Longrightarrow> win_closed v win"
  by (simp add: win_closed_def)

lemma watermark_after_ge: "w \<le> watermark_after w is"
proof (induction w "is" rule: watermark_after.induct)
  case (3 w now v "is")
  then show ?case by (simp add: max.coboundedI1 le_max_iff_disj)
qed simp_all

lemma on_time_closed: "win_closed w win \<Longrightarrow> on_time asg k win w is = []"
proof (induction asg k win w "is" rule: on_time.induct)
  case (3 asg k win w now v "is")
  from 3 show ?case using win_closed_mono [of w win "max w v"] by simp
qed simp_all

lemma window_law_start:
  assumes "window_law op asg wmk buf"
  shows "wmk (wo_start op) = no_watermark" and "buf (wo_start op) k win = []"
  by (rule assms [unfolded window_law_def, THEN conjunct1])
    (rule assms [unfolded window_law_def, THEN conjunct2, THEN conjunct1, rule_format])

lemma window_law_elem:
  assumes law: "window_law op asg wmk buf" and "wo_elem op k t e s = (late, s')"
  shows "late = (\<forall>win. asg t win \<longrightarrow> win_closed (wmk s) win)" and "wmk s' = wmk s"
    and "buf s' j win = (if j = k \<and> asg t win \<and> \<not> win_closed (wmk s) win then buf s j win @ [e] else buf s j win)"
proof -
  from law have *: "\<forall>k t e s late s'. wo_elem op k t e s = (late, s') \<longrightarrow>
      late = (\<forall>win. asg t win \<longrightarrow> win_closed (wmk s) win) \<and> wmk s' = wmk s \<and>
      (\<forall>j win. buf s' j win = (if j = k \<and> asg t win \<and> \<not> win_closed (wmk s) win then buf s j win @ [e] else buf s j win))"
    unfolding window_law_def by (elim conjE)
  note p = * [rule_format, OF assms(2)]
  show "late = (\<forall>win. asg t win \<longrightarrow> win_closed (wmk s) win)" by (rule p [THEN conjunct1])
  show "wmk s' = wmk s" by (rule p [THEN conjunct2, THEN conjunct1])
  show "buf s' j win = (if j = k \<and> asg t win \<and> \<not> win_closed (wmk s) win then buf s j win @ [e] else buf s j win)"
    by (rule p [THEN conjunct2, THEN conjunct2, rule_format])
qed

lemma window_law_advance:
  assumes law: "window_law op asg wmk buf" and "wo_advance op v s = (fired, s')"
  shows "wmk s' = max (wmk s) v" and "distinct (map (\<lambda>(k, win, es). (k, win)) fired)"
    and "(k, win, es) \<in> set fired \<longleftrightarrow> es = buf s k win \<and> es \<noteq> [] \<and> win_closed (wmk s') win"
    and "buf s' k win = (if win_closed (wmk s') win then [] else buf s k win)"
proof -
  from law have *: "\<forall>v s fired s'. wo_advance op v s = (fired, s') \<longrightarrow>
      wmk s' = max (wmk s) v \<and> distinct (map (\<lambda>(k, win, es). (k, win)) fired) \<and>
      (\<forall>k win es. (k, win, es) \<in> set fired \<longleftrightarrow> es = buf s k win \<and> es \<noteq> [] \<and> win_closed (wmk s') win) \<and>
      (\<forall>k win. buf s' k win = (if win_closed (wmk s') win then [] else buf s k win))"
    unfolding window_law_def by (elim conjE)
  note p = * [rule_format, OF assms(2)]
  show "wmk s' = max (wmk s) v" by (rule p [THEN conjunct1])
  show "distinct (map (\<lambda>(k, win, es). (k, win)) fired)" by (rule p [THEN conjunct2, THEN conjunct1])
  show "(k, win, es) \<in> set fired \<longleftrightarrow> es = buf s k win \<and> es \<noteq> [] \<and> win_closed (wmk s') win"
    by (rule p [THEN conjunct2, THEN conjunct2, THEN conjunct1, rule_format])
  show "buf s' k win = (if win_closed (wmk s') win then [] else buf s k win)"
    by (rule p [THEN conjunct2, THEN conjunct2, THEN conjunct2, rule_format])
qed

definition fresh_buffers :: "('st \<Rightarrow> int) \<Rightarrow> ('st \<Rightarrow> string \<Rightarrow> win \<Rightarrow> 'e list) \<Rightarrow> 'st \<Rightarrow> bool" where
  "fresh_buffers wmk buf s \<longleftrightarrow> (\<forall>k win. win_closed (wmk s) win \<longrightarrow> buf s k win = [])"

text \<open>The windows that a run fires are those of the reference, each once.\<close>

lemma op_run_fired:
  assumes law: "window_law op asg wmk buf"
  shows "fresh_buffers wmk buf s \<Longrightarrow> op_run op is s = (F, n, s') \<Longrightarrow>
     distinct (map (\<lambda>(k, win, es). (k, win)) F) \<and>
     (\<forall>k win es. (k, win, es) \<in> set F \<longleftrightarrow>
        es = buf s k win @ on_time asg k win (wmk s) is \<and> es \<noteq> [] \<and> \<not> win_closed (wmk s) win \<and>
        win_closed (watermark_after (wmk s) is) win)"
proof (induction "is" arbitrary: s F n s')
  case Nil
  then show ?case by auto
next
  case (Cons it "is")
  show ?case
  proof (cases it)
    case it: (Elem e)
    obtain late s1 where e: "wo_elem op (service_key e) (extract_timestamp e) e s = (late, s1)" by fastforce
    obtain F1 m s2 where r: "op_run op is s1 = (F1, m, s2)" by (metis prod_cases3)
    from Cons.prems e r have F: "F = F1" by (simp add: it)
    note el = window_law_elem [OF law e]
    have "fresh_buffers wmk buf s1" using Cons.prems(1) el(2,3) by (auto simp: fresh_buffers_def)
    from Cons.IH [OF this r] show ?thesis by (simp add: it F el(2,3))
  next
    case it: (Mark now v)
    obtain F1 s1 where a: "wo_advance op v s = (F1, s1)" by fastforce
    obtain F2 m s2 where r: "op_run op is s1 = (F2, m, s2)" by (metis prod_cases3)
    from Cons.prems a r have F: "F = F1 @ F2" by (simp add: it)
    note ad = window_law_advance [OF law a]
    have fresh: "fresh_buffers wmk buf s1" using ad(4) by (simp add: fresh_buffers_def)
    note IH = Cons.IH [OF this r]
    have old: "buf s k win = []" if "win_closed (wmk s) win" for k win
      using that Cons.prems(1) unfolding fresh_buffers_def by blast
    have mono: "win_closed (max (wmk s) v) win" if "win_closed (wmk s) win" for win
      by (rule win_closed_mono [OF that]) simp
    have last: "win_closed (watermark_after (max (wmk s) v) is) win" if "win_closed (max (wmk s) v) win" for win
      by (rule win_closed_mono [OF that watermark_after_ge])
    show ?thesis
    proof (intro conjI allI)
      have late2: "\<not> win_closed (wmk s1) win" if "(k, win, es) \<in> set F2" for k win es
        using that IH [THEN conjunct2, rule_format] by blast
      have "(case x of (k, win, es) \<Rightarrow> (k, win)) \<noteq> (case y of (k, win, es) \<Rightarrow> (k, win))"
        if "x \<in> set F1" "y \<in> set F2" for x y
      proof -
        obtain k win es where x: "x = (k, win, es)" by (rule prod_cases3)
        obtain j win' fs where y: "y = (j, win', fs)" by (rule prod_cases3)
        from that x ad(3) have "win_closed (wmk s1) win" by blast
        moreover from that y late2 have "\<not> win_closed (wmk s1) win'" by blast
        ultimately have "win \<noteq> win'" by auto
        then show ?thesis by (simp add: x y)
      qed
      then have "set (map (\<lambda>(k, win, es). (k, win)) F1) \<inter> set (map (\<lambda>(k, win, es). (k, win)) F2) = {}"
        unfolding set_map by blast
      with ad(2) IH [THEN conjunct1] show "distinct (map (\<lambda>(k, win, es). (k, win)) F)"
        by (simp only: F map_append distinct_append)
      fix k win es
      note IHk = IH [THEN conjunct2, rule_format, of k win es]
      show "(k, win, es) \<in> set F \<longleftrightarrow>
        es = buf s k win @ on_time asg k win (wmk s) (it # is) \<and> es \<noteq> [] \<and> \<not> win_closed (wmk s) win \<and>
        win_closed (watermark_after (wmk s) (it # is)) win"
      proof (cases "win_closed (max (wmk s) v) win")
        case True
        then have "(k, win, es) \<notin> set F2" using IHk ad(1) by simp
        moreover have "on_time asg k win (max (wmk s) v) is = []" by (rule on_time_closed [OF True])
        ultimately show ?thesis
          using True last [OF True] ad(1) ad(3) [of k win es] old [of win k] by (auto simp: F it)
      next
        case False
        then have "(k, win, es) \<notin> set F1" using ad(1,3) by simp
        moreover have "\<not> win_closed (wmk s) win" using False mono by blast
        ultimately show ?thesis using False IHk ad(1,4) by (simp add: F it)
      qed
    qed
  qed
qed

subsection \<open>What the job emits\<close>

text \<open>The records of one fired window, as functions of its events.\<close>

definition aggregate_docs :: "'w window_env \<Rightarrow> string \<times> win \<times> service_span list \<Rightarrow> pydict list" where
  "aggregate_docs env = (\<lambda>(k, win, es).
     if es = [] then [] else [aggregate_events (we_numpy env) k (fst win) (snd win) (map snd es)])"

definition anomaly_docs :: "'w window_env \<Rightarrow> string \<times> win \<times> service_span list \<Rightarrow> pydict list" where
  "anomaly_docs env = (\<lambda>(k, win, es).
     case evaluate_window (we_numpy env) zscore_threshold min_window_events (map snd es)
            (snd win - slide_interval_seconds * 1000) of
       Inr (Some c) \<Rightarrow> [anomaly_dict (build_anomaly (we_uuid5 env) k c)] | _ \<Rightarrow> [])"

lemma aggregation_function_docs:
  "aggregation_function env k win es s = (Inr ds, t) \<Longrightarrow> ds = aggregate_docs env (k, win, es)"
  by (auto simp: aggregation_function_def aggregate_process_def aggregate_docs_def Let_def
      split: if_splits prod.splits sum.splits)

lemma zscore_function_docs:
  "zscore_function env now k win es s = (Inr ds, t) \<Longrightarrow> ds = anomaly_docs env (k, win, es)"
  by (auto simp: zscore_function_def zscore_process_def anomaly_docs_def Let_def
      split: prod.splits sum.splits option.splits)

lemma fire_windows_docs:
  assumes "\<And>k win es s ds t. f k win es s = (Inr ds, t) \<Longrightarrow> ds = g (k, win, es)"
  shows "fire_windows f fired s = (Inr ds, t) \<Longrightarrow> ds = concat (map g fired)"
proof (induction fired arbitrary: s ds)
  case Nil
  then show ?case by (simp add: ret_def)
next
  case (Cons x fired)
  obtain k win es where x: "x = (k, win, es)" by (rule prod_cases3)
  from Cons.prems obtain d1 s1 d2 where "f k win es s = (Inr d1, s1)"
    "fire_windows f fired s1 = (Inr d2, t)" "ds = d1 @ d2"
    by (auto simp: x bnd_def ret_def split: prod.splits sum.splits)
  with assms Cons.IH show ?case by (simp add: x)
qed

lemma fire_aggregates_docs:
  assumes "fire_aggregates env fired s = (Inr (), t)"
  shows "jb_aggregates t = jb_aggregates s @ concat (map (aggregate_docs env) fired)"
    and "jb_anomalies t = jb_anomalies s" and "jb_late t = jb_late s"
    and "jb_tumbling t = jb_tumbling s" and "jb_sliding t = jb_sliding s"
proof -
  let ?p = "fire_windows (aggregation_function env) fired"
  let ?ws = "(jb_agg s)\<lparr>ws_tsdb := (ws_tsdb (jb_agg s))\<lparr>tsdb_world := jb_world s\<rparr>\<rparr>"
  obtain r u where p: "?p ?ws = (r, u)" by fastforce
  with assms obtain ds where ds: "r = Inr ds"
    and t: "t = s\<lparr>jb_agg := u, jb_world := tsdb_world (ws_tsdb u), jb_aggregates := jb_aggregates s @ ds\<rparr>"
    by (auto simp: fire_aggregates_def in_world_def split: sum.splits)
  have "ds = concat (map (aggregate_docs env) fired)"
    using fire_windows_docs [where f = "aggregation_function env" and g = "aggregate_docs env",
        OF aggregation_function_docs p [unfolded ds]] .
  then show "jb_aggregates t = jb_aggregates s @ concat (map (aggregate_docs env) fired)"
    and "jb_anomalies t = jb_anomalies s" and "jb_late t = jb_late s"
    and "jb_tumbling t = jb_tumbling s" and "jb_sliding t = jb_sliding s"
    by (simp_all add: t)
qed

lemma fire_anomalies_docs:
  assumes "fire_anomalies env now fired s = (Inr (), t)"
  shows "jb_anomalies t = jb_anomalies s @ concat (map (anomaly_docs env) fired)"
    and "jb_aggregates t = jb_aggregates s" and "jb_late t = jb_late s"
    and "jb_tumbling t = jb_tumbling s" and "jb_sliding t = jb_sliding s"
proof -
  let ?p = "fire_windows (zscore_function env now) fired"
  let ?ws = "(jb_zs s)\<lparr>ws_tsdb := (ws_tsdb (jb_zs s))\<lparr>tsdb_world := jb_world s\<rparr>\<rparr>"
  obtain r u where p: "?p ?ws = (r, u)" by fastforce
  with assms obtain ds where ds: "r = Inr ds"
    and t: "t = s\<lparr>jb_zs := u, jb_world := tsdb_world (ws_tsdb u), jb_anomalies := jb_anomalies s @ ds\<rparr>"
    by (auto simp: fire_anomalies_def in_world_def split: sum.splits)
  have "ds = concat (map (anomaly_docs env) fired)"
    using fire_windows_docs [where f = "zscore_function env now" and g = "anomaly_docs env",
        OF zscore_function_docs p [unfolded ds]] .
  then show "jb_anomalies t = jb_anomalies s @ concat (map (anomaly_docs env) fired)"
    and "jb_aggregates t = jb_aggregates s" and "jb_late t = jb_late s"
    and "jb_tumbling t = jb_tumbling s" and "jb_sliding t = jb_sliding s"
    by (simp_all add: t)
qed

text \<open>A run of the job is a run of each operator, with the records of all windows it fires.\<close>

lemma job_run_docs:
  assumes "job_run fl env is s = (Inr (), s')"
    and "op_run (aggregation_windows fl) is (jb_tumbling s) = (F, n, t)"
    and "op_run (zscore_windows fl) is (jb_sliding s) = (G, m, u)"
  shows "jb_aggregates s' = jb_aggregates s @ concat (map (aggregate_docs env) F) \<and>
         jb_anomalies s' = jb_anomalies s @ concat (map (anomaly_docs env) G) \<and>
         jb_late s' = jb_late s + n + m"
  using assms
proof (induction "is" arbitrary: s F n G m)
  case Nil
  then show ?case by (auto simp: ret_def)
next
  case (Cons it "is")
  show ?case
  proof (cases it)
    case it: (Elem e)
    obtain l1 t1 where e1: "wo_elem (aggregation_windows fl) (service_key e) (extract_timestamp e) e (jb_tumbling s) = (l1, t1)"
      by fastforce
    obtain l2 u1 where e2: "wo_elem (zscore_windows fl) (service_key e) (extract_timestamp e) e (jb_sliding s) = (l2, u1)"
      by fastforce
    obtain F1 n1 t2 where r1: "op_run (aggregation_windows fl) is t1 = (F1, n1, t2)" by (metis prod_cases3)
    obtain G1 m1 u2 where r2: "op_run (zscore_windows fl) is u1 = (G1, m1, u2)" by (metis prod_cases3)
    let ?s = "job_element fl e s"
    have st: "jb_tumbling ?s = t1" "jb_sliding ?s = u1" "jb_aggregates ?s = jb_aggregates s"
      "jb_anomalies ?s = jb_anomalies s" "jb_late ?s = jb_late s + of_bool l1 + of_bool l2"
      by (simp_all add: job_element_def e1 e2 count_late_def)
    have "job_run fl env is ?s = (Inr (), s')" using Cons.prems(1) by (simp add: it)
    from Cons.IH [OF this] r1 r2 st Cons.prems(2,3) show ?thesis by (auto simp: it e1 e2)
  next
    case it: (Mark now v)
    obtain F1 t1 where a1: "wo_advance (aggregation_windows fl) v (jb_tumbling s) = (F1, t1)" by fastforce
    obtain G1 u1 where a2: "wo_advance (zscore_windows fl) v (jb_sliding s) = (G1, u1)" by fastforce
    let ?s = "s\<lparr>jb_tumbling := t1, jb_sliding := u1\<rparr>"
    from Cons.prems(1) obtain s1 s2 where f1: "fire_aggregates env F1 ?s = (Inr (), s1)"
      and f2: "fire_anomalies env (of_int now) G1 s1 = (Inr (), s2)" and rest: "job_run fl env is s2 = (Inr (), s')"
      by (auto simp: it bnd_def job_watermark_def a1 a2 split: prod.splits sum.splits)
    note d1 = fire_aggregates_docs [OF f1] and d2 = fire_anomalies_docs [OF f2]
    obtain F2 n2 t2 where r1: "op_run (aggregation_windows fl) is t1 = (F2, n2, t2)" by (metis prod_cases3)
    obtain G2 m2 u2 where r2: "op_run (zscore_windows fl) is u1 = (G2, m2, u2)" by (metis prod_cases3)
    from Cons.IH [OF rest] d1 d2 r1 r2 Cons.prems(2,3) show ?thesis by (auto simp: it a1 a2)
  qed
qed

subsection \<open>The aggregates of a minute\<close>

lemma start_fresh: "window_law op asg wmk buf \<Longrightarrow> fresh_buffers wmk buf (wo_start op)"
  by (simp add: fresh_buffers_def window_law_start(2))

text \<open>From its start, an operator fires exactly the closed windows of the reference.\<close>

lemma fired_from_start:
  assumes law: "window_law op asg wmk buf" and run: "op_run op is (wo_start op) = (F, n, s')"
  shows "distinct (map (\<lambda>(k, win, es). (k, win)) F)"
    and "(k, win, es) \<in> set F \<longleftrightarrow>
           es = on_time asg k win no_watermark is \<and> es \<noteq> [] \<and> win_closed (watermark_after no_watermark is) win"
proof -
  note f = op_run_fired [OF law start_fresh [OF law] run, unfolded window_law_start [OF law]]
  show "distinct (map (\<lambda>(k, win, es). (k, win)) F)" by (rule f [THEN conjunct1])
  have "on_time asg k win no_watermark is = []" if "win_closed no_watermark win"
    by (rule on_time_closed [OF that])
  with f [THEN conjunct2, rule_format, of k win es] show "(k, win, es) \<in> set F \<longleftrightarrow>
      es = on_time asg k win no_watermark is \<and> es \<noteq> [] \<and> win_closed (watermark_after no_watermark is) win"
    by auto
qed

lemma on_time_mem:
  "e \<in> set (on_time asg k win w is) \<Longrightarrow> service_key e = k \<and> asg (extract_timestamp e) win"
  by (induction asg k win w "is" rule: on_time.induct) (auto split: if_splits)

lemma on_time_window: "on_time asg k win w is \<noteq> [] \<Longrightarrow> \<exists>t. asg t win"
  using on_time_mem [of "hd (on_time asg k win w is)" asg k win w "is"] by auto

lemma flink_laws:
  assumes "flink_law fl"
  obtains w1 b1 w2 b2 where "window_law (aggregation_windows fl) (in_window 60000 60000) w1 b1"
    and "window_law (zscore_windows fl) (in_window 300000 30000) w2 b2"
proof -
  have s: "time_seconds tumbling_window_seconds = 60000" "time_seconds sliding_window_seconds = 300000"
    "time_seconds slide_interval_seconds = 30000"
    by (simp_all add: time_seconds_def tumbling_window_seconds_def sliding_window_seconds_def slide_interval_seconds_def)
  from assms obtain w1 b1 where "window_law (fl_tumbling fl 60000) (in_window 60000 60000) w1 b1"
    unfolding flink_law_def by (metis zero_less_numeral)
  moreover from assms obtain w2 b2 where "window_law (fl_sliding fl 300000 30000) (in_window 300000 30000) w2 b2"
    unfolding flink_law_def by (metis zero_less_numeral)
  ultimately show thesis by (intro that) (simp_all add: aggregation_windows_def zscore_windows_def s)
qed

text \<open>The records of one service and one window start among the aggregates.\<close>

definition aggregate_of :: "string \<Rightarrow> int \<Rightarrow> pydict \<Rightarrow> bool" where
  "aggregate_of k start d \<longleftrightarrow>
     map_of d ''service_id'' = Some (PStr k) \<and> map_of d ''window_start_ms'' = Some (PInt start)"

lemma aggregate_of_events:
  "aggregate_of k start (aggregate_events np sid a b evs) \<longleftrightarrow> sid = k \<and> a = start"
  by (auto simp: aggregate_of_def aggregate_events_def)

lemma aggregates_of_window:
  assumes law: "window_law op (in_window n d) wmk buf" and run: "op_run op is (wo_start op) = (F, m, s')"
    and closed: "win_closed (watermark_after no_watermark is) (a, a + n)"
  shows "filter (aggregate_of k a) (concat (map (aggregate_docs env) F)) =
           aggregate_docs env (k, (a, a + n), on_time (in_window n d) k (a, a + n) no_watermark is)"
proof -
  let ?key = "\<lambda>(k :: string, win :: win, es :: service_span list). (k, win)"
  let ?es = "on_time (in_window n d) k (a, a + n) no_watermark is"
  note F = fired_from_start [OF law run]
  have "snd win = fst win + n" if "(j, win, es) \<in> set F" for j win es
    using that on_time_window [of "in_window n d" j win no_watermark "is"] F(2) by (auto simp: in_window_def)
  then have eq: "filter (aggregate_of k a) (aggregate_docs env x) = (if ?key x = (k, (a, a + n)) then aggregate_docs env x else [])"
    if "x \<in> set F" for x
    using that by (cases x) (fastforce simp: aggregate_docs_def aggregate_of_events prod_eq_iff)
  have "filter (aggregate_of k a) (concat (map (aggregate_docs env) xs)) =
      concat (map (aggregate_docs env) (filter (\<lambda>x. ?key x = (k, (a, a + n))) xs))" if "set xs \<subseteq> set F" for xs
    using that by (induction xs) (simp_all add: eq)
  from this [OF subset_refl] have all: "filter (aggregate_of k a) (concat (map (aggregate_docs env) F)) =
      concat (map (aggregate_docs env) (filter (\<lambda>x. ?key x = (k, (a, a + n))) F))" .
  show ?thesis
  proof (cases "?es = []")
    case True
    then have "filter (\<lambda>x. ?key x = (k, (a, a + n))) F = []" using F(2) by (fastforce simp: filter_empty_conv)
    with True all show ?thesis by (simp add: aggregate_docs_def)
  next
    case False
    with closed F(2) have "(k, (a, a + n), ?es) \<in> set F" by simp
    from filter_unique_key [OF F(1) this] all show ?thesis by simp
  qed
qed

text \<open>
  C4. One record per service and minute: once the watermark has passed a minute, the topic of the
  aggregates holds for a service nothing if no event of that minute arrived in time, and otherwise exactly
  one record, computed over all the events that arrived in time, in their order of arrival.
\<close>

theorem aggregates_exact:
  assumes "flink_law fl" and "job_run fl env is (job_start fl agg zs w) = (Inr (), s)"
    and "60000 dvd a" and "a + 60000 \<le> watermark_after no_watermark is"
    and "es = on_time (in_window 60000 60000) k (a, a + 60000) no_watermark is"
  shows "filter (aggregate_of k a) (jb_aggregates s) =
           (if es = [] then [] else [aggregate_events (we_numpy env) k a (a + 60000) (map snd es)])"
proof -
  from assms(1) obtain w1 b1 where law: "window_law (aggregation_windows fl) (in_window 60000 60000) w1 b1"
    by (rule flink_laws)
  obtain F n t where r1: "op_run (aggregation_windows fl) is (wo_start (aggregation_windows fl)) = (F, n, t)"
    by (metis prod_cases3)
  obtain G m u where r2: "op_run (zscore_windows fl) is (wo_start (zscore_windows fl)) = (G, m, u)"
    by (metis prod_cases3)
  have start: "jb_tumbling (job_start fl agg zs w) = wo_start (aggregation_windows fl)"
    "jb_sliding (job_start fl agg zs w) = wo_start (zscore_windows fl)"
    "jb_aggregates (job_start fl agg zs w) = []"
    by (simp_all add: job_start_def)
  from job_run_docs [OF assms(2), unfolded start, OF r1 r2]
  have "jb_aggregates s = concat (map (aggregate_docs env) F)" by simp
  moreover have "win_closed (watermark_after no_watermark is) (a, a + 60000)"
    using assms(4) by (simp add: win_closed_def)
  ultimately show ?thesis
    using aggregates_of_window [OF law r1, of a k env] assms(5) by (simp add: aggregate_docs_def)
qed

subsection \<open>Anomalies are reported once\<close>

text \<open>The name under which \<open>uuid5\<close> gives an anomaly its id determines service, time and type.\<close>

lemma anomaly_name_inj:
  assumes "''distrosense/anomaly/'' @ k @ ''/'' @ int_str t @ ''/'' @ ty =
      ''distrosense/anomaly/'' @ k' @ ''/'' @ int_str t' @ ''/'' @ ty'"
    and "CHR ''/'' \<notin> set ty" and "CHR ''/'' \<notin> set ty'"
  shows "k = k' \<and> t = t' \<and> ty = ty'"
proof -
  have digits: "CHR ''/'' \<notin> set (int_str n)" for n
    by (rule int_str_avoids) (simp_all add: is_digit_def)
  from assms(1) have "(k @ CHR ''/'' # int_str t) @ CHR ''/'' # ty = (k' @ CHR ''/'' # int_str t') @ CHR ''/'' # ty'"
    by simp
  from last_separator [OF this assms(2,3)]
  have "k @ CHR ''/'' # int_str t = k' @ CHR ''/'' # int_str t'" and "ty = ty'" by simp_all
  with last_separator [OF this(1) digits digits] int_str_inj show ?thesis by blast
qed

definition doc_id :: "pydict \<Rightarrow> pyval option" where
  "doc_id d = map_of d ''id''"

lemma anomaly_docs_elim:
  assumes "numpy_law (we_numpy env)" and "d \<in> set (anomaly_docs env (k, win, es))"
  obtains e ty where "e \<in> set es" and "snd win - 30000 \<le> extract_timestamp e" and "CHR ''/'' \<notin> set ty"
    and "doc_id d = Some (PStr (we_uuid5 env
          (''distrosense/anomaly/'' @ k @ ''/'' @ int_str (extract_timestamp e) @ ''/'' @ ty)))"
    and "anomaly_docs env (k, win, es) = [d]"
proof -
  let ?r = "evaluate_window (we_numpy env) zscore_threshold min_window_events (map snd es)
      (snd win - slide_interval_seconds * 1000)"
  from assms(2) have "\<exists>c. ?r = Inr (Some c) \<and> d = anomaly_dict (build_anomaly (we_uuid5 env) k c)"
    by (cases ?r) (auto simp: anomaly_docs_def split: option.splits)
  then obtain c where c: "?r = Inr (Some c)" and d: "d = anomaly_dict (build_anomaly (we_uuid5 env) k c)" by blast
  from assms(1) c obtain f where f: "f \<in> set metric_fields" "cand_type c = mf_type f"
    "cand_event c \<in> set (map snd es)" "snd win - slide_interval_seconds * 1000 \<le> sp_time (cand_event c)"
    by (rule evaluate_elim)
  from f(3) obtain e where e: "e \<in> set es" "cand_event c = snd e" by auto
  show thesis
  proof (rule that [of e "cand_type c"])
    show "CHR ''/'' \<notin> set (cand_type c)" using f(1,2) by (auto simp: metric_fields_def)
    show "snd win - 30000 \<le> extract_timestamp e"
      using f(4) e by (simp add: slide_interval_seconds_def extract_timestamp_def)
    show "anomaly_docs env (k, win, es) = [d]" by (simp add: anomaly_docs_def c d)
  qed (simp_all add: e d doc_id_def anomaly_dict_def build_anomaly_def Let_def extract_timestamp_def)
qed

lemma same_slide:
  assumes "in_window 300000 30000 t (a, b)" and "in_window 300000 30000 t' (a', b')"
    and "b - 30000 \<le> x" and "x < b" and "b' - 30000 \<le> x" and "x < b'"
  shows "(a, b) = (a', b')"
proof -
  from assms(1,2) obtain i j where "a = 30000 * i" "a' = 30000 * j" "b = a + 300000" "b' = a' + 300000"
    by (auto simp: in_window_def elim!: dvdE)
  with assms(3-6) have "i < j + 1" "j < i + 1" by linarith+
  with \<open>a = _\<close> \<open>a' = _\<close> \<open>b = _\<close> \<open>b' = _\<close> show ?thesis by simp
qed

text \<open>
  C12. No anomaly is reported twice in a run: whatever the overlap of the sliding windows, the order of the
  events and the watermarks, the records on the topic of the anomalies have different ids, if \<open>uuid5\<close> gives
  different names different ids.
\<close>

theorem anomaly_ids_unique:
  assumes "flink_law fl" and "numpy_law (we_numpy env)" and "inj (we_uuid5 env)"
    and "job_run fl env is (job_start fl agg zs w) = (Inr (), s)"
  shows "distinct (map doc_id (jb_anomalies s))"
proof -
  from assms(1) obtain w2 b2 where law: "window_law (zscore_windows fl) (in_window 300000 30000) w2 b2"
    by (rule flink_laws)
  obtain F n t where r1: "op_run (aggregation_windows fl) is (wo_start (aggregation_windows fl)) = (F, n, t)"
    by (metis prod_cases3)
  obtain G m u where r2: "op_run (zscore_windows fl) is (wo_start (zscore_windows fl)) = (G, m, u)"
    by (metis prod_cases3)
  have start: "jb_tumbling (job_start fl agg zs w) = wo_start (aggregation_windows fl)"
    "jb_sliding (job_start fl agg zs w) = wo_start (zscore_windows fl)"
    "jb_anomalies (job_start fl agg zs w) = []"
    by (simp_all add: job_start_def)
  from job_run_docs [OF assms(4), unfolded start, OF r1 r2]
  have docs: "jb_anomalies s = concat (map (anomaly_docs env) G)" by simp
  note G = fired_from_start [OF law r2]
  show ?thesis
    unfolding docs
  proof (rule distinct_concat_by_key [OF G(1)])
    fix x
    assume "x \<in> set G"
    show "distinct (map doc_id (anomaly_docs env x))"
      by (auto simp: anomaly_docs_def split: prod.splits sum.splits option.splits)
  next
    fix x y d d'
    assume xy: "x \<in> set G" "y \<in> set G" and d: "d \<in> set (anomaly_docs env x)" "d' \<in> set (anomaly_docs env y)"
      and same: "doc_id d = doc_id d'"
    obtain k a b es where x: "x = (k, (a, b), es)" by (metis prod.collapse)
    obtain k' a' b' es' where y: "y = (k', (a', b'), es')" by (metis prod.collapse)
    from assms(2) d(1) [unfolded x] obtain e ty where e: "e \<in> set es" "b - 30000 \<le> extract_timestamp e"
      "CHR ''/'' \<notin> set ty" "doc_id d = Some (PStr (we_uuid5 env
          (''distrosense/anomaly/'' @ k @ ''/'' @ int_str (extract_timestamp e) @ ''/'' @ ty)))"
      by (rule anomaly_docs_elim) simp
    from assms(2) d(2) [unfolded y] obtain e' ty' where e': "e' \<in> set es'" "b' - 30000 \<le> extract_timestamp e'"
      "CHR ''/'' \<notin> set ty'" "doc_id d' = Some (PStr (we_uuid5 env
          (''distrosense/anomaly/'' @ k' @ ''/'' @ int_str (extract_timestamp e') @ ''/'' @ ty')))"
      by (rule anomaly_docs_elim) simp
    from same e(4) e'(4) assms(3) have "''distrosense/anomaly/'' @ k @ ''/'' @ int_str (extract_timestamp e) @ ''/'' @ ty =
        ''distrosense/anomaly/'' @ k' @ ''/'' @ int_str (extract_timestamp e') @ ''/'' @ ty'"
      by (simp only: option.inject pyval.inject inj_eq)
    from anomaly_name_inj [OF this e(3) e'(3)] have k: "k = k'" "extract_timestamp e = extract_timestamp e'" by simp_all
    from xy G(2) x y have "es = on_time (in_window 300000 30000) k (a, b) no_watermark is"
      "es' = on_time (in_window 300000 30000) k' (a', b') no_watermark is" by simp_all
    with e(1) e'(1) have wins: "in_window 300000 30000 (extract_timestamp e) (a, b)"
      "in_window 300000 30000 (extract_timestamp e') (a', b')" using on_time_mem by blast+
    from same_slide [OF this e(2) _ e'(2) [folded k(2)]] wins k(2) have "(a, b) = (a', b')"
      by (simp add: in_window_def)
    with k(1) show "(case x of (k, win, es) \<Rightarrow> (k, win)) = (case y of (k, win, es) \<Rightarrow> (k, win))"
      by (simp add: x y)
  qed
qed

subsection \<open>The front of the job\<close>

text \<open>
  \<open>key_by(lambda e: e.span_id, key_type=Types.STRING())\<close>: PyFlink serialises the key as text and raises on
  anything else.
\<close>

definition span_key :: "metric_event \<Rightarrow> exn + string" where
  "span_key ev = (case me_span_id ev of PStr k \<Rightarrow> Inr k | _ \<Rightarrow> Inl (ExternalError ''pyflink''))"

definition dedup_ttl_ms :: int where
  "dedup_ttl_ms = 10 * 60 * 1000"

fun dedup_events ::
  "'b bloom_ops \<Rightarrow> 's ttl_state \<Rightarrow> readings \<Rightarrow> metric_event list \<Rightarrow> (('b, 's) dedup, metric_event list) prog" where
  "dedup_events bf ts t [] = ret []"
| "dedup_events bf ts t (ev # evs) =
     bnd (lift_res (span_key ev)) (\<lambda>k.
     bnd (process_element bf ts dedup_ttl_ms t k) (\<lambda>emit.
     bnd (dedup_events bf ts t evs) (\<lambda>rest. ret (if emit then ev # rest else rest))))"

text \<open>
  One record of the topic through decoding and deduplication: its characters, the time of arrival and the
  clock readings of the filter.
\<close>

definition job_front ::
  "('sch, 'x) decoder_api \<Rightarrow> 'b bloom_ops \<Rightarrow> 's ttl_state \<Rightarrow> int \<Rightarrow> readings \<Rightarrow> nat list \<Rightarrow>
     (('sch, 'x) decoder \<times> ('b, 's) dedup, metric_event list) prog" where
  "job_front api bf ts now t value s =
     (case flat_map_span api now value (fst s) of
        (Inl e, dc) \<Rightarrow> (Inl e, (dc, snd s))
      | (Inr evs, dc) \<Rightarrow> (case dedup_events bf ts t evs (snd s) of (r, dd) \<Rightarrow> (r, (dc, dd))))"

fun front_run ::
  "('sch, 'x) decoder_api \<Rightarrow> 'b bloom_ops \<Rightarrow> 's ttl_state \<Rightarrow> (int \<times> readings \<times> nat list) list \<Rightarrow>
     (('sch, 'x) decoder \<times> ('b, 's) dedup, metric_event list) prog" where
  "front_run api bf ts [] = ret []"
| "front_run api bf ts ((now, t, value) # recs) =
     bnd (job_front api bf ts now t value) (\<lambda>evs. bnd (front_run api bf ts recs) (\<lambda>rest. ret (evs @ rest)))"

text \<open>The numeric view of a well-typed event, under its service.\<close>

definition span_view :: "metric_event \<Rightarrow> service_span option" where
  "span_view ev =
     (case (me_service_id ev, me_timestamp ev, me_trace_id ev, me_span_id ev) of
        (PStr k, PInt t, PStr tr, PStr sp) \<Rightarrow>
          (case (me_cpu_percent ev, me_latency_p99 ev, me_error_rate ev, me_request_rate ev) of
             (PFloat c, PFloat l, PFloat e, PFloat r) \<Rightarrow>
               Some (k, \<lparr>sp_time = t, sp_cpu = c, sp_latency = l, sp_errors = e, sp_requests = r,
                         sp_trace_id = tr, sp_span_id = sp\<rparr>)
           | _ \<Rightarrow> None)
      | _ \<Rightarrow> None)"

text \<open>Records all of whose times lie within one TTL: the filter lets through the first of each id.\<close>

fun first_ids :: "string list \<Rightarrow> string list \<Rightarrow> bool list" where
  "first_ids seen [] = []"
| "first_ids seen (k # ks) = (k \<notin> set seen) # first_ids (k # seen) ks"

lemma first_ids_cong: "set s1 = set s2 \<Longrightarrow> first_ids s1 ks = first_ids s2 ks"
  by (induction ks arbitrary: s1 s2) simp_all

lemma plain_run_first:
  assumes law: "ttl_law ts ttl last_write"
  shows "readings_ordered now es \<Longrightarrow> start \<le> now \<Longrightarrow> (\<And>k w. last_write st k = Some w \<Longrightarrow> start \<le> w) \<Longrightarrow>
     (\<And>t k. (t, k) \<in> set es \<Longrightarrow> read_at t - start < ttl) \<Longrightarrow> dom (last_write st) = set seen \<Longrightarrow>
     plain_run ts es st = first_ids seen (map snd es)"
proof (induction es arbitrary: now st seen)
  case (Cons e es)
  obtain t k where e: "e = (t, k)" by fastforce
  from Cons.prems(1) e have ord: "in_order now t" "readings_ordered (add_at t) es" by simp_all
  have le: "start \<le> write_at t" "start \<le> add_at t" using ord(1) Cons.prems(2) by (simp_all add: in_order_def)
  have "read_at t - start < ttl" using Cons.prems(4) [of t k] e by simp
  then have "read_at t - w < ttl" if "last_write st k = Some w" for w using Cons.prems(3) [OF that] by linarith
  then have vis: "ts_visible ts (read_at t) k st \<longleftrightarrow> k \<in> set seen"
    using law [unfolded ttl_law_def, THEN conjunct1, rule_format, of "read_at t" k st] Cons.prems(5) by blast
  have upd: "last_write (ts_update ts (write_at t) k st) = (last_write st)(k \<mapsto> write_at t)"
    using law by (simp add: ttl_law_def)
  show ?case
  proof (cases "k \<in> set seen")
    case True
    have "plain_run ts es st = first_ids seen (map snd es)"
      by (rule Cons.IH [OF ord(2) le(2) Cons.prems(3) _ Cons.prems(5)]) (use Cons.prems(4) in auto)
    moreover have "first_ids (k # seen) (map snd es) = first_ids seen (map snd es)"
      by (rule first_ids_cong) (use True in auto)
    ultimately show ?thesis using vis True by (simp add: e plain_dedup_def)
  next
    case False
    have "plain_run ts es (ts_update ts (write_at t) k st) = first_ids (k # seen) (map snd es)"
    proof (rule Cons.IH [OF ord(2) le(2)])
      show "start \<le> w" if "last_write (ts_update ts (write_at t) k st) j = Some w" for j w
        using that Cons.prems(3) le(1) by (auto simp: upd split: if_splits)
      show "read_at u - start < ttl" if "(u, j) \<in> set es" for u j using that Cons.prems(4) by auto
      show "dom (last_write (ts_update ts (write_at t) k st)) = set (k # seen)"
        using Cons.prems(5) by (simp add: upd)
    qed
    then show ?thesis using vis False by (simp add: e plain_dedup_def)
  qed
qed simp

subsection \<open>Late events\<close>

text \<open>
  Bounded disorder: no event is older than the lag behind the latest event before it; \<open>m\<close> is the highest
  timestamp so far.
\<close>

fun disorder_within :: "int \<Rightarrow> int \<Rightarrow> job_item list \<Rightarrow> bool" where
  "disorder_within lag m [] = True"
| "disorder_within lag m (Elem e # is) \<longleftrightarrow>
     m - lag \<le> extract_timestamp e \<and> disorder_within lag (max m (extract_timestamp e)) is"
| "disorder_within lag m (Mark now v # is) = disorder_within lag m is"

text \<open>All events of a service in a window, on time or not.\<close>

fun events_of :: "(int \<Rightarrow> win \<Rightarrow> bool) \<Rightarrow> string \<Rightarrow> win \<Rightarrow> job_item list \<Rightarrow> service_span list" where
  "events_of asg k win [] = []"
| "events_of asg k win (Elem e # is) =
     (if service_key e = k \<and> asg (extract_timestamp e) win then e # events_of asg k win is else events_of asg k win is)"
| "events_of asg k win (Mark now v # is) = events_of asg k win is"

fun job_elements :: "job_item list \<Rightarrow> service_span list" where
  "job_elements [] = []"
| "job_elements (Elem e # is) = e # job_elements is"
| "job_elements (Mark now v # is) = job_elements is"

lemma events_of_elements:
  "events_of asg k win is = filter (\<lambda>e. service_key e = k \<and> asg (extract_timestamp e) win) (job_elements is)"
  by (induction asg k win "is" rule: events_of.induct) simp_all

lemma in_window_open: "in_window n d t win \<Longrightarrow> w < t \<Longrightarrow> \<not> win_closed w win"
  by (simp add: in_window_def win_closed_def)

lemma within_lag_on_time:
  "bounded_out_of_orderness lag m is \<Longrightarrow> disorder_within lag m is \<Longrightarrow> w < m - lag \<Longrightarrow>
     on_time (in_window n d) k win w is = events_of (in_window n d) k win is"
proof (induction "is" arbitrary: m w)
  case (Cons it "is")
  show ?case
  proof (cases it)
    case (Elem e)
    with Cons.prems have "w < extract_timestamp e" by simp
    then have "in_window n d (extract_timestamp e) win \<Longrightarrow> \<not> win_closed w win" by (rule in_window_open [rotated])
    moreover have "on_time (in_window n d) k win w is = events_of (in_window n d) k win is"
      by (rule Cons.IH [of "max m (extract_timestamp e)"]) (use Cons.prems Elem in auto)
    ultimately show ?thesis by (auto simp: Elem)
  next
    case (Mark now v)
    with Cons.prems have "max w v < m - lag" by simp
    with Cons.IH [of m "max w v"] Cons.prems Mark show ?thesis by simp
  qed
qed simp

text \<open>A timestamp always has a window: the one its slot starts.\<close>

lemma in_window_exists:
  assumes "0 < d" and "d \<le> n"
  shows "in_window n d t (d * (t div d), d * (t div d) + n)"
proof -
  have "d * (t div d) = t - t mod d" by (simp add: minus_mod_eq_mult_div)
  with assms pos_mod_bound [OF assms(1), of t] pos_mod_sign [OF assms(1), of t]
  show ?thesis by (simp add: in_window_def)
qed

lemma within_lag_never_late:
  assumes law: "window_law op (in_window n d) wmk buf" and "0 < d" and "d \<le> n"
  shows "bounded_out_of_orderness lag m is \<Longrightarrow> disorder_within lag m is \<Longrightarrow> wmk s < m - lag \<Longrightarrow>
     op_run op is s = (F, k, s') \<Longrightarrow> k = 0"
proof (induction "is" arbitrary: m s F k s')
  case (Cons it "is")
  show ?case
  proof (cases it)
    case it: (Elem e)
    let ?t = "extract_timestamp e"
    obtain late s1 where e: "wo_elem op (service_key e) ?t e s = (late, s1)" by fastforce
    obtain F1 j s2 where r: "op_run op is s1 = (F1, j, s2)" by (metis prod_cases3)
    note el = window_law_elem [OF law e]
    from Cons.prems it have t: "wmk s < ?t" by simp
    have "\<not> late" using in_window_open [OF in_window_exists [OF assms(2,3), of ?t] t] in_window_exists [OF assms(2,3), of ?t] el(1) by blast
    moreover have "j = 0"
      by (rule Cons.IH [OF _ _ _ r, of "max m ?t"]) (use Cons.prems it el(2) in auto)
    ultimately show ?thesis using Cons.prems(4) e r by (simp add: it)
  next
    case it: (Mark now v)
    obtain F1 s1 where a: "wo_advance op v s = (F1, s1)" by fastforce
    obtain F2 j s2 where r: "op_run op is s1 = (F2, j, s2)" by (metis prod_cases3)
    have "j = 0"
      by (rule Cons.IH [OF _ _ _ r, of m]) (use Cons.prems it window_law_advance(1) [OF law a] in auto)
    then show ?thesis using Cons.prems(4) a r by (simp add: it)
  qed
qed simp

lemma disorder_aggregates:
  assumes "flink_law fl" and "job_run fl env is (job_start fl agg zs w) = (Inr (), s)"
    and "watermark_strategy is" and "disorder_within 5000 (no_watermark + 5001) is"
    and "60000 dvd a" and "a + 60000 \<le> watermark_after no_watermark is"
  shows "jb_late s = 0 \<and>
         filter (aggregate_of k a) (jb_aggregates s) =
           (if events_of (in_window 60000 60000) k (a, a + 60000) is = [] then []
            else [aggregate_events (we_numpy env) k a (a + 60000)
                    (map snd (events_of (in_window 60000 60000) k (a, a + 60000) is))])"
proof -
  let ?es = "events_of (in_window 60000 60000) k (a, a + 60000) is"
  have lag: "bounded_out_of_orderness 5000 (no_watermark + 5001) is"
    using assms(3) by (simp add: watermark_strategy_def time_seconds_def watermark_lag_seconds_def add.assoc)
  from assms(1) obtain w1 b1 w2 b2 where law: "window_law (aggregation_windows fl) (in_window 60000 60000) w1 b1"
    "window_law (zscore_windows fl) (in_window 300000 30000) w2 b2"
    by (rule flink_laws)
  obtain F n t where r1: "op_run (aggregation_windows fl) is (wo_start (aggregation_windows fl)) = (F, n, t)"
    by (metis prod_cases3)
  obtain G m u where r2: "op_run (zscore_windows fl) is (wo_start (zscore_windows fl)) = (G, m, u)"
    by (metis prod_cases3)
  have start: "jb_tumbling (job_start fl agg zs w) = wo_start (aggregation_windows fl)"
    "jb_sliding (job_start fl agg zs w) = wo_start (zscore_windows fl)"
    "jb_aggregates (job_start fl agg zs w) = []" "jb_late (job_start fl agg zs w) = 0"
    by (simp_all add: job_start_def)
  note docs = job_run_docs [OF assms(2), unfolded start, OF r1 r2]
  have "n = 0" by (rule within_lag_never_late [OF law(1) _ _ lag assms(4) _ r1]) (simp_all add: window_law_start [OF law(1)])
  moreover have "m = 0" by (rule within_lag_never_late [OF law(2) _ _ lag assms(4) _ r2]) (simp_all add: window_law_start [OF law(2)])
  moreover have "on_time (in_window 60000 60000) k (a, a + 60000) no_watermark is = ?es"
    by (rule within_lag_on_time [OF lag assms(4)]) simp
  moreover have "win_closed (watermark_after no_watermark is) (a, a + 60000)"
    using assms(6) by (simp add: win_closed_def)
  ultimately show ?thesis
    using docs aggregates_of_window [OF law(1) r1, of a k env] by (simp add: aggregate_docs_def)
qed

text \<open>
  C20. Disorder of up to five seconds loses nothing: if no event is more than the lag of the watermarks older
  than the latest event before it, none is counted as late, and the record of each service and minute is
  computed over all events of that minute.
\<close>

theorem bounded_disorder_loses_nothing:
  assumes "flink_law fl" and "job_run fl env is (job_start fl agg zs w) = (Inr (), s)"
    and "watermark_strategy is" and "disorder_within 5000 (no_watermark + 5001) is"
    and "60000 dvd a" and "a + 60000 \<le> watermark_after no_watermark is"
    and "es = events_of (in_window 60000 60000) k (a, a + 60000) is"
  shows "jb_late s = 0 \<and>
         filter (aggregate_of k a) (jb_aggregates s) =
           (if es = [] then [] else [aggregate_events (we_numpy env) k a (a + 60000) (map snd es)])"
  unfolding assms(7) by (rule disorder_aggregates [OF assms(1-6)])

text \<open>
  An event that comes too late for the first of its ten sliding windows, but not for the last, is
  neither judged nor counted: the operator accepts it, so the counter of late events does not see it, and no
  anomaly of any later window is about an event of its time, because only the events of the last slide
  are judged and the one window in whose last slide it lies is closed.
\<close>

theorem missed_slide_unjudged:
  assumes "window_law op (in_window 300000 30000) wmk buf" and "numpy_law np"
    and "wo_elem op k t e s = (late, s')"
    and "30000 * (t div 30000 + 1) - 1 \<le> wmk s" and "wmk s < 30000 * (t div 30000 + 10) - 1"
    and "in_window 300000 30000 t win" and "\<not> win_closed (wmk s') win"
    and "evaluate_window np th n evs (snd win - slide_interval_seconds * 1000) = Inr (Some c)"
  shows "\<not> late \<and> sp_time (cand_event c) \<noteq> t"
proof
  note el = window_law_elem [OF assms(1,3)]
  from assms(6,7) el(1,2) show "\<not> late" by metis
  from assms(6) obtain i where i: "fst win = 30000 * i" "snd win = fst win + 300000"
    by (auto simp: in_window_def elim!: dvdE)
  obtain q where q: "q = t div 30000" by blast
  from assms(7) el(2) have "wmk s < snd win - 1" by (simp add: win_closed_def)
  with assms(4) i have "30000 * (q + 1) < 30000 * (i + 10)" unfolding q [symmetric] by (simp add: algebra_simps)
  then have "q + 1 < i + 10" by simp
  have "t < 30000 * (q + 1)"
    using mult_div_mod_eq [of 30000 t] pos_mod_bound [of 30000 t] unfolding q [symmetric] by (simp add: algebra_simps)
  moreover from \<open>q + 1 < i + 10\<close>
  have "30000 * (q + 1) \<le> 30000 * (i + 9)" by simp
  ultimately have "t < snd win - 30000" using i by (simp add: algebra_simps)
  moreover from assms(2,8) have "snd win - slide_interval_seconds * 1000 \<le> sp_time (cand_event c)"
    by (rule evaluate_elim)
  ultimately show "sp_time (cand_event c) \<noteq> t" by (simp add: slide_interval_seconds_def)
qed

subsection \<open>A concrete Flink\<close>

text \<open>
  Window operators that keep the log of the elements that were not late, with the watermark: the buffer of
  an open window is read off the log.
\<close>

type_synonym 'e window_log = "int \<times> (string \<times> int \<times> 'e) list"

definition ex_buf :: "int \<Rightarrow> int \<Rightarrow> 'e window_log \<Rightarrow> string \<Rightarrow> win \<Rightarrow> 'e list" where
  "ex_buf n d s k win =
     (if win_closed (fst s) win then []
      else map (snd \<circ> snd) (filter (\<lambda>x. fst x = k \<and> in_window n d (fst (snd x)) win) (snd s)))"

definition ex_wins :: "int \<Rightarrow> int \<Rightarrow> int \<Rightarrow> win list" where
  "ex_wins n d t =
     filter (in_window n d t)
       (map (\<lambda>i. (d * (t div d - int i), d * (t div d - int i) + n)) [0..<Suc (nat (n div d))])"

definition ex_op :: "int \<Rightarrow> int \<Rightarrow> ('e, 'e window_log) window_op" where
  "ex_op n d =
     \<lparr>wo_start = (no_watermark, []),
      wo_elem = (\<lambda>k t e s. (list_all (win_closed (fst s)) (ex_wins n d t), (fst s, snd s @ [(k, t, e)]))),
      wo_advance = (\<lambda>v s.
        (map (\<lambda>x. (fst x, snd x, ex_buf n d s (fst x) (snd x)))
           (filter (\<lambda>x. win_closed (max (fst s) v) (snd x) \<and> ex_buf n d s (fst x) (snd x) \<noteq> [])
             (remdups (concat (map (\<lambda>x. map (Pair (fst x)) (ex_wins n d (fst (snd x)))) (snd s))))),
         (max (fst s) v, snd s)))\<rparr>"

definition ex_flink :: "('e, 'e window_log) flink_api" where
  "ex_flink = \<lparr>fl_tumbling = (\<lambda>n. ex_op n n), fl_sliding = ex_op\<rparr>"

lemma set_ex_wins:
  assumes "0 < n" and "0 < d"
  shows "win \<in> set (ex_wins n d t) \<longleftrightarrow> in_window n d t win"
proof
  assume w: "in_window n d t win"
  then obtain j where j: "fst win = d * j" "snd win = d * j + n" "d * j \<le> t" "t < d * j + n"
    by (auto simp: in_window_def elim!: dvdE)
  let ?q = "t div d"
  have "t = d * ?q + t mod d" by simp
  with pos_mod_sign [OF assms(2), of t] pos_mod_bound [OF assms(2), of t]
  have q: "d * ?q \<le> t" and "t < d * ?q + d" by linarith+
  then have q1: "t < d * (?q + 1)" by (simp only: distrib_left mult_1_right)
  have "d * j < d * (?q + 1)" using j(3) q1 by linarith
  then have "j \<le> ?q" using assms(2) by simp
  have "d * (?q - j) \<le> n" using j(4) q by (simp add: algebra_simps)
  then have "d * (?q - j) div d \<le> n div d" using assms(2) by (rule zdiv_mono1)
  then have "?q - j \<le> n div d" using assms(2) by simp
  then have "nat (?q - j) \<in> set [0..<Suc (nat (n div d))]" by auto
  moreover have "win = (d * (?q - int (nat (?q - j))), d * (?q - int (nat (?q - j))) + n)"
    using j \<open>j \<le> ?q\<close> by (simp add: prod_eq_iff)
  ultimately show "win \<in> set (ex_wins n d t)"
    using w unfolding ex_wins_def set_filter set_map mem_Collect_eq by blast
qed (simp add: ex_wins_def del: upt_Suc)

lemma win_closed_max: "\<not> win_closed (max w v) win \<Longrightarrow> \<not> win_closed w win"
  by (simp add: win_closed_def)

lemma ex_op_elem:
  assumes "0 < n" and "0 < d" and "wo_elem (ex_op n d) k t e s = (late, s')"
  shows "late = (\<forall>win. in_window n d t win \<longrightarrow> win_closed (fst s) win)" and "fst s' = fst s"
    and "ex_buf n d s' j win = (if j = k \<and> in_window n d t win \<and> \<not> win_closed (fst s) win
           then ex_buf n d s j win @ [e] else ex_buf n d s j win)"
proof -
  from assms(3) have late: "late = list_all (win_closed (fst s)) (ex_wins n d t)"
    and s': "s' = (fst s, snd s @ [(k, t, e)])" by (auto simp: ex_op_def)
  show "late = (\<forall>win. in_window n d t win \<longrightarrow> win_closed (fst s) win)"
    unfolding late list_all_iff using set_ex_wins [OF assms(1,2)] by blast
  show "fst s' = fst s" by (simp add: s')
  show "ex_buf n d s' j win = (if j = k \<and> in_window n d t win \<and> \<not> win_closed (fst s) win
      then ex_buf n d s j win @ [e] else ex_buf n d s j win)"
    by (simp add: s' ex_buf_def)
qed

lemma ex_op_advance:
  assumes "0 < n" and "0 < d" and "wo_advance (ex_op n d) v s = (fired, s')"
  shows "fst s' = max (fst s) v" and "distinct (map (\<lambda>(k, win, es). (k, win)) fired)"
    and "(k, win, es) \<in> set fired \<longleftrightarrow> es = ex_buf n d s k win \<and> es \<noteq> [] \<and> win_closed (fst s') win"
    and "ex_buf n d s' k win = (if win_closed (fst s') win then [] else ex_buf n d s k win)"
proof -
  let ?keys = "concat (map (\<lambda>x. map (Pair (fst x)) (ex_wins n d (fst (snd x)))) (snd s))"
  let ?fs = "filter (\<lambda>x. win_closed (max (fst s) v) (snd x) \<and> ex_buf n d s (fst x) (snd x) \<noteq> []) (remdups ?keys)"
  from assms(3) have f: "fired = map (\<lambda>x. (fst x, snd x, ex_buf n d s (fst x) (snd x))) ?fs"
    and s': "s' = (max (fst s) v, snd s)" by (auto simp: ex_op_def)
  show "fst s' = max (fst s) v" by (simp add: s')
  have "map (\<lambda>(k, win, es). (k, win)) fired = ?fs" by (simp add: f comp_def)
  then show "distinct (map (\<lambda>(k, win, es). (k, win)) fired)" by (simp only: distinct_filter distinct_remdups)
  have "(k, win) \<in> set ?keys" if ne: "ex_buf n d s k win \<noteq> []"
  proof -
    from ne obtain x where x: "x \<in> set (snd s)" "fst x = k" "in_window n d (fst (snd x)) win"
      by (auto simp: ex_buf_def filter_empty_conv split: if_splits)
    with set_ex_wins [OF assms(1,2)] have "(k, win) \<in> set (map (Pair (fst x)) (ex_wins n d (fst (snd x))))"
      by simp
    with x(1) show ?thesis unfolding set_concat set_map [of _ "snd s"] by (intro UN_I [OF imageI])
  qed
  then have keys: "(k, win) \<in> set ?fs \<longleftrightarrow> ex_buf n d s k win \<noteq> [] \<and> win_closed (max (fst s) v) win"
    unfolding set_filter set_remdups mem_Collect_eq fst_conv snd_conv by argo
  obtain fs where fs: "fs = ?fs" by blast
  have "(k, win, es) \<in> set fired \<longleftrightarrow> (k, win) \<in> set fs \<and> es = ex_buf n d s k win"
    unfolding f fs [symmetric] by force
  with keys [folded fs] show "(k, win, es) \<in> set fired \<longleftrightarrow> es = ex_buf n d s k win \<and> es \<noteq> [] \<and> win_closed (fst s') win"
    unfolding s' fst_conv by (cases "es = ex_buf n d s k win") simp_all
  show "ex_buf n d s' k win = (if win_closed (fst s') win then [] else ex_buf n d s k win)"
    using win_closed_max [of "fst s" v win] by (simp add: s' ex_buf_def)
qed

lemma ex_op_law:
  assumes "0 < n" and "0 < d"
  shows "window_law (ex_op n d) (in_window n d) fst (ex_buf n d)"
  unfolding window_law_def
  apply (intro conjI allI impI)
          apply (simp add: ex_op_def)
         apply (simp add: ex_op_def ex_buf_def)
        apply (erule ex_op_elem(1) [OF assms])
       apply (erule ex_op_elem(2) [OF assms])
      apply (erule ex_op_elem(3) [OF assms])
     apply (erule ex_op_advance(1) [OF assms])
    apply (erule ex_op_advance(2) [OF assms])
   apply (erule ex_op_advance(3) [OF assms])
  apply (erule ex_op_advance(4) [OF assms])
  done

lemma ex_flink_law: "flink_law ex_flink"
  unfolding flink_law_def ex_flink_def flink_api.simps using ex_op_law by blast

text \<open>The database and the Redis of \<open>ex_env\<close> answer every window function.\<close>

lemma ex_tsdb_run:
  assumes "conn_set u" and "\<And>w. \<exists>w'. oper w = (Inr (), w')"
  shows "\<exists>t. tsdb_run (we_tsdb ex_env) oper u = (Inr (), t) \<and> conn_set t"
proof -
  obtain w where w: "oper (tsdb_world u) = (Inr (), w)" using assms(2) by blast
  show ?thesis
    using assms(1) w
    by (simp add: tsdb_run_def tsdb_attempts_def numeral_3_eq_3 try_once_def ensure_conn_def bnd_def
        on_tsdb_def ex_env_def split: prod.splits)
qed

lemma ex_aggregation_ok:
  assumes "conn_set (ws_tsdb u)"
  shows "\<exists>ds t. aggregation_function ex_env k win es u = (Inr ds, t) \<and> conn_set (ws_tsdb t)"
proof -
  have ops: "\<exists>w'. we_insert_metrics ex_env b rows w = (Inr (), w')" for b rows w by (simp add: ex_env_def)
  obtain t where "write_metric (we_tsdb ex_env) (we_insert_metrics ex_env)
      (aggregate_events (we_numpy ex_env) k (fst win) (snd win) (map snd es) @
        [(''timestamp_iso'', PStr (we_iso_utc ex_env (snd win)))]) (ws_tsdb u) = (Inr (), t)" "conn_set t"
    using ex_tsdb_run [where oper = "we_insert_metrics ex_env b rows" for b rows, OF assms ops]
    by (auto simp: write_metric_def metric_rows_def aggregate_events_def dict_defs)
  then show ?thesis using assms by (simp add: aggregation_function_def aggregate_process_def)
qed

lemma evaluate_window_total:
  "\<exists>c. evaluate_window np zscore_threshold min_window_events evs nf = Inr c"
proof (cases "length evs < min_window_events")
  case False
  then have "10 \<le> length evs" by (simp add: min_window_events_def)
  then have "0 < length evs" by linarith
  then have "[0..<length evs] \<noteq> []" by simp
  from py_key_nonempty(1) [OF this] obtain i
    where "py_max_key (\<lambda>i. sp_time (evs ! i)) [0..<length evs] = Inr i" by blast
  with False show ?thesis by (simp add: evaluate_window_def Let_def)
qed (simp add: evaluate_window_def)

lemma ex_zscore_ok:
  assumes "conn_set (ws_tsdb u)"
  shows "\<exists>ds t. zscore_function ex_env now k win es u = (Inr ds, t) \<and> conn_set (ws_tsdb t)"
proof -
  obtain r where r: "evaluate_window (we_numpy ex_env) zscore_threshold min_window_events (map snd es)
      (snd win - slide_interval_seconds * 1000) = Inr r" using evaluate_window_total by blast
  show ?thesis
  proof (cases r)
    case None
    with r assms show ?thesis by (simp add: zscore_function_def zscore_process_def)
  next
    case (Some c)
    have ops: "\<exists>w'. we_insert_anomaly ex_env row w = (Inr (), w')" for row w
      by (cases w) (simp add: ex_env_def)
    obtain t where t: "write_anomaly (we_tsdb ex_env) (we_insert_anomaly ex_env)
        (anomaly_row_of (we_iso_utc ex_env) k (build_anomaly (we_uuid5 ex_env) k c)) (ws_tsdb u) = (Inr (), t)" "conn_set t"
      using ex_tsdb_run [where oper = "we_insert_anomaly ex_env row" for row, OF assms ops]
      by (auto simp: write_anomaly_def)
    let ?a = "build_anomaly (we_uuid5 ex_env) k c"
    obtain lg where "record_anomaly (we_zadd_and_trim ex_env) now (ae_service_id ?a) (ae_type ?a) (ae_detected_at ?a)
        (ae_score ?a) (ws_topk_log u, tsdb_world t) = (Inr False, (lg, tsdb_world t))"
      by (simp add: record_anomaly_def ex_env_def)
    with r Some t show ?thesis by (simp add: zscore_function_def zscore_process_def Let_def)
  qed
qed

lemma fire_windows_ok:
  assumes "\<And>k win es s. P s \<Longrightarrow> \<exists>ds t. f k win es s = (Inr ds, t) \<and> P t"
  shows "P s \<Longrightarrow> \<exists>ds t. fire_windows f fired s = (Inr ds, t) \<and> P t"
proof (induction fired arbitrary: s)
  case (Cons x fired)
  obtain k win es where x: "x = (k, win, es)" by (rule prod_cases3)
  from assms [OF Cons.prems] obtain ds t where "f k win es s = (Inr ds, t)" "P t" by blast
  with Cons.IH [of t] show ?case by (auto simp: x bnd_def ret_def)
qed (simp add: ret_def)

definition connected_job :: "('st, 'w) job \<Rightarrow> bool" where
  "connected_job s \<longleftrightarrow> conn_set (ws_tsdb (jb_agg s)) \<and> conn_set (ws_tsdb (jb_zs s))"

lemma ex_watermark_ok:
  assumes "connected_job s"
  shows "\<exists>t. job_watermark fl ex_env now v s = (Inr (), t) \<and> connected_job t"
proof -
  let ?c = "\<lambda>u :: ex_rows window_state. conn_set (ws_tsdb u)"
  obtain F1 t1 where a1: "wo_advance (aggregation_windows fl) v (jb_tumbling s) = (F1, t1)" by fastforce
  obtain F2 t2 where a2: "wo_advance (zscore_windows fl) v (jb_sliding s) = (F2, t2)" by fastforce
  have "?c ((jb_agg s)\<lparr>ws_tsdb := (ws_tsdb (jb_agg s))\<lparr>tsdb_world := jb_world s\<rparr>\<rparr>)"
    using assms by (simp add: connected_job_def)
  from fire_windows_ok [of ?c "aggregation_function ex_env", OF ex_aggregation_ok this] obtain ds u
    where u: "fire_windows (aggregation_function ex_env) F1
      ((jb_agg s)\<lparr>ws_tsdb := (ws_tsdb (jb_agg s))\<lparr>tsdb_world := jb_world s\<rparr>\<rparr>) = (Inr ds, u)" "?c u" by blast
  have "?c ((jb_zs s)\<lparr>ws_tsdb := (ws_tsdb (jb_zs s))\<lparr>tsdb_world := tsdb_world (ws_tsdb u)\<rparr>\<rparr>)"
    using assms by (simp add: connected_job_def)
  from fire_windows_ok [of ?c "zscore_function ex_env (of_int now)", OF ex_zscore_ok this] obtain es x
    where x: "fire_windows (zscore_function ex_env (of_int now)) F2
      ((jb_zs s)\<lparr>ws_tsdb := (ws_tsdb (jb_zs s))\<lparr>tsdb_world := tsdb_world (ws_tsdb u)\<rparr>\<rparr>) = (Inr es, x)" "?c x" by blast
  from u x show ?thesis
    by (simp add: job_watermark_def a1 a2 bnd_def fire_aggregates_def fire_anomalies_def in_world_def connected_job_def)
qed

lemma ex_job_never_fails: "connected_job s \<Longrightarrow> \<exists>t. job_run fl ex_env is s = (Inr (), t)"
proof (induction "is" arbitrary: s)
  case (Cons it "is")
  show ?case
  proof (cases it)
    case (Elem e)
    have "connected_job (job_element fl e s)"
      using Cons.prems by (simp add: connected_job_def job_element_def count_late_def Let_def split: prod.splits)
    with Cons.IH show ?thesis by (simp add: Elem)
  next
    case (Mark now v)
    from ex_watermark_ok [OF Cons.prems] obtain t where "job_watermark fl ex_env now v s = (Inr (), t)" "connected_job t"
      by blast
    with Cons.IH [of t] show ?thesis by (simp add: Mark bnd_def)
  qed
qed (simp add: ret_def)

text \<open>The spike of \<open>ex_window\<close>, then an event of minute 11 whose watermark closes every earlier window.\<close>

definition ex_items :: "job_item list" where
  "ex_items = map (\<lambda>x. Elem (''svc-a'', x)) ex_window @ [Elem (''svc-a'', ex_span 700000 1), Mark 0 694999]"

definition ex_item :: service_span where
  "ex_item = (''svc-a'', ex_span 1000 50)"

definition ex_job :: "(service_span window_log, ex_rows) job" where
  "ex_job = job_start ex_flink ex_window_state ex_window_state ({}, {})"

lemma ex_items_run: "\<exists>s. job_run ex_flink ex_env ex_items ex_job = (Inr (), s)"
  by (rule ex_job_never_fails) (simp add: connected_job_def ex_job_def job_start_def ex_window_state_def)

lemma ex_items_expand:
  "ex_items = replicate 16 (Elem (''svc-a'', ex_span 299000 0)) @
     [Elem (''svc-a'', ex_span 299500 17), Elem (''svc-a'', ex_span 700000 1), Mark 0 694999]"
  by (simp add: ex_items_def ex_window_def map_replicate)

lemma ex_items_watermark: "watermark_after no_watermark ex_items = 694999"
  by (simp add: ex_items_expand numeral_eq_Suc no_watermark_def)

lemma ex_items_minute:
  "on_time (in_window 60000 60000) ''svc-a'' (240000, 300000) no_watermark ex_items = map (Pair ''svc-a'') ex_window"
  "events_of (in_window 60000 60000) ''svc-a'' (240000, 300000) ex_items = map (Pair ''svc-a'') ex_window"
  by (simp_all add: ex_items_expand ex_window_def map_replicate eval_nat_numeral service_key_def extract_timestamp_def
      ex_span_def in_window_def win_closed_def no_watermark_def)

lemma ex_window_pairs: "map (Pair ''svc-a'') ex_window \<noteq> []" "map snd (map (Pair ''svc-a'') ex_window) = ex_window"
  by (simp_all add: ex_window_def comp_def)

theorem aggregates_exact_witness:
  "\<exists>s. job_run ex_flink ex_env ex_items ex_job = (Inr (), s) \<and>
       filter (aggregate_of ''svc-a'' 240000) (jb_aggregates s) =
         [aggregate_events (we_numpy ex_env) ''svc-a'' 240000 300000 ex_window]"
proof -
  obtain s where run: "job_run ex_flink ex_env ex_items ex_job = (Inr (), s)" using ex_items_run by blast
  have "(60000 :: int) dvd 240000" "240000 + 60000 \<le> watermark_after no_watermark ex_items"
    by (simp_all add: ex_items_watermark)
  from aggregates_exact [OF ex_flink_law run [unfolded ex_job_def] this, of "map (Pair ''svc-a'') ex_window" "''svc-a''"]
  show ?thesis using run ex_window_pairs ex_items_minute(1) by simp
qed

theorem anomaly_ids_unique_witness:
  "\<exists>s. job_run ex_flink ex_env ex_items ex_job = (Inr (), s) \<and> distinct (map doc_id (jb_anomalies s))"
proof -
  obtain s where run: "job_run ex_flink ex_env ex_items ex_job = (Inr (), s)" using ex_items_run by blast
  have "numpy_law (we_numpy ex_env)" "inj (we_uuid5 ex_env)"
    using ex_numpy_law by (simp_all add: ex_env_def)
  from anomaly_ids_unique [OF ex_flink_law this run [unfolded ex_job_def]] run show ?thesis by blast
qed

theorem bounded_disorder_loses_nothing_witness:
  "\<exists>s. job_run ex_flink ex_env ex_items ex_job = (Inr (), s) \<and> jb_late s = 0"
proof -
  obtain s where run: "job_run ex_flink ex_env ex_items ex_job = (Inr (), s)" using ex_items_run by blast
  have strategy: "watermark_strategy ex_items" "disorder_within 5000 (no_watermark + 5001) ex_items"
    by (simp_all add: watermark_strategy_def time_seconds_def watermark_lag_seconds_def ex_items_expand
        eval_nat_numeral extract_timestamp_def ex_span_def no_watermark_def)
  have "(60000 :: int) dvd 240000" "240000 + 60000 \<le> watermark_after no_watermark ex_items"
    by (simp_all add: ex_items_watermark)
  from bounded_disorder_loses_nothing [OF ex_flink_law run [unfolded ex_job_def] strategy this refl] run show ?thesis by blast
qed

theorem missed_slide_unjudged_witness:
  "\<not> fst (wo_elem (ex_op 300000 30000) ''svc-a'' 1000 ex_item (35000, [])) \<and> sp_time (cand_event ex_candidate) \<noteq> 1000"
proof -
  obtain late s' where e: "wo_elem (ex_op 300000 30000) ''svc-a'' 1000 (ex_item :: service_span) (35000, []) = (late, s')"
    by (rule prod.exhaust)
  then have "fst s' = 35000" by (auto simp: ex_op_def)
  then have "\<not> win_closed (fst s') (0, 300000)" by (simp add: win_closed_def)
  moreover have "evaluate_window ex_numpy zscore_threshold min_window_events ex_window
      (snd (0, 300000) - slide_interval_seconds * 1000) = Inr (Some ex_candidate)"
    using ex_evaluate by (simp add: slide_interval_seconds_def)
  moreover have "in_window 300000 30000 1000 (0, 300000)" by (simp add: in_window_def)
  ultimately show ?thesis
    using missed_slide_unjudged [OF ex_op_law ex_numpy_law e, of "(0, 300000)"] by (simp add: e)
qed

end
