(* ===== verification/Flink_Runtime.thy ===== *)
theory Flink_Runtime
  imports Prelude "HOL-Library.Char_ord" "HOL-Library.List_Lexorder"
begin

section \<open>The connector JARs of the Flink job and its start\<close>

text \<open>
  \<open>flink_jobs/fetch_jars.py\<close>, \<open>flink_jobs/runtime.py\<close>, \<open>serve_metrics\<close> of \<open>flink_jobs/metrics.py\<close> and
  \<open>observability/server.py\<close>: the download of pinned JARs, the directories of the job, the metrics servers
  and the order of the job's start. Files are a map from paths to contents; SHA-1, the network and
  \<open>prometheus_client\<close> are parameters.
\<close>

subsection \<open>Hashing a file in chunks\<close>

type_synonym 'b files = "string \<Rightarrow> 'b list option"

text \<open>A hash object of \<open>hashlib\<close>: feeding it two pieces is feeding it both at once.\<close>

record ('b, 'h) hasher =
  h_new :: 'h
  h_update :: "'b list \<Rightarrow> 'h \<Rightarrow> 'h"
  h_hexdigest :: "'h \<Rightarrow> string"

definition hasher_law :: "('b, 'h) hasher \<Rightarrow> bool" where
  "hasher_law hs \<longleftrightarrow>
     (\<forall>h. h_update hs [] h = h) \<and> (\<forall>xs ys h. h_update hs ys (h_update hs xs h) = h_update hs (xs @ ys) h)"

definition chunk_size :: nat where
  "chunk_size = 2 ^ 20"

text \<open>\<open>iter(lambda: f.read(n), b"")\<close>: reads until a read returns nothing.\<close>

function read_chunks :: "nat \<Rightarrow> 'b list \<Rightarrow> 'b list list" where
  "read_chunks n xs = (if n = 0 \<or> xs = [] then [] else take n xs # read_chunks n (drop n xs))"
  by pat_completeness auto
termination by (relation "measure (\<lambda>(n, xs). length xs)") (auto simp: neq_Nil_conv)

declare read_chunks.simps [simp del]

definition sha1_of :: "('b, 'h) hasher \<Rightarrow> string \<Rightarrow> 'b files \<Rightarrow> exn + string" where
  "sha1_of hs path fs =
     (case fs path of
        None \<Rightarrow> Inl (ExternalError ''FileNotFoundError'')
      | Some xs \<Rightarrow> Inr (h_hexdigest hs (fold (h_update hs) (read_chunks chunk_size xs) (h_new hs))))"

text \<open>The digest of a whole content.\<close>

definition digest :: "('b, 'h) hasher \<Rightarrow> 'b list \<Rightarrow> string" where
  "digest hs xs = h_hexdigest hs (h_update hs xs (h_new hs))"

lemma concat_read_chunks: "0 < n \<Longrightarrow> concat (read_chunks n xs) = xs"
  by (induction n xs rule: read_chunks.induct) (subst read_chunks.simps, simp)

lemma fold_update: "hasher_law hs \<Longrightarrow> fold (h_update hs) xss h = h_update hs (concat xss) h"
  by (induction xss arbitrary: h) (simp_all add: hasher_law_def)

lemma sha1_of_digest: "hasher_law hs \<Longrightarrow> fs path = Some xs \<Longrightarrow> sha1_of hs path fs = Inr (digest hs xs)"
  by (simp add: sha1_of_def digest_def fold_update concat_read_chunks chunk_size_def)

subsection \<open>Fetching the JARs\<close>

record jar =
  jar_group :: string
  jar_artifact :: string
  jar_version :: string
  jar_sha1 :: string

definition jars :: "jar list" where
  "jars =
     [\<lparr>jar_group = ''org/apache/flink'', jar_artifact = ''flink-sql-connector-kafka'', jar_version = ''3.0.2-1.18'',
       jar_sha1 = ''2c2d486dfc3fb759ee3b8c9dc5e1f21dd9b74d2d''\<rparr>]"

definition jar_name :: "jar \<Rightarrow> string" where
  "jar_name j = jar_artifact j @ ''-'' @ jar_version j @ ''.jar''"

definition jar_dest :: "string \<Rightarrow> jar \<Rightarrow> string" where
  "jar_dest lib j = lib @ ''/'' @ jar_name j"

definition jar_url :: "jar \<Rightarrow> string" where
  "jar_url j =
     ''https://repo1.maven.org/maven2/'' @ jar_group j @ ''/'' @ jar_artifact j @ ''/'' @ jar_version j @ ''/'' @ jar_name j"

definition part_of :: "string \<Rightarrow> string" where
  "part_of dest = dest @ ''.part''"

text \<open>
  \<open>urlretrieve(url, path)\<close>: what has been written to \<open>path\<close> (\<open>None\<close>: nothing), also when it raises.
\<close>

record ('b, 'h, 'w) fetch_api =
  fa_hasher :: "('b, 'h) hasher"
  fa_retrieve :: "string \<Rightarrow> 'w \<Rightarrow> exn option \<times> 'b list option \<times> 'w"

record ('b, 'w) disk =
  dk_files :: "'b files"
  dk_world :: 'w

definition written :: "string \<Rightarrow> 'b list option \<Rightarrow> 'b files \<Rightarrow> 'b files" where
  "written path xs fs = (case xs of None \<Rightarrow> fs | Some ys \<Rightarrow> fs(path \<mapsto> ys))"

definition download :: "('b, 'h, 'w) fetch_api \<Rightarrow> string \<Rightarrow> jar \<Rightarrow> (('b, 'w) disk, unit) prog" where
  "download api lib j s =
     (let dest = jar_dest lib j; tmp = part_of dest in
      case fa_retrieve api (jar_url j) (dk_world s) of
        (Some e, xs, w) \<Rightarrow> (Inl e, \<lparr>dk_files = written tmp xs (dk_files s), dk_world = w\<rparr>)
      | (None, xs, w) \<Rightarrow>
          (let fs = written tmp xs (dk_files s); s1 = \<lparr>dk_files = fs, dk_world = w\<rparr> in
           case sha1_of (fa_hasher api) tmp fs of
             Inl e \<Rightarrow> (Inl e, s1)
           | Inr got \<Rightarrow>
               if got \<noteq> jar_sha1 j
               then (Inl (ExternalError ''SystemExit''), s1\<lparr>dk_files := fs(tmp := None)\<rparr>)
               else (Inr (), s1\<lparr>dk_files := fs(tmp := None, dest := fs tmp)\<rparr>)))"

definition have_jar :: "('b, 'h, 'w) fetch_api \<Rightarrow> string \<Rightarrow> jar \<Rightarrow> 'b files \<Rightarrow> bool" where
  "have_jar api lib j fs =
     (case fs (jar_dest lib j) of
        None \<Rightarrow> False
      | Some _ \<Rightarrow> sha1_of (fa_hasher api) (jar_dest lib j) fs = Inr (jar_sha1 j))"

fun fetch_jars :: "('b, 'h, 'w) fetch_api \<Rightarrow> string \<Rightarrow> jar list \<Rightarrow> (('b, 'w) disk, string list) prog" where
  "fetch_jars api lib [] = ret []"
| "fetch_jars api lib (j # js) =
     bnd (\<lambda>s. if have_jar api lib j (dk_files s) then (Inr (), s) else download api lib j s) (\<lambda>_.
     bnd (fetch_jars api lib js) (\<lambda>paths. ret (jar_dest lib j # paths)))"

definition fetch_all :: "('b, 'h, 'w) fetch_api \<Rightarrow> string \<Rightarrow> (('b, 'w) disk, string list) prog" where
  "fetch_all api lib = fetch_jars api lib jars"

subsection \<open>Nothing unverified is installed\<close>

definition verified :: "('b, 'h) hasher \<Rightarrow> jar \<Rightarrow> 'b list option \<Rightarrow> bool" where
  "verified hs j c \<longleftrightarrow> (\<exists>xs. c = Some xs \<and> digest hs xs = jar_sha1 j)"

lemma part_neq: "part_of a \<noteq> a" "a \<noteq> part_of a"
  by (simp_all add: part_of_def)

lemma written_other: "path \<noteq> q \<Longrightarrow> written q xs fs path = fs path"
  by (simp add: written_def split: option.splits)

lemma download_dest:
  assumes "hasher_law (fa_hasher api)" and "download api lib j s = (r, t)"
  shows "(r = Inr () \<and> verified (fa_hasher api) j (dk_files t (jar_dest lib j))) \<or>
         ((\<exists>e. r = Inl e) \<and> dk_files t (jar_dest lib j) = dk_files s (jar_dest lib j))"
    and "path \<noteq> jar_dest lib j \<Longrightarrow> path \<noteq> part_of (jar_dest lib j) \<Longrightarrow> dk_files t path = dk_files s path"
proof -
  let ?d = "jar_dest lib j" and ?tmp = "part_of (jar_dest lib j)"
  obtain err xs w where ret: "fa_retrieve api (jar_url j) (dk_world s) = (err, xs, w)" by (rule prod_cases3)
  let ?fs = "written ?tmp xs (dk_files s)"
  have "((r = Inr () \<and> verified (fa_hasher api) j (dk_files t ?d)) \<or> ((\<exists>e. r = Inl e) \<and> dk_files t ?d = dk_files s ?d)) \<and>
      (path \<noteq> ?d \<longrightarrow> path \<noteq> ?tmp \<longrightarrow> dk_files t path = dk_files s path)"
  proof (cases "err = None \<and> sha1_of (fa_hasher api) ?tmp ?fs = Inr (jar_sha1 j)")
    case True
    then obtain ys where ys: "?fs ?tmp = Some ys" by (auto simp: sha1_of_def split: option.splits)
    with True sha1_of_digest [OF assms(1), of ?fs ?tmp ys] have "digest (fa_hasher api) ys = jar_sha1 j" by simp
    with assms(2) True ret ys show ?thesis
      by (auto simp: download_def Let_def verified_def part_neq written_other)
  next
    case False
    with assms(2) ret show ?thesis
      by (auto simp: download_def Let_def part_neq written_other split: option.splits sum.splits)
  qed
  then show "(r = Inr () \<and> verified (fa_hasher api) j (dk_files t ?d)) \<or>
      ((\<exists>e. r = Inl e) \<and> dk_files t ?d = dk_files s ?d)"
    and "path \<noteq> ?d \<Longrightarrow> path \<noteq> ?tmp \<Longrightarrow> dk_files t path = dk_files s path" by blast+
qed

text \<open>Destinations that are neither each other nor each other's temporary files.\<close>

definition apart :: "string \<Rightarrow> jar list \<Rightarrow> bool" where
  "apart lib js \<longleftrightarrow>
     distinct (map (jar_dest lib) js) \<and>
     list_all (\<lambda>i. list_all (\<lambda>j. jar_dest lib i \<noteq> part_of (jar_dest lib j)) js) js"

lemma fetch_jars_outcome:
  assumes "hasher_law (fa_hasher api)"
  shows "apart lib js \<Longrightarrow> fetch_jars api lib js s = (r, t) \<Longrightarrow>
     (\<forall>paths. r = Inr paths \<longrightarrow> paths = map (jar_dest lib) js \<and>
        (\<forall>j \<in> set js. verified (fa_hasher api) j (dk_files t (jar_dest lib j)))) \<and>
     (\<forall>j \<in> set js. verified (fa_hasher api) j (dk_files t (jar_dest lib j)) \<or>
        dk_files t (jar_dest lib j) = dk_files s (jar_dest lib j)) \<and>
     (\<forall>path. (\<forall>j \<in> set js. path \<noteq> jar_dest lib j \<and> path \<noteq> part_of (jar_dest lib j)) \<longrightarrow>
        dk_files t path = dk_files s path)"
proof (induction js arbitrary: s r t)
  case Nil
  then show ?case by (auto simp: ret_def)
next
  case (Cons j js)
  let ?hs = "fa_hasher api" and ?d = "jar_dest lib j"
  obtain q u where one: "(if have_jar api lib j (dk_files s) then (Inr (), s) else download api lib j s) = (q, u)"
    by fastforce
  have here: "((q = Inr () \<and> verified ?hs j (dk_files u ?d)) \<or> ((\<exists>e. q = Inl e) \<and> dk_files u ?d = dk_files s ?d)) \<and>
      (\<forall>path. path \<noteq> ?d \<longrightarrow> path \<noteq> part_of ?d \<longrightarrow> dk_files u path = dk_files s path)"
  proof (cases "have_jar api lib j (dk_files s)")
    case True
    then obtain xs where xs: "dk_files s ?d = Some xs" "sha1_of ?hs ?d (dk_files s) = Inr (jar_sha1 j)"
      by (auto simp: have_jar_def split: option.splits)
    with sha1_of_digest [OF assms, of "dk_files s" ?d xs] one True show ?thesis by (auto simp: verified_def)
  next
    case False
    with one have "download api lib j s = (q, u)" by simp
    from download_dest [OF assms this] show ?thesis by blast
  qed
  from Cons.prems(1) have apart: "apart lib js" and sep: "?d \<notin> set (map (jar_dest lib) js)"
    "\<And>i. i \<in> set js \<Longrightarrow> jar_dest lib i \<noteq> part_of ?d \<and> ?d \<noteq> part_of (jar_dest lib i)"
    by (auto simp: apart_def list_all_iff)
  have others: "dk_files u (jar_dest lib i) = dk_files s (jar_dest lib i)" if "i \<in> set js" for i
  proof -
    from that sep(1) have "jar_dest lib i \<noteq> ?d" by (metis imageI set_map)
    moreover from that sep(2) have "jar_dest lib i \<noteq> part_of ?d" by blast
    ultimately show ?thesis using here by blast
  qed
  show ?case
  proof (cases q)
    case (Inl e)
    with Cons.prems(2) one have "r = Inl e" "t = u" by (simp_all add: bnd_def)
    with here others Inl show ?thesis by auto
  next
    case (Inr x)
    obtain r' t' where rest: "fetch_jars api lib js u = (r', t')" by fastforce
    with Cons.prems(2) one Inr have r: "r = (case r' of Inl e \<Rightarrow> Inl e | Inr ps \<Rightarrow> Inr (?d # ps))" and t: "t = t'"
      by (auto simp: bnd_def ret_def split: sum.splits)
    note IH = Cons.IH [OF apart rest]
    have "\<forall>i \<in> set js. ?d \<noteq> jar_dest lib i \<and> ?d \<noteq> part_of (jar_dest lib i)"
      using sep by (metis imageI set_map)
    with IH have "dk_files t ?d = dk_files u ?d" unfolding t by blast
    then show ?thesis using IH here others Inr unfolding r t by (auto split: sum.splits)
  qed
qed

lemma jars_apart: "apart lib jars"
  by (simp add: apart_def jars_def part_neq)

text \<open>
  An unverified JAR is never installed: whatever the network delivers, where it breaks off and what the
  directory held before, afterwards every destination holds content with the pinned hash or what it held
  before, no other file but the temporary ones is touched, and if the script ends normally, every
  destination holds content with the pinned hash.
\<close>

theorem fetch_all_verified:
  assumes "hasher_law (fa_hasher api)" and "fetch_all api lib s = (r, t)" and "j \<in> set jars"
  shows "(verified (fa_hasher api) j (dk_files t (jar_dest lib j)) \<or>
            ((\<exists>e. r = Inl e) \<and> dk_files t (jar_dest lib j) = dk_files s (jar_dest lib j))) \<and>
         (\<forall>path. path \<notin> jar_dest lib ` set jars \<union> part_of ` jar_dest lib ` set jars \<longrightarrow>
            dk_files t path = dk_files s path)"
  using fetch_jars_outcome [OF assms(1) jars_apart assms(2) [unfolded fetch_all_def]] assms(3)
  by (cases r) auto

subsection \<open>The JARs the job loads\<close>

definition ends_with :: "string \<Rightarrow> string \<Rightarrow> bool" where
  "ends_with suffix s \<longleftrightarrow> length suffix \<le> length s \<and> drop (length s - length suffix) s = suffix"

text \<open>\<open>connector_jars\<close>: \<open>names\<close> is the listing of the directory, \<open>as_uri\<close> is \<open>resolve().as_uri()\<close>.\<close>

definition connector_jars :: "(string \<Rightarrow> string) \<Rightarrow> string list \<Rightarrow> exn + string list" where
  "connector_jars as_uri names =
     (let found = sort (filter (ends_with ''.jar'') names)
      in if found = [] then Inl (RuntimeError ''No connector JARs'') else Inr (map as_uri found))"

lemma ends_with_append [simp]: "ends_with suf (xs @ suf)"
  by (simp add: ends_with_def)

lemma part_is_no_jar: "\<not> ends_with ''.jar'' (part_of p)"
  by (simp add: ends_with_def part_of_def)

lemma dest_is_jar: "ends_with ''.jar'' (jar_dest lib j)"
proof -
  have "jar_dest lib j = (lib @ ''/'' @ jar_artifact j @ ''-'' @ jar_version j) @ ''.jar''"
    by (simp add: jar_dest_def jar_name_def)
  then show ?thesis by (simp only: ends_with_append)
qed

text \<open>
  After the script ended normally in a directory that held no JARs but pinned ones, the job finds every pinned
  JAR and nothing else, temporary files included, and each has the pinned hash.
\<close>

lemma loaded_jars:
  assumes "hasher_law (fa_hasher api)" and "fetch_all api lib s = (Inr paths, t)"
    and "{p. dk_files s p \<noteq> None \<and> ends_with ''.jar'' p} \<subseteq> jar_dest lib ` set jars"
    and "set names = {p. dk_files t p \<noteq> None}"
  shows "\<exists>uris. connector_jars as_uri names = Inr uris \<and> set uris = as_uri ` jar_dest lib ` set jars \<and>
           (\<forall>j \<in> set jars. verified (fa_hasher api) j (dk_files t (jar_dest lib j)))"
proof -
  note out = fetch_jars_outcome [OF assms(1) jars_apart assms(2) [unfolded fetch_all_def]]
  have ok: "verified (fa_hasher api) j (dk_files t (jar_dest lib j))" if "j \<in> set jars" for j
    using out that by blast
  have "p \<in> jar_dest lib ` set jars" if "p \<in> set names" "ends_with ''.jar'' p" for p
  proof (rule ccontr)
    assume "p \<notin> jar_dest lib ` set jars"
    moreover from that(2) part_is_no_jar have "p \<notin> part_of ` jar_dest lib ` set jars" by blast
    ultimately have "dk_files t p = dk_files s p" using out by blast
    with assms(3) assms(4) that \<open>p \<notin> jar_dest lib ` set jars\<close> show False by auto
  qed
  moreover have "jar_dest lib j \<in> set names" if "j \<in> set jars" for j
    using ok [OF that] assms(4) by (auto simp: verified_def)
  ultimately have names: "{p \<in> set names. ends_with ''.jar'' p} = jar_dest lib ` set jars"
    using dest_is_jar by blast
  obtain found where found: "found = sort (filter (ends_with ''.jar'') names)" by blast
  have set: "set found = jar_dest lib ` set jars" unfolding found set_sort set_filter by (fact names)
  have "jar_dest lib ` set jars \<noteq> {}" by (simp add: jars_def)
  with set have "found \<noteq> []" by (metis list.set(1))
  then have "connector_jars as_uri names = Inr (map as_uri found)"
    unfolding connector_jars_def Let_def found [symmetric] by simp
  then show ?thesis using ok by (intro exI [of _ "map as_uri found"]) (simp only: set_map set, blast)
qed

subsection \<open>The directories and servers of the metrics\<close>

text \<open>
  \<open>prepare_metrics_dir\<close>: the directory named by the environment, or a default that is put into it; the
  counter files of a previous run are removed as far as the system allows (\<open>stale\<close> is the result of the glob).
\<close>

definition metrics_dir :: "(string \<rightharpoonup> string) \<Rightarrow> string \<Rightarrow> string" where
  "metrics_dir environ tmp =
     (case environ ''PROMETHEUS_MULTIPROC_DIR'' of Some d \<Rightarrow> d | None \<Rightarrow> tmp @ ''/distrosense-flink-metrics'')"

definition prepare_metrics_dir ::
  "(string \<Rightarrow> bool) \<Rightarrow> (string \<Rightarrow> string list) \<Rightarrow> string \<Rightarrow> (string \<rightharpoonup> string) \<times> 'b files \<Rightarrow> string \<times> (string \<rightharpoonup> string) \<times> 'b files" where
  "prepare_metrics_dir removable stale tmp s =
     (let (environ, fs) = s; d = metrics_dir environ tmp
      in (d, environ(''PROMETHEUS_MULTIPROC_DIR'' \<mapsto> d),
          fold (\<lambda>p fs. if removable p then fs(p := None) else fs) (stale d) fs))"

lemma remove_stale:
  "fold (\<lambda>p fs. if removable p then fs(p := None) else fs) ps fs q =
     (if q \<in> set ps \<and> removable q then None else fs q)"
  by (induction ps arbitrary: fs) auto

definition os_error :: exn where
  "os_error = ExternalError ''OSError''"

text \<open>\<open>start_metrics_server\<close>: a port that cannot be bound is no failure, anything else is.\<close>

definition start_metrics_server :: "(int \<Rightarrow> ('w, unit) prog) \<Rightarrow> int \<Rightarrow> ('w, bool) prog" where
  "start_metrics_server start_http port w =
     (case start_http port w of
        (Inr _, w1) \<Rightarrow> (Inr True, w1)
      | (Inl e, w1) \<Rightarrow> if e = os_error then (Inr False, w1) else (Inl e, w1))"

text \<open>\<open>serve_metrics\<close>: with a shared directory the counters of all workers are served, else those of the process.\<close>

definition serve_metrics ::
  "(int \<Rightarrow> ('w, unit) prog) \<Rightarrow> (int \<Rightarrow> ('w, unit) prog) \<Rightarrow> (string \<rightharpoonup> string) \<Rightarrow> int \<Rightarrow> ('w, bool) prog" where
  "serve_metrics start_http start_shared environ port =
     (if environ ''PROMETHEUS_MULTIPROC_DIR'' \<noteq> None \<and> environ ''PROMETHEUS_MULTIPROC_DIR'' \<noteq> Some []
      then start_metrics_server start_shared port
      else start_metrics_server start_http port)"

subsection \<open>The environment and the start of the job\<close>

record flink_config =
  fc_rocksdb_dir :: string
  fc_web_ui_port :: int
  fc_parallelism :: int
  fc_checkpoint_interval_ms :: int
  fc_checkpoint_dir :: string
  fc_restart_attempts :: int
  fc_restart_delay_ms :: int
  fc_python :: string

record flink_env =
  fe_settings :: "(string \<times> string) list"
  fe_parallelism :: int
  fe_jars :: "string list"
  fe_incremental_rocksdb :: bool
  fe_checkpoint_interval_ms :: int
  fe_exactly_once :: bool
  fe_checkpoint_dir :: string
  fe_checkpoint_timeout_ms :: int
  fe_checkpoint_pause_ms :: int
  fe_tolerated_failures :: int
  fe_retain_on_cancel :: bool
  fe_restart :: "int \<times> int"

definition build_environment ::
  "(int \<Rightarrow> string) \<Rightarrow> flink_config \<Rightarrow> (string \<Rightarrow> string) \<Rightarrow> string list \<Rightarrow> exn + flink_env" where
  "build_environment show_int cfg as_uri names =
     rbind (connector_jars as_uri names) (\<lambda>uris. Inr
       \<lparr>fe_settings =
          [(''python.executable'', fc_python cfg), (''python.client.executable'', fc_python cfg),
           (''state.backend.rocksdb.localdir'', fc_rocksdb_dir cfg),
           (''taskmanager.memory.managed.size'', ''256m'')] @
          (if fc_web_ui_port cfg \<noteq> 0
           then [(''local.start-webserver'', ''true''), (''rest.bind-address'', ''0.0.0.0''),
                 (''rest.port'', show_int (fc_web_ui_port cfg))]
           else []),
        fe_parallelism = fc_parallelism cfg, fe_jars = uris, fe_incremental_rocksdb = True,
        fe_checkpoint_interval_ms = fc_checkpoint_interval_ms cfg, fe_exactly_once = True,
        fe_checkpoint_dir = fc_checkpoint_dir cfg, fe_checkpoint_timeout_ms = 120000,
        fe_checkpoint_pause_ms = 5000, fe_tolerated_failures = 3, fe_retain_on_cancel = True,
        fe_restart = (fc_restart_attempts cfg, fc_restart_delay_ms cfg)\<rparr>)"

text \<open>\<open>AnomalyDetectionJob.run\<close>: metrics, environment, graph (\<open>execute\<close> builds and runs it).\<close>

definition anomaly_job_run ::
  "(int \<Rightarrow> ('w, bool) prog) \<Rightarrow> int \<Rightarrow> (exn + flink_env) \<Rightarrow> (flink_env \<Rightarrow> ('w, unit) prog) \<Rightarrow> ('w, unit) prog" where
  "anomaly_job_run serve port env execute =
     bnd (serve port) (\<lambda>_. bnd (lift_res env) execute)"

text \<open>
  The job runs on verified JARs or not at all: after the fetch script ended normally in a directory of
  pinned JARs, the job starts whether or not the metrics port is free, with the pinned JARs, all verified,
  and with exactly-once checkpoints; on a directory without JARs it raises before anything is executed.
\<close>

theorem job_start_verified:
  assumes "hasher_law (fa_hasher api)" and "fetch_all api lib s = (Inr paths, t)"
    and "{p. dk_files s p \<noteq> None \<and> ends_with ''.jar'' p} \<subseteq> jar_dest lib ` set jars"
    and "set names = {p. dk_files t p \<noteq> None}"
    and "start_http port w = (Inr (), w1) \<or> start_http port w = (Inl os_error, w1)"
  shows "(\<exists>env. anomaly_job_run (start_metrics_server start_http) port (build_environment show_int cfg as_uri names) execute w =
             execute env w1 \<and>
           set (fe_jars env) = as_uri ` jar_dest lib ` set jars \<and> fe_exactly_once env \<and>
           (\<forall>j \<in> set jars. verified (fa_hasher api) j (dk_files t (jar_dest lib j)))) \<and>
         (\<exists>e. anomaly_job_run (start_metrics_server start_http) port (build_environment show_int cfg as_uri []) execute w =
           (Inl (RuntimeError e), w1))"
proof
  have serve: "\<exists>b. start_metrics_server start_http port w = (Inr b, w1)"
    using assms(5) by (auto simp: start_metrics_server_def os_error_def)
  from loaded_jars [OF assms(1-4), of as_uri] obtain uris where uris: "connector_jars as_uri names = Inr uris"
    "set uris = as_uri ` jar_dest lib ` set jars"
    "\<forall>j \<in> set jars. verified (fa_hasher api) j (dk_files t (jar_dest lib j))" by (elim exE conjE)
  then obtain env where "build_environment show_int cfg as_uri names = Inr env" "fe_jars env = uris" "fe_exactly_once env"
    by (simp add: build_environment_def)
  with serve uris(2,3) show "\<exists>env. anomaly_job_run (start_metrics_server start_http) port
        (build_environment show_int cfg as_uri names) execute w = execute env w1 \<and>
      set (fe_jars env) = as_uri ` jar_dest lib ` set jars \<and> fe_exactly_once env \<and>
      (\<forall>j \<in> set jars. verified (fa_hasher api) j (dk_files t (jar_dest lib j)))"
    by (auto simp: anomaly_job_run_def bnd_def lift_res_def)
  from serve show "\<exists>e. anomaly_job_run (start_metrics_server start_http) port
      (build_environment show_int cfg as_uri []) execute w = (Inl (RuntimeError e), w1)"
    by (auto simp: anomaly_job_run_def bnd_def lift_res_def build_environment_def connector_jars_def)
qed

subsection \<open>A concrete download\<close>

definition ex_flink_config :: flink_config where
  "ex_flink_config =
     \<lparr>fc_rocksdb_dir = ''.flink-state/rocksdb'', fc_web_ui_port = 8082, fc_parallelism = 1,
      fc_checkpoint_interval_ms = 30000, fc_checkpoint_dir = ''file:.flink-state/checkpoints'',
      fc_restart_attempts = 1000, fc_restart_delay_ms = 10000, fc_python = ''python''\<rparr>"

text \<open>A hash that spells its content, and a server that has the pinned JAR.\<close>

definition ex_hasher :: "(char, string) hasher" where
  "ex_hasher = \<lparr>h_new = [], h_update = (\<lambda>xs h. h @ xs), h_hexdigest = (\<lambda>h. h)\<rparr>"

lemma ex_hasher_law: "hasher_law ex_hasher"
  by (simp add: hasher_law_def ex_hasher_def)

definition ex_fetch :: "(char, string, unit) fetch_api" where
  "ex_fetch =
     \<lparr>fa_hasher = ex_hasher, fa_retrieve = (\<lambda>url w. (None, Some ''2c2d486dfc3fb759ee3b8c9dc5e1f21dd9b74d2d'', w))\<rparr>"

definition ex_disk :: "(char, unit) disk" where
  "ex_disk = \<lparr>dk_files = Map.empty, dk_world = ()\<rparr>"

definition ex_jar :: jar where
  "ex_jar = hd jars"

lemma ex_fetched:
  "\<exists>t. fetch_all ex_fetch ''lib'' ex_disk = (Inr [jar_dest ''lib'' ex_jar], t) \<and>
       dk_files t = [jar_dest ''lib'' ex_jar \<mapsto> ''2c2d486dfc3fb759ee3b8c9dc5e1f21dd9b74d2d'']"
proof -
  let ?d = "jar_dest ''lib'' ex_jar" and ?c = "''2c2d486dfc3fb759ee3b8c9dc5e1f21dd9b74d2d''"
  have js: "jars = [ex_jar]" "jar_sha1 ex_jar = ?c" by (simp_all add: ex_jar_def jars_def)
  have sha: "sha1_of ex_hasher (part_of ?d) [part_of ?d \<mapsto> ?c] = Inr ?c"
    using sha1_of_digest [OF ex_hasher_law, of "[part_of ?d \<mapsto> ?c]" "part_of ?d" ?c]
    by (simp add: digest_def ex_hasher_def)
  have "[part_of ?d \<mapsto> ?c](part_of ?d := None, ?d \<mapsto> ?c) = [?d \<mapsto> ?c]" by (auto simp: fun_eq_iff)
  then show ?thesis
    using sha
    by (simp add: fetch_all_def js bnd_def ret_def have_jar_def download_def ex_disk_def ex_fetch_def Let_def
        written_def part_neq)
qed

theorem fetch_all_verified_witness:
  "\<exists>t. fst (fetch_all ex_fetch ''lib'' ex_disk) = Inr [jar_dest ''lib'' ex_jar] \<and>
       snd (fetch_all ex_fetch ''lib'' ex_disk) = t \<and> verified ex_hasher ex_jar (dk_files t (jar_dest ''lib'' ex_jar))"
proof -
  obtain t where t: "fetch_all ex_fetch ''lib'' ex_disk = (Inr [jar_dest ''lib'' ex_jar], t)" using ex_fetched by blast
  have "ex_jar \<in> set jars" by (simp add: ex_jar_def jars_def)
  from fetch_all_verified [OF _ t this] ex_hasher_law t show ?thesis by (simp add: ex_fetch_def)
qed

theorem job_start_verified_witness:
  "map fe_jars (snd (anomaly_job_run (start_metrics_server (\<lambda>port w. (Inl os_error, w))) 9101
      (build_environment (\<lambda>n. ''8082'') ex_flink_config (\<lambda>p. p) [jar_dest ''lib'' ex_jar])
      (\<lambda>env w. (Inr (), w @ [env])) [])) = [[jar_dest ''lib'' ex_jar]]"
proof -
  obtain t where t: "fetch_all ex_fetch ''lib'' ex_disk = (Inr [jar_dest ''lib'' ex_jar], t)"
    and files: "dk_files t = [jar_dest ''lib'' ex_jar \<mapsto> ''2c2d486dfc3fb759ee3b8c9dc5e1f21dd9b74d2d'']"
    using ex_fetched by blast
  have law: "hasher_law (fa_hasher ex_fetch)" using ex_hasher_law by (simp add: ex_fetch_def)
  have empty: "{p. dk_files ex_disk p \<noteq> None \<and> ends_with ''.jar'' p} \<subseteq> jar_dest ''lib'' ` set jars"
    by (simp add: ex_disk_def)
  have names: "set [jar_dest ''lib'' ex_jar] = {p. dk_files t p \<noteq> None}" by (simp add: files)
  let ?env = "build_environment (\<lambda>n. ''8082'') ex_flink_config (\<lambda>p. p) [jar_dest ''lib'' ex_jar]"
  obtain env where run: "anomaly_job_run (start_metrics_server (\<lambda>port w. (Inl os_error, w))) 9101 ?env
      (\<lambda>env w. (Inr (), w @ [env])) [] = (Inr (), [] @ [env])"
    using job_start_verified [OF law t empty names, of "\<lambda>port w. (Inl os_error, w)" 9101 "[]" "[]" "\<lambda>n. ''8082''"
        ex_flink_config "\<lambda>p. p" "\<lambda>env w. (Inr (), w @ [env])"] by blast
  then have "?env = Inr env"
    by (auto simp: anomaly_job_run_def bnd_def lift_res_def start_metrics_server_def split: sum.splits)
  then have "fe_jars env = [jar_dest ''lib'' ex_jar]"
    using dest_is_jar by (auto simp: build_environment_def connector_jars_def)
  with run show ?thesis by simp
qed

end
