(* ===== verification/Ingest_Bloom.thy ===== *)
theory Ingest_Bloom
  imports Py_Values "HOL-Library.Word"
begin

section \<open>The Redis Bloom filter of the ingestion service\<close>

text \<open>
  \<open>ingestion/dedup/redis_bloom.py\<close>: span ids hashed to bit positions, one bitmap per time bucket,
  the previous bucket still consulted. Redis and the BLAKE2 digest are parameters; the digest is
  given as its two 64-bit halves.
\<close>

unbundle bit_operations_syntax

record bloom_config =
  bc_prefix :: string
  bc_bucket_seconds :: nat
  bc_num_bits :: nat
  bc_num_hashes :: nat

definition bloom_num_bits :: "nat \<Rightarrow> real \<Rightarrow> nat" where
  "bloom_num_bits capacity error_rate = nat \<lceil>- real capacity * ln error_rate / (ln 2)\<^sup>2\<rceil>"

definition bloom_num_hashes :: "nat \<Rightarrow> nat \<Rightarrow> nat" where
  "bloom_num_hashes capacity num_bits =
     nat (max 1 (round_half_even (real num_bits / real capacity * ln 2)))"

definition new_bloom :: "string \<Rightarrow> nat \<Rightarrow> real \<Rightarrow> nat \<Rightarrow> bloom_config" where
  "new_bloom prefix capacity error_rate bucket_seconds =
     \<lparr>bc_prefix = prefix, bc_bucket_seconds = bucket_seconds,
      bc_num_bits = bloom_num_bits capacity error_rate,
      bc_num_hashes = bloom_num_hashes capacity (bloom_num_bits capacity error_rate)\<rparr>"

text \<open>Kirsch-Mitzenmacher double hashing on unbounded integers; the second hash is made odd.\<close>

definition bloom_positions ::
  "bloom_config \<Rightarrow> (string \<Rightarrow> 64 word \<times> 64 word) \<Rightarrow> string \<Rightarrow> nat list" where
  "bloom_positions cfg digest item =
     (let (h1, h2) = digest item
      in map (\<lambda>i. (unat h1 + i * unat (h2 OR 1)) mod bc_num_bits cfg) [0..<bc_num_hashes cfg])"

definition bucket_key :: "bloom_config \<Rightarrow> int \<Rightarrow> string" where
  "bucket_key cfg bucket = bc_prefix cfg @ '':'' @ int_str bucket"

text \<open>One pipeline reads bits, the other sets bits of a key and its expiry.\<close>

record 'w redis_api =
  pipe_getbits :: "(string \<times> nat) list \<Rightarrow> ('w, bool list) prog"
  pipe_setbits :: "string \<Rightarrow> nat list \<Rightarrow> int \<Rightarrow> ('w, unit) prog"

definition bucket_at :: "bloom_config \<Rightarrow> real \<Rightarrow> int" where
  "bucket_at cfg now = \<lfloor>now / real (bc_bucket_seconds cfg)\<rfloor>"

definition seen_or_add ::
  "bloom_config \<Rightarrow> (string \<Rightarrow> 64 word \<times> 64 word) \<Rightarrow> 'w redis_api \<Rightarrow> real \<Rightarrow> string \<Rightarrow> ('w, bool) prog" where
  "seen_or_add cfg digest api now item =
     (let ps = bloom_positions cfg digest item;
          bucket = bucket_at cfg now;
          current = bucket_key cfg bucket;
          previous = bucket_key cfg (bucket - 1);
          k = length ps
      in bnd (pipe_getbits api (map (Pair current) ps @ map (Pair previous) ps)) (\<lambda>bits.
         if list_all id (take k bits) \<or> list_all id (drop k bits) then ret True
         else bnd (pipe_setbits api current ps (2 * int (bc_bucket_seconds cfg) + 60)) (\<lambda>_. ret False)))"

subsection \<open>No false negatives\<close>

text \<open>
  The bitmaps seen from outside. Reading answers the bits and changes none; setting sets the
  given bits and clears none.
\<close>

definition redis_law :: "'w redis_api \<Rightarrow> ('w \<Rightarrow> string \<Rightarrow> nat \<Rightarrow> bool) \<Rightarrow> bool" where
  "redis_law api rbit \<longleftrightarrow>
     (\<forall>qs w bs w1. pipe_getbits api qs w = (Inr bs, w1) \<longrightarrow>
        bs = map (\<lambda>(k, p). rbit w k p) qs \<and> rbit w1 = rbit w) \<and>
     (\<forall>k ps ttl w w1. pipe_setbits api k ps ttl w = (Inr (), w1) \<longrightarrow>
        (\<forall>p \<in> set ps. rbit w1 k p) \<and> (\<forall>j p. rbit w j p \<longrightarrow> rbit w1 j p))"

definition recorded ::
  "bloom_config \<Rightarrow> (string \<Rightarrow> 64 word \<times> 64 word) \<Rightarrow> ('w \<Rightarrow> string \<Rightarrow> nat \<Rightarrow> bool) \<Rightarrow> 'w \<Rightarrow> int \<Rightarrow> string \<Rightarrow> bool" where
  "recorded cfg digest rbit w bucket item \<longleftrightarrow>
     (\<forall>p \<in> set (bloom_positions cfg digest item). rbit w (bucket_key cfg bucket) p)"

lemma seen_or_add_result:
  assumes law: "redis_law api rbit" and run: "seen_or_add cfg digest api now item w = (Inr seen, w1)"
  shows "seen \<longleftrightarrow> recorded cfg digest rbit w (bucket_at cfg now) item \<or>
                  recorded cfg digest rbit w (bucket_at cfg now - 1) item"
    and "\<not> seen \<Longrightarrow> recorded cfg digest rbit w1 (bucket_at cfg now) item"
    and "rbit w k p \<Longrightarrow> rbit w1 k p"
proof -
  let ?ps = "bloom_positions cfg digest item" and ?b = "bucket_at cfg now"
  let ?qs = "map (Pair (bucket_key cfg ?b)) ?ps @ map (Pair (bucket_key cfg (?b - 1))) ?ps"
  obtain r w2 where get: "pipe_getbits api ?qs w = (r, w2)" by fastforce
  with run obtain bs where r: "r = Inr bs" by (cases r) (auto simp: seen_or_add_def bnd_def Let_def)
  with law get have bs: "bs = map (\<lambda>(k, p). rbit w k p) ?qs" "rbit w2 = rbit w"
    unfolding redis_law_def by blast+
  have hits: "list_all id (take (length ?ps) bs) \<longleftrightarrow> recorded cfg digest rbit w ?b item"
    "list_all id (drop (length ?ps) bs) \<longleftrightarrow> recorded cfg digest rbit w (?b - 1) item"
    by (auto simp: bs(1) recorded_def list_all_iff)
  show "seen \<longleftrightarrow> recorded cfg digest rbit w ?b item \<or> recorded cfg digest rbit w (?b - 1) item"
    using run get r hits
    by (auto simp: seen_or_add_def bnd_def ret_def Let_def split: if_splits sum.splits prod.splits)
  have "(seen \<and> w1 = w2) \<or> (\<not> seen \<and> pipe_setbits api (bucket_key cfg ?b) ?ps
      (2 * int (bc_bucket_seconds cfg) + 60) w2 = (Inr (), w1))"
    using run get r
    by (auto simp: seen_or_add_def bnd_def ret_def Let_def split: if_splits sum.splits prod.splits)
  with law bs(2) show "\<not> seen \<Longrightarrow> recorded cfg digest rbit w1 ?b item" and "rbit w k p \<Longrightarrow> rbit w1 k p"
    unfolding redis_law_def recorded_def by metis+
qed

text \<open>
  A span that was recorded is recognised: once \<open>seen_or_add\<close> has answered "new" for an item, any
  later call for it in the same or the next time bucket answers "seen", whatever was recorded in
  between, as long as no bit of the bucket is cleared.
\<close>

theorem recorded_span_recognised:
  assumes "redis_law api rbit"
    and "seen_or_add cfg digest api now item w = (Inr False, w1)"
    and "\<And>p. rbit w1 (bucket_key cfg (bucket_at cfg now)) p \<Longrightarrow> rbit w2 (bucket_key cfg (bucket_at cfg now)) p"
    and "bucket_at cfg later \<in> {bucket_at cfg now, bucket_at cfg now + 1}"
    and "seen_or_add cfg digest api later item w2 = (Inr seen, w3)"
  shows "seen"
proof -
  from seen_or_add_result(2) [OF assms(1,2)] assms(3)
  have "recorded cfg digest rbit w2 (bucket_at cfg now) item" by (auto simp: recorded_def)
  with seen_or_add_result(1) [OF assms(1,5)] assms(4) show ?thesis by auto
qed

text \<open>
  The positions of an item are within the bitmap and as many as there are hash functions, as a function of the item alone.
\<close>

theorem positions_in_bitmap:
  assumes "0 < bc_num_bits cfg"
  shows "length (bloom_positions cfg digest item) = bc_num_hashes cfg \<and>
         (\<forall>p \<in> set (bloom_positions cfg digest item). p < bc_num_bits cfg)"
  using assms by (auto simp: bloom_positions_def case_prod_unfold Let_def)

text \<open>The shipped filter has bits and hash functions.\<close>

lemma new_bloom_sizes:
  assumes "0 < capacity" and "0 < error_rate" and "error_rate < 1"
  shows "0 < bc_num_bits (new_bloom prefix capacity error_rate b)"
    and "0 < bc_num_hashes (new_bloom prefix capacity error_rate b)"
proof -
  have "0 < - real capacity * ln error_rate" using assms by (simp add: mult_pos_neg)
  then have "0 < - real capacity * ln error_rate / (ln 2)\<^sup>2" by (intro divide_pos_pos) simp_all
  then show "0 < bc_num_bits (new_bloom prefix capacity error_rate b)"
    by (simp add: new_bloom_def bloom_num_bits_def)
  show "0 < bc_num_hashes (new_bloom prefix capacity error_rate b)"
    by (simp add: new_bloom_def bloom_num_hashes_def)
qed

theorem positions_in_bitmap_witness:
  "\<forall>p \<in> set (bloom_positions (new_bloom ''bloom:span'' 500000 (1 / 1000) 3600) (\<lambda>i. (0, 0)) ''s1'').
     p < bc_num_bits (new_bloom ''bloom:span'' 500000 (1 / 1000) 3600)"
  using positions_in_bitmap [OF new_bloom_sizes(1)] by simp

definition ex_redis :: "(string \<times> nat \<Rightarrow> bool) redis_api" where
  "ex_redis =
     \<lparr>pipe_getbits = (\<lambda>qs w. (Inr (map w qs), w)),
      pipe_setbits = (\<lambda>k ps ttl w. (Inr (), \<lambda>q. w q \<or> (fst q = k \<and> snd q \<in> set ps)))\<rparr>"

definition ex_bloom_cfg :: bloom_config where
  "ex_bloom_cfg = \<lparr>bc_prefix = ''b'', bc_bucket_seconds = 10, bc_num_bits = 8, bc_num_hashes = 2\<rparr>"

lemma ex_redis_law: "redis_law ex_redis (\<lambda>w k p. w (k, p))"
  by (auto simp: redis_law_def ex_redis_def)

lemma ex_seen_or_add:
  "\<exists>w1. seen_or_add ex_bloom_cfg (\<lambda>i. (3, 4)) ex_redis 5 ''s1'' (\<lambda>_. False) = (Inr False, w1)"
  by (simp add: seen_or_add_def bloom_positions_def ex_bloom_cfg_def ex_redis_def bnd_def ret_def
      Let_def numeral_2_eq_2)

theorem recorded_span_recognised_witness:
  "\<exists>w1 w2. seen_or_add ex_bloom_cfg (\<lambda>i. (3, 4)) ex_redis 5 ''s1'' (\<lambda>_. False) = (Inr False, w1) \<and>
     seen_or_add ex_bloom_cfg (\<lambda>i. (3, 4)) ex_redis 15 ''s1'' w1 = (Inr True, w2)"
proof -
  obtain w1 where w1: "seen_or_add ex_bloom_cfg (\<lambda>i. (3, 4)) ex_redis 5 ''s1'' (\<lambda>_. False) = (Inr False, w1)"
    using ex_seen_or_add by blast
  obtain r w2 where w2: "seen_or_add ex_bloom_cfg (\<lambda>i. (3, 4)) ex_redis 15 ''s1'' w1 = (Inr r, w2)"
  proof (cases "list_all id (map (w1 \<circ> Pair (bucket_key ex_bloom_cfg (bucket_at ex_bloom_cfg 15)))
        (bloom_positions ex_bloom_cfg (\<lambda>i. (3, 4)) ''s1'')) \<or>
      list_all id (map (w1 \<circ> Pair (bucket_key ex_bloom_cfg (bucket_at ex_bloom_cfg 15 - 1)))
        (bloom_positions ex_bloom_cfg (\<lambda>i. (3, 4)) ''s1''))")
  qed (auto simp: seen_or_add_def ex_redis_def bnd_def ret_def Let_def)
  have "bucket_at ex_bloom_cfg 15 \<in> {bucket_at ex_bloom_cfg 5, bucket_at ex_bloom_cfg 5 + 1}"
    by (simp add: bucket_at_def ex_bloom_cfg_def)
  from recorded_span_recognised [OF ex_redis_law w1 _ this w2] have r by blast
  with w1 w2 show ?thesis by auto
qed

end
