(* ===== verification/Es_Indexer.thy ===== *)
theory Es_Indexer
  imports Kafka_Json
begin

section \<open>The Elasticsearch log indexer\<close>

text \<open>
  \<open>ingestion/logs/es_log_indexer.py\<close>: a log document per span, a bounded queue that drops on
  overflow, and a background thread that sends batches. The thread is modelled by the steps it
  takes between two additions; Elasticsearch, number formatting and calendar days are parameters.
\<close>

record log_doc =
  doc_timestamp :: int
  doc_service_id :: string
  doc_level :: string
  doc_message :: string
  doc_trace_id :: string
  doc_span_id :: string

text \<open>The validated span, \<open>ingestion/models.py\<close>.\<close>

record span_payload =
  pl_trace_id :: string
  pl_span_id :: string
  pl_service_id :: string
  pl_timestamp :: int
  pl_cpu_percent :: real
  pl_latency_p99 :: real
  pl_error_rate :: real
  pl_request_rate :: real
  pl_anomaly_type :: "string option"
  pl_is_anomaly :: bool

text \<open>\<open>fmt n x\<close> is \<open>format(x, '.nf')\<close>.\<close>

definition log_level :: "span_payload \<Rightarrow> string" where
  "log_level sp =
     (if pl_is_anomaly sp
      then if pl_anomaly_type sp = Some ''ERROR_RATE_SPIKE'' then ''ERROR'' else ''WARN''
      else ''INFO'')"

definition span_to_log_doc :: "(nat \<Rightarrow> real \<Rightarrow> string) \<Rightarrow> span_payload \<Rightarrow> log_doc" where
  "span_to_log_doc fmt sp =
     \<lparr>doc_timestamp = pl_timestamp sp, doc_service_id = pl_service_id sp, doc_level = log_level sp,
      doc_message =
        ''span '' @ pl_span_id sp @ '': cpu='' @ fmt 1 (pl_cpu_percent sp) @ ''% p99='' @
        fmt 0 (pl_latency_p99 sp) @ ''ms err='' @ fmt 4 (pl_error_rate sp) @ '' rps='' @
        fmt 0 (pl_request_rate sp) @
        (case pl_anomaly_type sp of
           None \<Rightarrow> [] | Some t \<Rightarrow> if t = [] then [] else '' anomaly='' @ t),
      doc_trace_id = pl_trace_id sp, doc_span_id = pl_span_id sp\<rparr>"

subsection \<open>The queue and the batches\<close>

record es_config =
  es_batch_size :: nat
  es_max_queue :: nat

definition default_es_config :: es_config where
  "default_es_config = \<lparr>es_batch_size = 500, es_max_queue = 20000\<rparr>"

record 'w es_api =
  bulk_post :: "(string \<times> log_doc) list \<Rightarrow> ('w, nat) prog"
  day_of :: "int \<Rightarrow> string"

record 'w es_indexer =
  es_queue :: "log_doc list"
  es_indexed :: nat
  es_failed :: nat
  es_dropped :: nat
  es_log :: log_state
  es_world :: 'w

definition es_add :: "es_config \<Rightarrow> log_doc \<Rightarrow> 'w es_indexer \<Rightarrow> 'w es_indexer" where
  "es_add cfg d s =
     (if length (es_queue s) < es_max_queue cfg then s\<lparr>es_queue := es_queue s @ [d]\<rparr>
      else s\<lparr>es_dropped := Suc (es_dropped s)\<rparr>)"

text \<open>
  \<open>bulk_post\<close> answers the number of documents with an error. A number above the batch would make
  the counter increment negative, which raises, so it counts as a failed request.
\<close>

definition es_bulk :: "'w es_api \<Rightarrow> real \<Rightarrow> log_doc list \<Rightarrow> 'w es_indexer \<Rightarrow> 'w es_indexer" where
  "es_bulk api now docs s =
     (let (r, w) = bulk_post api (map (\<lambda>d. (''logs-'' @ day_of api (doc_timestamp d), d)) docs) (es_world s);
          s1 = s\<lparr>es_world := w\<rparr>;
          n = length docs
      in case r of
           Inr bad \<Rightarrow>
             if bad \<le> n
             then s1\<lparr>es_indexed := es_indexed s1 + (n - bad), es_failed := es_failed s1 + bad,
                     es_log := (if bad \<noteq> 0
                       then log_throttled now (nat_str bad @ ''/'' @ nat_str n @ '' docs rejected by Elasticsearch'') (es_log s1)
                       else es_log s1)\<rparr>
             else s1\<lparr>es_failed := es_failed s1 + n,
                     es_log := log_throttled now (''bulk of '' @ nat_str n @ '' docs failed'') (es_log s1)\<rparr>
         | Inl e \<Rightarrow>
             s1\<lparr>es_failed := es_failed s1 + n,
                es_log := log_throttled now (''bulk of '' @ nat_str n @ '' docs failed'') (es_log s1)\<rparr>)"

text \<open>
  One round of \<open>_run\<close>: the thread got \<open>n\<close> documents before the deadline, at most a batch, and sends
  them if there are any.
\<close>

definition es_round :: "es_config \<Rightarrow> 'w es_api \<Rightarrow> real \<Rightarrow> nat \<Rightarrow> 'w es_indexer \<Rightarrow> 'w es_indexer" where
  "es_round cfg api now n s =
     (let k = min n (es_batch_size cfg); batch = take k (es_queue s);
          s1 = s\<lparr>es_queue := drop k (es_queue s)\<rparr>
      in if batch \<noteq> [] then es_bulk api now batch s1 else s1)"

datatype es_event = EsAdd log_doc | EsRound real nat

fun es_step :: "es_config \<Rightarrow> 'w es_api \<Rightarrow> es_event \<Rightarrow> 'w es_indexer \<Rightarrow> 'w es_indexer" where
  "es_step cfg api (EsAdd d) s = es_add cfg d s"
| "es_step cfg api (EsRound now n) s = es_round cfg api now n s"

subsection \<open>Every document is accounted for\<close>

definition es_total :: "'w es_indexer \<Rightarrow> nat" where
  "es_total s = length (es_queue s) + es_indexed s + es_failed s + es_dropped s"

lemma es_bulk_total: "es_total (es_bulk api now docs s) = es_total s + length docs"
proof -
  obtain r w where "bulk_post api (map (\<lambda>d. (''logs-'' @ day_of api (doc_timestamp d), d)) docs) (es_world s) = (r, w)"
    by fastforce
  then show ?thesis by (cases r) (simp_all add: es_bulk_def es_total_def Let_def)
qed

lemma es_bulk_queue [simp]: "es_queue (es_bulk api now docs s) = es_queue s"
  by (simp add: es_bulk_def Let_def split: prod.splits sum.splits)

lemma es_round_total: "es_total (es_round cfg api now n s) = es_total s"
  by (auto simp: es_round_def Let_def es_bulk_total) (simp_all add: es_total_def)

lemma es_add_total: "es_total (es_add cfg d s) = Suc (es_total s)"
  by (simp add: es_add_def es_total_def)

lemma es_step_bounded:
  "length (es_queue s) \<le> es_max_queue cfg \<Longrightarrow> length (es_queue (es_step cfg api e s)) \<le> es_max_queue cfg"
  by (cases e) (auto simp: es_add_def es_round_def Let_def)

interpretation es_run: step_system "es_step cfg api" "\<lambda>s. length (es_queue s) \<le> es_max_queue cfg" for cfg api
  by unfold_locales (rule es_step_bounded)

text \<open>
  Logging never holds ingestion back and loses nothing silently: in any interleaving of additions and
  batches, with any answers of Elasticsearch, the queue stays within its bound and every
  document added is still queued, indexed, or counted as failed or dropped.
\<close>

theorem log_docs_accounted:
  assumes "length (es_queue s) \<le> es_max_queue cfg"
  shows "es_total (fold (es_step cfg api) es s) = es_total s + length (filter (\<lambda>e. \<exists>d. e = EsAdd d) es) \<and>
         length (es_queue (fold (es_step cfg api) es s)) \<le> es_max_queue cfg"
proof
  show "length (es_queue (fold (es_step cfg api) es s)) \<le> es_max_queue cfg"
    by (rule es_run.run_inv [OF assms])
  show "es_total (fold (es_step cfg api) es s) = es_total s + length (filter (\<lambda>e. \<exists>d. e = EsAdd d) es)"
  proof (induction es arbitrary: s)
    case (Cons e es)
    then show ?case by (cases e) (simp_all add: es_add_total es_round_total)
  qed simp
qed

definition ex_es :: "unit es_api" where
  "ex_es = \<lparr>bulk_post = (\<lambda>ds w. (Inr 1, w)), day_of = (\<lambda>t. ''2025.01.01'')\<rparr>"

definition ex_doc :: log_doc where
  "ex_doc = span_to_log_doc (\<lambda>n x. ''0'')
     \<lparr>pl_trace_id = ''t'', pl_span_id = ''s'', pl_service_id = ''a'', pl_timestamp = 1, pl_cpu_percent = 0,
      pl_latency_p99 = 0, pl_error_rate = 0, pl_request_rate = 0, pl_anomaly_type = None, pl_is_anomaly = False\<rparr>"

definition ex_indexer :: "unit es_indexer" where
  "ex_indexer = \<lparr>es_queue = [], es_indexed = 0, es_failed = 0, es_dropped = 0, es_log = init_log, es_world = ()\<rparr>"

theorem log_docs_accounted_witness:
  "es_total (fold (es_step default_es_config ex_es) [EsAdd ex_doc, EsAdd ex_doc, EsRound 40 2, EsAdd ex_doc] ex_indexer) = 3"
  using log_docs_accounted [of ex_indexer default_es_config ex_es "[EsAdd ex_doc, EsAdd ex_doc, EsRound 40 2, EsAdd ex_doc]"]
  by (simp add: ex_indexer_def es_total_def)

end
