(* ===== verification/Ingestion.thy ===== *)
theory Ingestion
  imports Es_Indexer Ingest_Bloom "HOL-Library.AList"
begin

section \<open>The ingestion service\<close>

text \<open>
  \<open>ingestion/models.py\<close>, \<open>pipeline.py\<close>, \<open>producer/kafka_producer.py\<close>, \<open>api/grpc_server.py\<close> and
  \<open>api/rest_router.py\<close>: validation, deduplication, publishing with a dead-letter queue, and the two
  front ends. Pydantic's coercions, the Avro serialiser, librdkafka and Redis are parameters.
\<close>

subsection \<open>Validation\<close>

text \<open>What Pydantic accepts for a field of each type; infinities and NaN are refused.\<close>

record coercions =
  as_str :: "pyval \<Rightarrow> string option"
  as_int :: "pyval \<Rightarrow> int option"
  as_float :: "pyval \<Rightarrow> real option"
  as_bool :: "pyval \<Rightarrow> bool option"

definition id_field :: "coercions \<Rightarrow> pydict \<Rightarrow> string \<Rightarrow> string option" where
  "id_field co d k =
     (case Option.bind (map_of d k) (as_str co) of
        None \<Rightarrow> None | Some s \<Rightarrow> if 1 \<le> length s \<and> length s \<le> 64 then Some s else None)"

definition num_field :: "coercions \<Rightarrow> pydict \<Rightarrow> string \<Rightarrow> (real \<Rightarrow> bool) \<Rightarrow> real option" where
  "num_field co d k ok =
     (case Option.bind (map_of d k) (as_float co) of
        None \<Rightarrow> None | Some x \<Rightarrow> if ok x then Some x else None)"

definition type_field :: "coercions \<Rightarrow> pydict \<Rightarrow> string option option" where
  "type_field co d =
     (case map_of d ''anomaly_type'' of
        None \<Rightarrow> Some None
      | Some PNone \<Rightarrow> Some None
      | Some v \<Rightarrow> map_option Some (as_str co v))"

definition flag_field :: "coercions \<Rightarrow> pydict \<Rightarrow> bool option" where
  "flag_field co d = (case map_of d ''is_anomaly'' of None \<Rightarrow> Some False | Some v \<Rightarrow> as_bool co v)"

definition time_field :: "coercions \<Rightarrow> pydict \<Rightarrow> int option" where
  "time_field co d =
     (case Option.bind (map_of d ''timestamp'') (as_int co) of
        None \<Rightarrow> None | Some t \<Rightarrow> if t > 0 then Some t else None)"

text \<open>\<open>SpanPayload(**raw)\<close>; \<open>None\<close> is the \<open>ValidationError\<close>.\<close>

definition validate_span :: "coercions \<Rightarrow> pydict \<Rightarrow> span_payload option" where
  "validate_span co d =
     Option.bind (id_field co d ''trace_id'') (\<lambda>tr.
     Option.bind (id_field co d ''span_id'') (\<lambda>sp.
     Option.bind (id_field co d ''service_id'') (\<lambda>sv.
     Option.bind (time_field co d) (\<lambda>t.
     Option.bind (num_field co d ''cpu_percent'' (\<lambda>x. 0 \<le> x \<and> x \<le> 100)) (\<lambda>cpu.
     Option.bind (num_field co d ''latency_p99'' (\<lambda>x. 0 \<le> x)) (\<lambda>lat.
     Option.bind (num_field co d ''error_rate'' (\<lambda>x. 0 \<le> x \<and> x \<le> 1)) (\<lambda>err.
     Option.bind (num_field co d ''request_rate'' (\<lambda>x. 0 \<le> x)) (\<lambda>req.
     Option.bind (type_field co d) (\<lambda>ty.
     Option.bind (flag_field co d) (\<lambda>an.
     Some \<lparr>pl_trace_id = tr, pl_span_id = sp, pl_service_id = sv, pl_timestamp = t, pl_cpu_percent = cpu,
           pl_latency_p99 = lat, pl_error_rate = err, pl_request_rate = req, pl_anomaly_type = ty,
           pl_is_anomaly = an\<rparr>))))))))))"

text \<open>\<open>span.model_dump()\<close>.\<close>

definition dump_span :: "span_payload \<Rightarrow> pydict" where
  "dump_span sp =
     [(''trace_id'', PStr (pl_trace_id sp)), (''span_id'', PStr (pl_span_id sp)),
      (''service_id'', PStr (pl_service_id sp)), (''timestamp'', PInt (pl_timestamp sp)),
      (''cpu_percent'', PFloat (pl_cpu_percent sp)), (''latency_p99'', PFloat (pl_latency_p99 sp)),
      (''error_rate'', PFloat (pl_error_rate sp)), (''request_rate'', PFloat (pl_request_rate sp)),
      (''anomaly_type'', case pl_anomaly_type sp of None \<Rightarrow> PNone | Some t \<Rightarrow> PStr t),
      (''is_anomaly'', PBool (pl_is_anomaly sp))]"

subsection \<open>The producer\<close>

type_synonym payload = string

text \<open>
  \<open>produce_to topic key value reason\<close> queues a message (with the dead-letter header for a reason)
  or raises; \<open>poll_kafka\<close> returns the delivery reports it runs: an error or none, value and key.
\<close>

record 'w span_producer_api =
  avro_serialize :: "pydict \<Rightarrow> ('w, payload) prog"
  json_dumps :: "pydict \<Rightarrow> payload"
  produce_to :: "string \<Rightarrow> string \<Rightarrow> payload \<Rightarrow> string option \<Rightarrow> ('w, unit) prog"
  poll_kafka :: "real \<Rightarrow> 'w \<Rightarrow> (string option \<times> payload \<times> string) list \<times> 'w"

record 'w ingest =
  n_received :: nat
  n_accepted :: nat
  n_rejected :: nat
  n_duplicate :: nat
  n_published :: nat
  n_failed :: nat
  n_dlq :: nat
  n_dedup_errors :: nat
  last_reject_log :: real
  reject_lines :: nat
  indexer :: "unit es_indexer option"
  ing_world :: 'w

definition on_ingest :: "('w, 'a) prog \<Rightarrow> ('w ingest, 'a) prog" where
  "on_ingest p s = (let (r, w) = p (ing_world s) in (r, s\<lparr>ing_world := w\<rparr>))"

definition raw_topic :: string where
  "raw_topic = ''raw-telemetry''"

definition dlq_topic :: string where
  "dlq_topic = ''dead-letter-queue''"

text \<open>\<open>_dead_letter\<close>: counted first; a failing produce is only printed.\<close>

definition dead_letter ::
  "'w span_producer_api \<Rightarrow> payload \<Rightarrow> string \<Rightarrow> string \<Rightarrow> 'w ingest \<Rightarrow> 'w ingest" where
  "dead_letter api value key why s =
     snd (on_ingest (produce_to api dlq_topic key value (Some (take 300 why))) (s\<lparr>n_dlq := Suc (n_dlq s)\<rparr>))"

definition on_delivery ::
  "'w span_producer_api \<Rightarrow> string option \<times> payload \<times> string \<Rightarrow> 'w ingest \<Rightarrow> 'w ingest" where
  "on_delivery api report s =
     (case report of
        (None, v, k) \<Rightarrow> s\<lparr>n_published := Suc (n_published s)\<rparr>
      | (Some err, v, k) \<Rightarrow> dead_letter api v k err (s\<lparr>n_failed := Suc (n_failed s)\<rparr>))"

definition serve_reports :: "'w span_producer_api \<Rightarrow> real \<Rightarrow> 'w ingest \<Rightarrow> 'w ingest" where
  "serve_reports api timeout s =
     (let (reports, w) = poll_kafka api timeout (ing_world s)
      in fold (on_delivery api) reports (s\<lparr>ing_world := w\<rparr>))"

definition produce_span :: "'w span_producer_api \<Rightarrow> payload \<Rightarrow> string \<Rightarrow> ('w ingest, unit) prog" where
  "produce_span api payload key s =
     (case on_ingest (produce_to api raw_topic key payload None) s of
        (Inl e, t) \<Rightarrow> (Inl e, t)
      | (Inr _, t) \<Rightarrow> (Inr (), serve_reports api 0 t))"

definition exn_text :: "exn \<Rightarrow> string" where
  "exn_text e =
     (case e of RuntimeError m \<Rightarrow> m | ExternalError m \<Rightarrow> m | ValueError \<Rightarrow> ''ValueError''
      | TypeError \<Rightarrow> ''TypeError'' | KeyError \<Rightarrow> ''KeyError'' | IndexError \<Rightarrow> ''IndexError''
      | AttributeError \<Rightarrow> ''AttributeError'' | BufferError \<Rightarrow> ''BufferError'')"

definition publish_span :: "'w span_producer_api \<Rightarrow> pydict \<Rightarrow> string \<Rightarrow> ('w ingest, bool) prog" where
  "publish_span api rec key s =
     (case on_ingest (avro_serialize api rec) s of
        (Inl e, t) \<Rightarrow>
          (Inr False, dead_letter api (json_dumps api rec) key (''serialization failed: '' @ exn_text e)
             (t\<lparr>n_failed := Suc (n_failed t)\<rparr>))
      | (Inr payload, t) \<Rightarrow>
          (case produce_span api payload key t of
             (Inr _, u) \<Rightarrow> (Inr True, u)
           | (Inl e, u) \<Rightarrow>
               if e = BufferError
               then (case produce_span api payload key (serve_reports api (1 / 2) u) of
                       (Inr _, v) \<Rightarrow> (Inr True, v) | (Inl e2, v) \<Rightarrow> (Inl e2, v))
               else (Inl e, u)))"

subsection \<open>The pipeline\<close>

datatype outcome = Accepted | Rejected | Duplicate | Failed

fun outcome_label :: "outcome \<Rightarrow> string" where
  "outcome_label Accepted = ''accepted''"
| "outcome_label Rejected = ''rejected''"
| "outcome_label Duplicate = ''duplicate''"
| "outcome_label Failed = ''failed''"

record 'w ingest_env =
  ie_coercions :: coercions
  ie_dedup :: "(string \<Rightarrow> ('w, bool) prog) option"
  ie_producer :: "'w span_producer_api"
  ie_es_config :: es_config
  ie_format :: "nat \<Rightarrow> real \<Rightarrow> string"

definition log_reject :: "real \<Rightarrow> 'w ingest \<Rightarrow> 'w ingest" where
  "log_reject now s =
     (if now - last_reject_log s > 10
      then s\<lparr>last_reject_log := now, reject_lines := Suc (reject_lines s)\<rparr> else s)"

text \<open>The dedup step: \<open>True\<close> for a duplicate; an exception counts as new (fail open).\<close>

definition check_duplicate :: "'w ingest_env \<Rightarrow> string \<Rightarrow> 'w ingest \<Rightarrow> bool \<times> 'w ingest" where
  "check_duplicate env span_id s =
     (case ie_dedup env of
        None \<Rightarrow> (False, s)
      | Some seen \<Rightarrow>
          (case on_ingest (seen span_id) s of
             (Inl e, t) \<Rightarrow> (False, t\<lparr>n_dedup_errors := Suc (n_dedup_errors t)\<rparr>)
           | (Inr b, t) \<Rightarrow> if b then (True, t\<lparr>n_duplicate := Suc (n_duplicate t)\<rparr>) else (False, t)))"

definition index_log :: "'w ingest_env \<Rightarrow> span_payload \<Rightarrow> 'w ingest \<Rightarrow> 'w ingest" where
  "index_log env sp s =
     s\<lparr>indexer := map_option (es_add (ie_es_config env) (span_to_log_doc (ie_format env) sp)) (indexer s)\<rparr>"

definition ingest_span :: "'w ingest_env \<Rightarrow> real \<Rightarrow> pydict \<Rightarrow> ('w ingest, outcome) prog" where
  "ingest_span env now raw s =
     (let s1 = s\<lparr>n_received := Suc (n_received s)\<rparr>
      in case validate_span (ie_coercions env) raw of
           None \<Rightarrow> (Inr Rejected, log_reject now (s1\<lparr>n_rejected := Suc (n_rejected s1)\<rparr>))
         | Some sp \<Rightarrow>
             (let (dup, s2) = check_duplicate env (pl_span_id sp) s1
              in if dup then (Inr Duplicate, s2)
                 else case publish_span (ie_producer env) (dump_span sp) (pl_service_id sp) s2 of
                        (Inl e, t) \<Rightarrow> (Inl e, t)
                      | (Inr False, t) \<Rightarrow> (Inr Failed, t)
                      | (Inr True, t) \<Rightarrow>
                          (Inr Accepted, index_log env sp (t\<lparr>n_accepted := Suc (n_accepted t)\<rparr>))))"

subsection \<open>The front ends\<close>

record proto_span =
  ps_trace_id :: string
  ps_span_id :: string
  ps_service_id :: string
  ps_timestamp :: int
  ps_anomaly_type :: string
  ps_is_anomaly :: bool
  ps_metrics :: "(string \<times> real) list"

definition span_to_dict :: "proto_span \<Rightarrow> pydict" where
  "span_to_dict sp =
     fold (\<lambda>(n, v). AList.update n (PFloat v)) (ps_metrics sp)
       [(''trace_id'', PStr (ps_trace_id sp)), (''span_id'', PStr (ps_span_id sp)),
        (''service_id'', PStr (ps_service_id sp)), (''timestamp'', PInt (ps_timestamp sp)),
        (''anomaly_type'', if ps_anomaly_type sp = [] then PNone else PStr (ps_anomaly_type sp)),
        (''is_anomaly'', PBool (ps_is_anomaly sp))]"

text \<open>Each span comes with the clock reading its rejection would be logged at.\<close>

fun ingest_all :: "'w ingest_env \<Rightarrow> (real \<times> pydict) list \<Rightarrow> ('w ingest, outcome list) prog" where
  "ingest_all env [] s = (Inr [], s)"
| "ingest_all env ((now, r) # rs) s =
     (case ingest_span env now r s of
        (Inl e, t) \<Rightarrow> (Inl e, t)
      | (Inr o1, t) \<Rightarrow>
          (case ingest_all env rs t of (Inl e, u) \<Rightarrow> (Inl e, u) | (Inr os, u) \<Rightarrow> (Inr (o1 # os), u)))"

record ingest_response =
  resp_success :: bool
  resp_accepted :: nat
  resp_message :: string

text \<open>\<open>sorted(outcomes.items())\<close>: the outcomes that occurred, by name.\<close>

definition outcome_counts :: "outcome list \<Rightarrow> (outcome \<times> nat) list" where
  "outcome_counts os =
     filter (\<lambda>(o1, n). n \<noteq> 0) (map (\<lambda>o1. (o1, count_list os o1)) [Accepted, Duplicate, Failed, Rejected])"

definition batch_response :: "outcome list \<Rightarrow> ingest_response" where
  "batch_response os =
     (let msg = join_strs '', '' (map (\<lambda>(o1, n). outcome_label o1 @ ''='' @ nat_str n) (outcome_counts os))
      in \<lparr>resp_success = (count_list os Rejected = 0 \<and> count_list os Failed = 0),
          resp_accepted = count_list os Accepted,
          resp_message = (if msg = [] then ''empty batch'' else msg)\<rparr>)"

definition ingest_batch ::
  "'w ingest_env \<Rightarrow> (real \<times> proto_span) list \<Rightarrow> ('w ingest, ingest_response) prog" where
  "ingest_batch env spans s =
     (case ingest_all env (map (\<lambda>(now, sp). (now, span_to_dict sp)) spans) s of
        (Inl e, t) \<Rightarrow> (Inl e, t) | (Inr os, t) \<Rightarrow> (Inr (batch_response os), t))"

text \<open>The REST route: \<open>None\<close> is the 422 answer, \<open>Inl\<close> the 500 answer.\<close>

definition ingest_rest ::
  "'w ingest_env \<Rightarrow> real \<Rightarrow> pydict \<Rightarrow> ('w ingest, (string + outcome) option) prog" where
  "ingest_rest env now body s =
     (case validate_span (ie_coercions env) body of
        None \<Rightarrow> (Inr None, s)
      | Some sp \<Rightarrow>
          (case ingest_span env now (dump_span sp) s of
             (Inl e, t) \<Rightarrow> (Inl e, t)
           | (Inr o1, t) \<Rightarrow>
               (Inr (Some (if o1 = Failed
                  then Inl ''span could not be serialised or delivered (sent to DLQ)'' else Inr o1)), t)))"
subsection \<open>Counting\<close>

text \<open>The counters of the pipeline's own decisions.\<close>

definition decisions :: "'w ingest \<Rightarrow> nat \<times> nat \<times> nat \<times> nat" where
  "decisions s = (n_received s, n_accepted s, n_rejected s, n_duplicate s)"

lemma decisions_simps [simp]:
  "decisions (s\<lparr>ing_world := w\<rparr>) = decisions s"
  "decisions (s\<lparr>n_published := a\<rparr>) = decisions s"
  "decisions (s\<lparr>n_failed := a\<rparr>) = decisions s"
  "decisions (s\<lparr>n_dlq := a\<rparr>) = decisions s"
  "decisions (s\<lparr>n_dedup_errors := a\<rparr>) = decisions s"
  by (simp_all add: decisions_def)

lemma on_ingest_decisions: "on_ingest p s = (r, t) \<Longrightarrow> decisions t = decisions s"
  by (auto simp: on_ingest_def split: prod.splits)

lemma on_ingest_snd [simp]: "decisions (snd (on_ingest p s)) = decisions s"
  by (simp add: on_ingest_def split: prod.splits)

lemma dead_letter_decisions [simp]: "decisions (dead_letter api v k why s) = decisions s"
  by (simp add: dead_letter_def)

lemma on_delivery_decisions [simp]: "decisions (on_delivery api rep s) = decisions s"
  by (auto simp: on_delivery_def split: prod.splits option.splits)

lemma fold_delivery_decisions [simp]: "decisions (fold (on_delivery api) reps s) = decisions s"
  by (induction reps arbitrary: s) simp_all

lemma serve_reports_decisions [simp]: "decisions (serve_reports api t s) = decisions s"
  by (simp add: serve_reports_def split: prod.splits)

lemma produce_span_decisions: "produce_span api p k s = (r, t) \<Longrightarrow> decisions t = decisions s"
  by (auto simp: produce_span_def dest!: on_ingest_decisions split: prod.splits sum.splits)

lemma publish_span_decisions: "publish_span api d k s = (r, t) \<Longrightarrow> decisions t = decisions s"
  by (auto simp: publish_span_def dest!: on_ingest_decisions produce_span_decisions
      split: prod.splits sum.splits if_splits)

lemma check_duplicate_decisions:
  assumes "check_duplicate env i s = (dup, t)"
  shows "decisions t = (n_received s, n_accepted s, n_rejected s, n_duplicate s + (if dup then 1 else 0))"
  using assms
  by (auto simp: check_duplicate_def decisions_def dest!: on_ingest_decisions
      split: option.splits prod.splits sum.splits if_splits)

lemma index_log_decisions [simp]: "decisions (index_log env sp s) = decisions s"
  by (simp add: index_log_def decisions_def)

lemma log_reject_decisions [simp]: "decisions (log_reject now s) = decisions s"
  by (simp add: log_reject_def decisions_def)

lemma ingest_span_decisions:
  assumes "ingest_span env now raw s = (r, t)"
  shows "decisions t = (Suc (n_received s), n_accepted s + (if r = Inr Accepted then 1 else 0),
     n_rejected s + (if r = Inr Rejected then 1 else 0), n_duplicate s + (if r = Inr Duplicate then 1 else 0))"
proof (cases "validate_span (ie_coercions env) raw")
  case None
  with assms show ?thesis by (auto simp: ingest_span_def Let_def log_reject_def decisions_def)
next
  case (Some sp)
  let ?s = "s\<lparr>n_received := Suc (n_received s)\<rparr>"
  obtain dup s2 where dup: "check_duplicate env (pl_span_id sp) ?s = (dup, s2)" by fastforce
  obtain r1 t1 where pub: "publish_span (ie_producer env) (dump_span sp) (pl_service_id sp) s2 = (r1, t1)" by fastforce
  show ?thesis
    using assms Some dup pub check_duplicate_decisions [OF dup] publish_span_decisions [OF pub]
      index_log_decisions [of env sp "t1\<lparr>n_accepted := Suc (n_accepted t1)\<rparr>"]
    by (auto simp: ingest_span_def Let_def decisions_def split: sum.splits bool.splits if_splits)
qed

lemma ingest_span_rejects:
  "fst (ingest_span env now raw s) = Inr Rejected \<longleftrightarrow> validate_span (ie_coercions env) raw = None"
  "validate_span (ie_coercions env) raw = None \<Longrightarrow> ing_world (snd (ingest_span env now raw s)) = ing_world s"
  by (auto simp: ingest_span_def Let_def log_reject_def split: option.splits prod.splits sum.splits bool.splits)


text \<open>Counting the outcomes of a batch.\<close>

lemma ingest_all_decisions:
  "ingest_all env rs s = (Inr os, t) \<Longrightarrow>
     length os = length rs \<and>
     decisions t = (n_received s + length rs, n_accepted s + count_list os Accepted,
       n_rejected s + count_list os Rejected, n_duplicate s + count_list os Duplicate)"
proof (induction env rs s arbitrary: os t rule: ingest_all.induct)
  case (1 env s)
  then show ?case by (simp add: decisions_def)
next
  case (2 env now r rs s)
  obtain o1 u os1 where u: "ingest_span env now r s = (Inr o1, u)"
    and os1: "ingest_all env rs u = (Inr os1, t)" and os: "os = o1 # os1"
    using "2.prems" by (auto split: prod.splits sum.splits)
  from "2.IH" [OF u [symmetric] refl os1] ingest_span_decisions [OF u] show ?case
    by (cases o1) (simp_all add: os decisions_def)
qed

lemma outcomes_length:
  "length os = count_list os Accepted + count_list os Rejected + count_list os Duplicate + count_list os Failed"
proof (induction os)
  case (Cons o1 os)
  then show ?case by (cases o1) simp_all
qed simp

text \<open>
  The answer to a gRPC batch is honest: all its spans were received, "spans_accepted" is by how much
  the accepted counter grew, and it reports success exactly when every span of the batch was either
  accepted or recognised as a duplicate.
\<close>

theorem batch_answer_honest:
  assumes "ingest_batch env spans s = (Inr resp, t)"
  shows "n_received t = n_received s + length spans \<and>
         n_accepted t = n_accepted s + resp_accepted resp \<and>
         (resp_success resp \<longleftrightarrow>
            n_accepted t + n_duplicate t = n_accepted s + n_duplicate s + length spans)"
proof -
  obtain os where all: "ingest_all env (map (\<lambda>(now, sp). (now, span_to_dict sp)) spans) s = (Inr os, t)"
    and resp: "resp = batch_response os"
    using assms by (auto simp: ingest_batch_def split: prod.splits sum.splits)
  from ingest_all_decisions [OF all] outcomes_length [of os] show ?thesis
    by (auto simp: resp batch_response_def Let_def decisions_def)
qed

subsection \<open>Validation and the front ends\<close>

text \<open>Pydantic accepts a value that already has the field's type as it is.\<close>

definition coercion_law :: "coercions \<Rightarrow> bool" where
  "coercion_law co \<longleftrightarrow>
     (\<forall>s. as_str co (PStr s) = Some s) \<and> (\<forall>n. as_int co (PInt n) = Some n) \<and>
     (\<forall>x. as_float co (PFloat x) = Some x) \<and> (\<forall>b. as_bool co (PBool b) = Some b)"

definition valid_payload :: "span_payload \<Rightarrow> bool" where
  "valid_payload sp \<longleftrightarrow>
     length (pl_trace_id sp) \<in> {1..64} \<and> length (pl_span_id sp) \<in> {1..64} \<and>
     length (pl_service_id sp) \<in> {1..64} \<and> pl_timestamp sp > 0 \<and> pl_cpu_percent sp \<in> {0..100} \<and>
     pl_latency_p99 sp \<ge> 0 \<and> pl_error_rate sp \<in> {0..1} \<and> pl_request_rate sp \<ge> 0"

lemma validate_span_valid: "validate_span co d = Some sp \<Longrightarrow> valid_payload sp"
  by (auto simp: validate_span_def valid_payload_def id_field_def num_field_def time_field_def
      bind_eq_Some_conv Suc_le_eq split: option.splits if_splits)

lemma validate_dump:
  assumes law: "coercion_law co" and valid: "valid_payload sp"
  shows "validate_span co (dump_span sp) = Some sp"
proof -
  have "id_field co (dump_span sp) ''trace_id'' = Some (pl_trace_id sp)"
    "id_field co (dump_span sp) ''span_id'' = Some (pl_span_id sp)"
    "id_field co (dump_span sp) ''service_id'' = Some (pl_service_id sp)"
    "time_field co (dump_span sp) = Some (pl_timestamp sp)"
    "num_field co (dump_span sp) ''cpu_percent'' (\<lambda>x. 0 \<le> x \<and> x \<le> 100) = Some (pl_cpu_percent sp)"
    "num_field co (dump_span sp) ''latency_p99'' (\<lambda>x. 0 \<le> x) = Some (pl_latency_p99 sp)"
    "num_field co (dump_span sp) ''error_rate'' (\<lambda>x. 0 \<le> x \<and> x \<le> 1) = Some (pl_error_rate sp)"
    "num_field co (dump_span sp) ''request_rate'' (\<lambda>x. 0 \<le> x) = Some (pl_request_rate sp)"
    "type_field co (dump_span sp) = Some (pl_anomaly_type sp)"
    "flag_field co (dump_span sp) = Some (pl_is_anomaly sp)"
    using law valid
    by (auto simp: id_field_def time_field_def num_field_def type_field_def flag_field_def dump_span_def
        coercion_law_def valid_payload_def Suc_le_eq split: option.splits)
  then show ?thesis by (simp add: validate_span_def)
qed
text \<open>
  Both front ends apply the same gate: a REST body that FastAPI's validation accepts is handled
  exactly as the pipeline handles the raw span it came from (validating the dumped payload again
  changes nothing and cannot reject it), and one it refuses never reaches the pipeline.
\<close>

theorem front_ends_agree:
  assumes "coercion_law (ie_coercions env)"
  shows "ingest_rest env now body s =
    (case validate_span (ie_coercions env) body of
       None \<Rightarrow> (Inr None, s)
     | Some sp \<Rightarrow>
         (case ingest_span env now body s of
            (Inl e, t) \<Rightarrow> (Inl e, t)
          | (Inr Failed, t) \<Rightarrow> (Inr (Some (Inl ''span could not be serialised or delivered (sent to DLQ)'')), t)
          | (Inr o1, t) \<Rightarrow> (Inr (Some (Inr o1)), t)))"
proof (cases "validate_span (ie_coercions env) body")
  case (Some sp)
  from validate_dump [OF assms validate_span_valid [OF Some]]
  have "ingest_span env now (dump_span sp) s = ingest_span env now body s"
    by (simp add: ingest_span_def Some)
  then show ?thesis by (auto simp: ingest_rest_def Some split: prod.split sum.split outcome.split)
qed (simp add: ingest_rest_def)

definition ex_coercions :: coercions where
  "ex_coercions =
     \<lparr>as_str = (\<lambda>v. case v of PStr s \<Rightarrow> Some s | _ \<Rightarrow> None),
      as_int = (\<lambda>v. case v of PInt n \<Rightarrow> Some n | _ \<Rightarrow> None),
      as_float = (\<lambda>v. case v of PFloat x \<Rightarrow> Some x | PInt n \<Rightarrow> Some (of_int n) | _ \<Rightarrow> None),
      as_bool = (\<lambda>v. case v of PBool b \<Rightarrow> Some b | _ \<Rightarrow> None)\<rparr>"

lemma ex_coercion_law: "coercion_law ex_coercions"
  by (simp add: coercion_law_def ex_coercions_def)

text \<open>A broker that refuses everything while its queue is full, and a Redis beside it.\<close>

type_synonym ex_net = "(string \<times> nat \<Rightarrow> bool) \<times> bool \<times> payload list"

definition ex_span_producer :: "ex_net span_producer_api" where
  "ex_span_producer =
     \<lparr>avro_serialize = (\<lambda>d w. (Inr ''avro'', w)), json_dumps = (\<lambda>d. ''{}''),
      produce_to = (\<lambda>topic k v why (bits, full, ms).
        if full then (Inl BufferError, (bits, full, ms)) else (Inr (), (bits, full, ms @ [v]))),
      poll_kafka = (\<lambda>t w. ([], w))\<rparr>"

definition on_bits :: "(string \<times> nat \<Rightarrow> bool, 'a) prog \<Rightarrow> (ex_net, 'a) prog" where
  "on_bits p w = (let (r, b) = p (fst w) in (r, (b, snd w)))"

definition ex_net_redis :: "ex_net redis_api" where
  "ex_net_redis = \<lparr>pipe_getbits = (\<lambda>qs. on_bits (pipe_getbits ex_redis qs)),
                   pipe_setbits = (\<lambda>k ps ttl. on_bits (pipe_setbits ex_redis k ps ttl))\<rparr>"

definition ex_ingest_env :: "real \<Rightarrow> ex_net ingest_env" where
  "ex_ingest_env clock =
     \<lparr>ie_coercions = ex_coercions,
      ie_dedup = Some (seen_or_add ex_bloom_cfg (\<lambda>i. (3, 4)) ex_net_redis clock),
      ie_producer = ex_span_producer, ie_es_config = default_es_config, ie_format = (\<lambda>n x. ''0'')\<rparr>"

definition ex_ingest :: "bool \<Rightarrow> ex_net ingest" where
  "ex_ingest full =
     \<lparr>n_received = 0, n_accepted = 0, n_rejected = 0, n_duplicate = 0, n_published = 0, n_failed = 0,
      n_dlq = 0, n_dedup_errors = 0, last_reject_log = 0, reject_lines = 0, indexer = None,
      ing_world = (\<lambda>_. False, full, [])\<rparr>"

definition ex_payload :: span_payload where
  "ex_payload = \<lparr>pl_trace_id = ''t1'', pl_span_id = ''s1'', pl_service_id = ''a'', pl_timestamp = 1000,
     pl_cpu_percent = 50, pl_latency_p99 = 20, pl_error_rate = 0, pl_request_rate = 100,
     pl_anomaly_type = None, pl_is_anomaly = False\<rparr>"

lemma ex_payload_valid: "valid_payload ex_payload"
  by (simp add: valid_payload_def ex_payload_def)

lemma ex_validate: "validate_span (ie_coercions (ex_ingest_env c)) (dump_span ex_payload) = Some ex_payload"
  using validate_dump [OF ex_coercion_law ex_payload_valid] by (simp add: ex_ingest_env_def)

lemma ex_net_redis_law: "redis_law ex_net_redis (\<lambda>w k p. fst w (k, p))"
  by (auto simp: redis_law_def ex_net_redis_def ex_redis_def on_bits_def)

lemma ex_rest:
  "ingest_span (ex_ingest_env 5) 0 (dump_span ex_payload) (ex_ingest True) =
     (Inl BufferError, snd (ingest_span (ex_ingest_env 5) 0 (dump_span ex_payload) (ex_ingest True)))"
  unfolding ingest_span_def Let_def ex_validate
  by (simp add: check_duplicate_def ex_ingest_env_def on_ingest_def ex_ingest_def seen_or_add_def
      bloom_positions_def ex_bloom_cfg_def ex_net_redis_def ex_redis_def on_bits_def bnd_def ret_def Let_def
      publish_span_def produce_span_def ex_span_producer_def serve_reports_def numeral_2_eq_2)

theorem front_ends_agree_witness:
  "fst (ingest_rest (ex_ingest_env 5) 0 (dump_span ex_payload) (ex_ingest True)) = Inl BufferError"
proof -
  have "coercion_law (ie_coercions (ex_ingest_env 5))" by (simp add: ex_ingest_env_def ex_coercion_law)
  from front_ends_agree [OF this, of 0 "dump_span ex_payload" "ex_ingest True"] ex_rest show ?thesis
    by (simp add: ex_validate split: prod.splits)
qed

subsection \<open>A retry after a failed publish\<close>

text \<open>The producer's calls leave what \<open>v\<close> observes of the outside world alone.\<close>

definition producer_keeps :: "'w span_producer_api \<Rightarrow> ('w \<Rightarrow> 'v) \<Rightarrow> bool" where
  "producer_keeps api v \<longleftrightarrow>
     (\<forall>d w. v (snd (avro_serialize api d w)) = v w) \<and>
     (\<forall>topic k p why w. v (snd (produce_to api topic k p why w)) = v w) \<and>
     (\<forall>t w. v (snd (poll_kafka api t w)) = v w)"

lemma produce_to_keeps:
  assumes "producer_keeps api v" and "on_ingest (produce_to api topic k p why) s = (r, t)"
  shows "v (ing_world t) = v (ing_world s)"
proof -
  have "v (snd (produce_to api topic k p why (ing_world s))) = v (ing_world s)"
    using assms(1) unfolding producer_keeps_def by blast
  with assms(2) show ?thesis by (auto simp: on_ingest_def split: prod.splits)
qed

lemma avro_keeps:
  assumes "producer_keeps api v" and "on_ingest (avro_serialize api d) s = (r, t)"
  shows "v (ing_world t) = v (ing_world s)"
proof -
  have "v (snd (avro_serialize api d (ing_world s))) = v (ing_world s)"
    using assms(1) unfolding producer_keeps_def by blast
  with assms(2) show ?thesis by (auto simp: on_ingest_def split: prod.splits)
qed

lemma dead_letter_keeps:
  assumes "producer_keeps api v"
  shows "v (ing_world (dead_letter api p k why s)) = v (ing_world s)"
  using produce_to_keeps [OF assms, of dlq_topic k p "Some (take 300 why)" "s\<lparr>n_dlq := Suc (n_dlq s)\<rparr>"]
  by (cases "on_ingest (produce_to api dlq_topic k p (Some (take 300 why))) (s\<lparr>n_dlq := Suc (n_dlq s)\<rparr>)")
     (auto simp: dead_letter_def)

lemma on_delivery_keeps:
  "producer_keeps api v \<Longrightarrow> v (ing_world (on_delivery api rep s)) = v (ing_world s)"
  by (simp add: on_delivery_def dead_letter_keeps split: prod.splits option.splits)

lemma fold_delivery_keeps:
  "producer_keeps api v \<Longrightarrow> v (ing_world (fold (on_delivery api) reps s)) = v (ing_world s)"
  by (induction reps arbitrary: s) (simp_all add: on_delivery_keeps)

lemma serve_reports_keeps:
  assumes "producer_keeps api v"
  shows "v (ing_world (serve_reports api timeout s)) = v (ing_world s)"
proof -
  have "v (snd (poll_kafka api timeout (ing_world s))) = v (ing_world s)"
    using assms unfolding producer_keeps_def by blast
  then show ?thesis by (simp add: serve_reports_def fold_delivery_keeps [OF assms] case_prod_unfold Let_def)
qed

lemma produce_span_keeps:
  assumes "producer_keeps api v" and "produce_span api p k s = (r, t)"
  shows "v (ing_world t) = v (ing_world s)"
  using assms(2) serve_reports_keeps [OF assms(1)]
  by (auto simp: produce_span_def dest!: produce_to_keeps [OF assms(1)] split: prod.splits sum.splits)

lemma publish_span_keeps:
  assumes "producer_keeps api v" and "publish_span api d k s = (r, t)"
  shows "v (ing_world t) = v (ing_world s)"
  using assms(2) serve_reports_keeps [OF assms(1)] dead_letter_keeps [OF assms(1)]
  by (auto simp: publish_span_def dest!: produce_span_keeps [OF assms(1)] avro_keeps [OF assms(1)]
      split: prod.splits sum.splits if_splits)

text \<open>
  A span whose publish failed cannot be sent again: its id is put into the Bloom filter before the
  publish, so when the pipeline then raises (the local queue stayed full) or dead-letters it, the
  client's retry in the same or the next time bucket is answered "duplicate" and nothing is
  published for it.
\<close>

theorem failed_span_cannot_be_retried:
  assumes law: "redis_law redis rbit" and keeps: "producer_keeps (ie_producer env) rbit"
    and dedup: "ie_dedup env = Some (seen_or_add cfg digest redis clock)"
    and valid: "validate_span (ie_coercions env) raw = Some sp"
    and new: "seen_or_add cfg digest redis clock (pl_span_id sp) (ing_world s) = (Inr False, w1)"
    and first: "ingest_span env now raw s = (r, t)"
    and retry: "seen_or_add cfg digest redis later (pl_span_id sp) (ing_world t) = (Inr seen, w2)"
    and bucket: "bucket_at cfg later \<in> {bucket_at cfg clock, bucket_at cfg clock + 1}"
  shows "\<exists>u. ingest_span (env\<lparr>ie_dedup := Some (seen_or_add cfg digest redis later)\<rparr>) now2 raw t =
             (Inr Duplicate, u) \<and> n_published u = n_published t \<and> n_dlq u = n_dlq t"
proof -
  let ?s = "s\<lparr>n_received := Suc (n_received s), ing_world := w1\<rparr>"
  obtain r1 t1 where pub: "publish_span (ie_producer env) (dump_span sp) (pl_service_id sp) ?s = (r1, t1)"
    by fastforce
  from new have "check_duplicate env (pl_span_id sp) (s\<lparr>n_received := Suc (n_received s)\<rparr>) = (False, ?s)"
    by (simp add: check_duplicate_def dedup on_ingest_def)
  with first valid pub have t: "ing_world t = ing_world t1"
    by (auto simp: ingest_span_def index_log_def Let_def split: sum.splits bool.splits)
  from publish_span_keeps [OF keeps pub] have "rbit (ing_world t) = rbit w1" by (simp add: t)
  with seen_or_add_result(2) [OF law new]
  have "recorded cfg digest rbit (ing_world t) (bucket_at cfg clock) (pl_span_id sp)"
    by (simp add: recorded_def)
  with seen_or_add_result(1) [OF law retry] bucket have seen by auto
  with retry valid show ?thesis
    by (simp add: ingest_span_def check_duplicate_def on_ingest_def Let_def)
qed

lemma ex_producer_keeps: "producer_keeps ex_span_producer (\<lambda>w k p. fst w (k, p))"
  by (auto simp: producer_keeps_def ex_span_producer_def fun_eq_iff)

lemma ex_net_answers: "\<exists>b w2. seen_or_add ex_bloom_cfg (\<lambda>i. (3, 4)) ex_net_redis c i w = (Inr b, w2)"
  by (cases w) (simp add: seen_or_add_def ex_net_redis_def ex_redis_def on_bits_def bnd_def ret_def Let_def)

theorem failed_span_cannot_be_retried_witness:
  "\<exists>t u. ingest_span (ex_ingest_env 5) 0 (dump_span ex_payload) (ex_ingest True) = (Inl BufferError, t) \<and>
     ingest_span (ex_ingest_env 15) 1 (dump_span ex_payload) t = (Inr Duplicate, u) \<and> n_published u = n_published t"
proof -
  let ?seen = "\<lambda>c. seen_or_add ex_bloom_cfg (\<lambda>i. (3, 4)) ex_net_redis c"
  let ?t = "snd (ingest_span (ex_ingest_env 5) 0 (dump_span ex_payload) (ex_ingest True))"
  have keeps: "producer_keeps (ie_producer (ex_ingest_env 5)) (\<lambda>w k p. fst w (k, p))"
    and dedup: "ie_dedup (ex_ingest_env 5) = Some (?seen 5)"
    by (simp_all add: ex_ingest_env_def ex_producer_keeps)
  have "\<exists>w1. ?seen 5 (pl_span_id ex_payload) (ing_world (ex_ingest True)) = (Inr False, w1)"
    by (simp add: seen_or_add_def bloom_positions_def ex_bloom_cfg_def ex_net_redis_def ex_redis_def
        on_bits_def bnd_def ret_def Let_def numeral_2_eq_2 ex_ingest_def)
  then obtain w1 where new: "?seen 5 (pl_span_id ex_payload) (ing_world (ex_ingest True)) = (Inr False, w1)" ..
  have "\<exists>b w2. ?seen 15 (pl_span_id ex_payload) (ing_world ?t) = (Inr b, w2)"
    by (rule ex_net_answers)
  then obtain b w2 where retry: "?seen 15 (pl_span_id ex_payload) (ing_world ?t) = (Inr b, w2)" by blast
  have "bucket_at ex_bloom_cfg 15 \<in> {bucket_at ex_bloom_cfg 5, bucket_at ex_bloom_cfg 5 + 1}"
    by (simp add: bucket_at_def ex_bloom_cfg_def)
  from failed_span_cannot_be_retried [OF ex_net_redis_law keeps dedup ex_validate new ex_rest retry this, of 1]
  have "\<exists>u. ingest_span (ex_ingest_env 15) 1 (dump_span ex_payload) ?t = (Inr Duplicate, u) \<and> n_published u = n_published ?t"
    by (auto simp: ex_ingest_env_def)
  with ex_rest show ?thesis by metis
qed

definition ex_proto :: proto_span where
  "ex_proto = \<lparr>ps_trace_id = [], ps_span_id = ''s'', ps_service_id = ''a'', ps_timestamp = 1,
     ps_anomaly_type = [], ps_is_anomaly = False, ps_metrics = []\<rparr>"

theorem batch_answer_honest_witness:
  "\<exists>resp t. ingest_batch (ex_ingest_env 5) [(20, ex_proto)] (ex_ingest False) = (Inr resp, t) \<and>
     n_received t = 1 \<and> \<not> resp_success resp"
proof -
  have bad: "validate_span (ie_coercions (ex_ingest_env 5)) (span_to_dict ex_proto) = None"
    by (simp add: validate_span_def id_field_def span_to_dict_def ex_proto_def ex_ingest_env_def ex_coercions_def)
  have "\<exists>t. ingest_batch (ex_ingest_env 5) [(20, ex_proto)] (ex_ingest False) = (Inr (batch_response [Rejected]), t) \<and>
      n_accepted t = 0 \<and> n_duplicate t = 0"
    by (simp add: ingest_batch_def ingest_span_def bad log_reject_def ex_ingest_def)
  then obtain t where t: "ingest_batch (ex_ingest_env 5) [(20, ex_proto)] (ex_ingest False) = (Inr (batch_response [Rejected]), t)"
    "n_accepted t = 0" "n_duplicate t = 0" by blast
  from batch_answer_honest [OF t(1)] t(2,3) have "n_received t = 1 \<and> \<not> resp_success (batch_response [Rejected])"
    by (simp add: ex_ingest_def)
  with t(1) show ?thesis by blast
qed

end
