(* ===== verification/Ingest_Delivery.thy ===== *)
theory Ingest_Delivery
  imports Ingestion
begin

section \<open>Delivery of the ingested spans\<close>

text \<open>
  The other half of \<open>ingestion/producer/kafka_producer.py\<close>: the thread that polls for delivery reports beside the
  requests, and \<open>close\<close>. The requests and the polls are steps in any order; what librdkafka has taken but not yet
  reported is observed by a function of the outside world.
\<close>

datatype producer_event = Request real pydict | PollTick

text \<open>\<open>_poll_loop\<close> polls with half a second; \<open>publish\<close> is part of the request.\<close>

fun producer_step ::
  "'w ingest_env \<Rightarrow> producer_event \<Rightarrow> 'w ingest \<Rightarrow> (exn + outcome) option \<times> 'w ingest" where
  "producer_step env (Request now raw) s = (case ingest_span env now raw s of (r, t) \<Rightarrow> (Some r, t))"
| "producer_step env PollTick s = (None, serve_reports (ie_producer env) (1 / 2) s)"

fun producer_run ::
  "'w ingest_env \<Rightarrow> producer_event list \<Rightarrow> 'w ingest \<Rightarrow> (exn + outcome) list \<times> 'w ingest" where
  "producer_run env [] s = ([], s)"
| "producer_run env (ev # evs) s =
     (let (r, t) = producer_step env ev s; (rs, u) = producer_run env evs t
      in ((case r of None \<Rightarrow> rs | Some x \<Rightarrow> x # rs), u))"

text \<open>
  \<open>close\<close>: the polling thread stops and \<open>flush(10)\<close> serves reports, in as many polls as the client library
  makes of its ten seconds (\<open>waits\<close>); how many spans it leaves is ignored.
\<close>

definition producer_close :: "'w ingest_env \<Rightarrow> real list \<Rightarrow> 'w ingest \<Rightarrow> 'w ingest" where
  "producer_close env waits s = fold (serve_reports (ie_producer env)) waits s"

text \<open>
  What librdkafka documents: \<open>unreported\<close> counts the messages with a delivery callback that it has accepted and not
  yet reported. Accepting a span adds one, serving the callbacks takes off what is reported; dead letters have no
  callback, a refused message changes nothing, nor do the serialiser and Redis.
\<close>

definition delivery_law :: "'w ingest_env \<Rightarrow> ('w \<Rightarrow> nat) \<Rightarrow> bool" where
  "delivery_law env unreported \<longleftrightarrow>
     (\<forall>d w. unreported (snd (avro_serialize (ie_producer env) d w)) = unreported w) \<and>
     (\<forall>topic k p why w. unreported (snd (produce_to (ie_producer env) topic k p why w)) =
        unreported w + (if why = None \<and> fst (produce_to (ie_producer env) topic k p why w) = Inr () then 1 else 0)) \<and>
     (\<forall>t w. unreported w = unreported (snd (poll_kafka (ie_producer env) t w)) +
        length (fst (poll_kafka (ie_producer env) t w))) \<and>
     (\<forall>seen i w. ie_dedup env = Some seen \<longrightarrow> unreported (snd (seen i w)) = unreported w)"

text \<open>From \<open>s\<close> to \<open>t\<close> the producer took over \<open>k\<close> spans: each is reported, dead-lettered, or still unreported.\<close>

definition took :: "('w \<Rightarrow> nat) \<Rightarrow> nat \<Rightarrow> 'w ingest \<Rightarrow> 'w ingest \<Rightarrow> bool" where
  "took unreported k s t \<longleftrightarrow>
     n_published t + n_failed t + unreported (ing_world t) = n_published s + n_failed s + unreported (ing_world s) + k \<and>
     n_dlq t + n_failed s = n_dlq s + n_failed t"

lemma took_trans: "took u j s t \<Longrightarrow> took u k t v \<Longrightarrow> took u (j + k) s v"
  by (simp add: took_def)

lemma took_refl: "took u 0 s s"
  by (simp add: took_def)

lemma took_on_ingest:
  assumes "on_ingest p s = (r, t)" and "unreported (snd (p (ing_world s))) = unreported (ing_world s) + k"
  shows "took unreported k s t"
  using assms by (auto simp: on_ingest_def took_def split: prod.splits)

lemma dead_letter_took:
  assumes "delivery_law env unreported"
  shows "took unreported 1 s (dead_letter (ie_producer env) v k why (s\<lparr>n_failed := Suc (n_failed s)\<rparr>))"
proof -
  have "unreported (snd (produce_to (ie_producer env) dlq_topic k v (Some (take 300 why)) w)) = unreported w" for w
    using assms by (simp add: delivery_law_def)
  then show ?thesis by (simp add: dead_letter_def on_ingest_def took_def case_prod_unfold Let_def)
qed

text \<open>A delivery report replaces an unreported span.\<close>

lemma on_delivery_counts:
  assumes "delivery_law env unreported"
  shows "took unreported 1 s (on_delivery (ie_producer env) rep s)"
proof (cases rep)
  case (fields err v k)
  then show ?thesis
    using dead_letter_took [OF assms] by (cases err) (simp_all add: on_delivery_def took_def)
qed

lemma deliveries_count:
  "delivery_law env unreported \<Longrightarrow> took unreported (length reps) s (fold (on_delivery (ie_producer env)) reps s)"
proof (induction reps arbitrary: s)
  case (Cons rep reps)
  from took_trans [OF on_delivery_counts [OF Cons.prems, of s rep] Cons.IH [OF Cons.prems, of "on_delivery (ie_producer env) rep s"]]
  show ?case by simp
qed (simp add: took_refl)

lemma serve_reports_took:
  assumes "delivery_law env unreported"
  shows "took unreported 0 s (serve_reports (ie_producer env) timeout s)"
proof -
  obtain reps w where p: "poll_kafka (ie_producer env) timeout (ing_world s) = (reps, w)" by fastforce
  have "unreported (ing_world s) = unreported w + length reps"
    using assms p unfolding delivery_law_def by (metis fst_conv snd_conv)
  moreover have "took unreported (length reps) (s\<lparr>ing_world := w\<rparr>) (fold (on_delivery (ie_producer env)) reps (s\<lparr>ing_world := w\<rparr>))"
    by (rule deliveries_count [OF assms])
  ultimately show ?thesis by (simp add: serve_reports_def p took_def)
qed

lemma produce_span_took:
  assumes "delivery_law env unreported" and "produce_span (ie_producer env) p k s = (r, t)"
  shows "took unreported (if r = Inr () then 1 else 0) s t"
proof -
  let ?q = "produce_to (ie_producer env) raw_topic k p None"
  obtain r1 t1 where q: "on_ingest ?q s = (r1, t1)" by fastforce
  then have "r1 = fst (?q (ing_world s))" by (auto simp: on_ingest_def split: prod.splits)
  moreover have "unreported (snd (?q (ing_world s))) =
      unreported (ing_world s) + (if fst (?q (ing_world s)) = Inr () then 1 else 0)"
    using assms(1) by (simp add: delivery_law_def)
  ultimately have t1: "took unreported (if r1 = Inr () then 1 else 0) s t1" using took_on_ingest [OF q] by metis
  show ?thesis
  proof (cases r1)
    case (Inl e)
    with assms(2) q t1 show ?thesis by (auto simp: produce_span_def)
  next
    case (Inr x)
    with t1 have "took unreported 1 s t1" by simp
    from took_trans [OF this serve_reports_took [OF assms(1)]] Inr assms(2) q show ?thesis
      by (auto simp: produce_span_def)
  qed
qed

lemma publish_span_took:
  assumes law: "delivery_law env unreported" and pub: "publish_span (ie_producer env) d k s = (r, t)"
  shows "took unreported (case r of Inl e \<Rightarrow> 0 | Inr _ \<Rightarrow> 1) s t"
proof -
  obtain a s1 where a: "on_ingest (avro_serialize (ie_producer env) d) s = (a, s1)" by fastforce
  have s1: "took unreported 0 s s1"
    using law by (intro took_on_ingest [OF a]) (simp add: delivery_law_def)
  show ?thesis
  proof (cases a)
    case (Inl e)
    with pub a took_trans [OF s1 dead_letter_took [OF law]] show ?thesis by (auto simp: publish_span_def)
  next
    case (Inr p)
    obtain b s2 where b: "produce_span (ie_producer env) p k s1 = (b, s2)" by fastforce
    note s2 = took_trans [OF s1 produce_span_took [OF law b]]
    show ?thesis
    proof (cases "b = Inl BufferError")
      case False
      with pub a Inr b s2 show ?thesis by (cases b) (auto simp: publish_span_def)
    next
      case True
      obtain c s3 where c: "produce_span (ie_producer env) p k (serve_reports (ie_producer env) (1 / 2) s2) = (c, s3)"
        by fastforce
      from took_trans [OF took_trans [OF s2 serve_reports_took [OF law]] produce_span_took [OF law c]]
      show ?thesis using pub a Inr b c True by (cases c) (auto simp: publish_span_def)
    qed
  qed
qed

lemma check_duplicate_took:
  assumes law: "delivery_law env unreported" and "check_duplicate env i s = (dup, t)"
  shows "took unreported 0 s t"
proof (cases "ie_dedup env")
  case None
  with assms(2) show ?thesis by (simp add: check_duplicate_def took_refl)
next
  case (Some seen)
  obtain r t1 where r: "on_ingest (seen i) s = (r, t1)" by fastforce
  have "took unreported 0 s t1"
    using law Some by (intro took_on_ingest [OF r]) (simp add: delivery_law_def)
  with assms(2) Some r show ?thesis
    by (auto simp: check_duplicate_def took_def split: sum.splits if_splits)
qed

lemma ingest_span_took:
  assumes law: "delivery_law env unreported" and run: "ingest_span env now raw s = (r, t)"
  shows "took unreported (if r = Inr Accepted \<or> r = Inr Failed then 1 else 0) s t"
proof (cases "validate_span (ie_coercions env) raw")
  case None
  with run show ?thesis by (auto simp: ingest_span_def Let_def log_reject_def took_def)
next
  case (Some sp)
  let ?s = "s\<lparr>n_received := Suc (n_received s)\<rparr>"
  obtain dup s2 where dup: "check_duplicate env (pl_span_id sp) ?s = (dup, s2)" by fastforce
  obtain r1 t1 where pub: "publish_span (ie_producer env) (dump_span sp) (pl_service_id sp) s2 = (r1, t1)" by fastforce
  have s2: "took unreported 0 s s2" using check_duplicate_took [OF law dup] by (simp add: took_def)
  note t1 = took_trans [OF s2 publish_span_took [OF law pub]]
  have index: "took unreported k s (index_log env sp (t1\<lparr>n_accepted := n\<rparr>)) = took unreported k s t1" for k n
    by (simp add: index_log_def took_def)
  show ?thesis
    using run Some dup pub s2 t1 by (auto simp: ingest_span_def Let_def index split: sum.splits bool.splits if_splits)
qed

lemma close_took:
  assumes "delivery_law env unreported"
  shows "took unreported 0 s (producer_close env waits s)"
proof (induction waits arbitrary: s)
  case (Cons t waits)
  from took_trans [OF serve_reports_took [OF assms, of s t] Cons.IH]
  show ?case by (simp add: producer_close_def)
qed (simp add: producer_close_def took_refl)

text \<open>A broker that reports every queued span as undeliverable whenever the poll may wait.\<close>

definition ex_delivery_env :: "(payload \<times> string) list ingest_env" where
  "ex_delivery_env =
     \<lparr>ie_coercions = ex_coercions, ie_dedup = None,
      ie_producer = \<lparr>avro_serialize = (\<lambda>d w. (Inr ''avro'', w)), json_dumps = (\<lambda>d. ''{}''),
        produce_to = (\<lambda>topic k v why w. (Inr (), if why = None then w @ [(v, k)] else w)),
        poll_kafka = (\<lambda>t w. if t > 0 then (map (\<lambda>(v, k). (Some ''timed out'', v, k)) w, []) else ([], w))\<rparr>,
      ie_es_config = default_es_config, ie_format = (\<lambda>n x. ''0'')\<rparr>"

definition ex_delivery :: "(payload \<times> string) list ingest" where
  "ex_delivery =
     \<lparr>n_received = 0, n_accepted = 0, n_rejected = 0, n_duplicate = 0, n_published = 0, n_failed = 0,
      n_dlq = 0, n_dedup_errors = 0, last_reject_log = 0, reject_lines = 0, indexer = None, ing_world = []\<rparr>"

lemma ex_delivery_law: "delivery_law ex_delivery_env length"
  by (simp add: delivery_law_def ex_delivery_env_def)

lemma ex_delivery_run:
  "fst (producer_run ex_delivery_env [Request 0 (dump_span ex_payload), Request 1 (dump_span ex_payload)] ex_delivery) =
     [Inr Accepted, Inr Accepted]"
proof -
  have "validate_span (ie_coercions ex_delivery_env) (dump_span ex_payload) = Some ex_payload"
    using validate_dump [OF ex_coercion_law ex_payload_valid] by (simp add: ex_delivery_env_def)
  then show ?thesis
    by (simp add: ingest_span_def check_duplicate_def ex_delivery_env_def ex_delivery_def publish_span_def
        produce_span_def serve_reports_def on_ingest_def index_log_def)
qed



end
