(* ===== verification/ML_Models.thy ===== *)
theory ML_Models
  imports Py_Values
begin

section \<open>The models of the ML service\<close>

text \<open>
  \<open>ml_service/models/anomaly_debouncer.py\<close>, \<open>threshold.py\<close>, \<open>isolation_forest.py\<close> and
  \<open>torchserve/handler.py\<close>. scikit-learn's forest, torch's network, NumPy's standard deviation and
  percentiles, and the file system are parameters.
\<close>

subsection \<open>The debouncer\<close>

record debouncer =
  db_threshold :: real
  db_windows :: nat
  db_flags :: "bool list"

definition new_debouncer :: "real \<Rightarrow> nat \<Rightarrow> debouncer" where
  "new_debouncer threshold k = \<lparr>db_threshold = threshold, db_windows = k, db_flags = []\<rparr>"

definition push_flag :: "nat \<Rightarrow> bool \<Rightarrow> bool list \<Rightarrow> bool list" where
  "push_flag k b flags = deque_append k b flags"

definition db_check :: "real \<Rightarrow> debouncer \<Rightarrow> bool \<times> debouncer" where
  "db_check err d =
     (let flags = push_flag (db_windows d) (db_threshold d < err) (db_flags d)
      in (length flags = db_windows d \<and> list_all id flags, d\<lparr>db_flags := flags\<rparr>))"

definition db_reset :: "debouncer \<Rightarrow> debouncer" where
  "db_reset d = d\<lparr>db_flags := []\<rparr>"

text \<open>A stream of reconstruction errors; \<open>None\<close> is a reset.\<close>

fun db_step :: "real option \<Rightarrow> debouncer \<Rightarrow> debouncer" where
  "db_step (Some err) d = snd (db_check err d)"
| "db_step None d = db_reset d"

interpretation flags: recent_buffer "push_flag k" "\<lambda>fs. fs" k for k
  by unfold_locales (simp add: push_flag_def deque_append_def)

lemma db_check_fields [simp]:
  "db_threshold (snd (db_check err d)) = db_threshold d"
  "db_windows (snd (db_check err d)) = db_windows d"
  by (simp_all add: db_check_def Let_def)

lemma db_check_flags: "db_flags (snd (db_check err d)) = push_flag (db_windows d) (db_threshold d < err) (db_flags d)"
  by (simp add: db_check_def Let_def)

lemma db_check_confirms: "fst (db_check err d) \<longleftrightarrow>
    (let fs = db_flags (snd (db_check err d)) in length fs = db_windows d \<and> list_all id fs)"
  by (simp add: db_check_def Let_def)

lemma db_run_fields:
  "db_threshold (fold (\<lambda>e d. snd (db_check e d)) es d) = db_threshold d \<and>
   db_windows (fold (\<lambda>e d. snd (db_check e d)) es d) = db_windows d"
  by (induction es arbitrary: d) simp_all

lemma db_run_flags:
  "db_flags (fold (\<lambda>e d. snd (db_check e d)) es d) =
     fold (push_flag (db_windows d)) (map (\<lambda>e. db_threshold d < e) es) (db_flags d)"
  by (induction es arbitrary: d) (simp_all add: db_check_flags)

text \<open>What a run of errors leaves in a debouncer that started empty.\<close>

lemma debounced_flags:
  "db_flags (fold (\<lambda>e d. snd (db_check e d)) es (new_debouncer threshold k)) =
     take_last k (map (\<lambda>e. threshold < e) es)"
  using flags.items_run [of "[]" k "map (\<lambda>e. threshold < e) es"]
  by (simp add: db_run_flags new_debouncer_def)

text \<open>The verdict on the latest of a run of errors.\<close>

lemma debounced_verdict:
  assumes "0 < k"
  shows "fst (db_check e (fold (\<lambda>e d. snd (db_check e d)) es (new_debouncer threshold k))) \<longleftrightarrow>
         k \<le> Suc (length es) \<and> (\<forall>x \<in> set (take_last k (es @ [e])). threshold < x)"
proof -
  let ?d = "fold (\<lambda>e d. snd (db_check e d)) es (new_debouncer threshold k)"
  have "db_flags (snd (db_check e ?d)) = map (\<lambda>e. threshold < e) (take_last k (es @ [e]))"
    using debounced_flags [where threshold = threshold and k = k and es = "es @ [e]"]
    by (simp add: take_last_map del: map_append)
  moreover have "db_windows ?d = k"
    using db_run_fields [of es "new_debouncer threshold k"] by (simp add: new_debouncer_def)
  ultimately have "fst (db_check e ?d) \<longleftrightarrow>
      min k (length (es @ [e])) = k \<and> (\<forall>x \<in> set (take_last k (es @ [e])). threshold < x)"
    unfolding db_check_confirms Let_def by (simp only: length_map length_take_last list_all_iff) auto
  then show ?thesis by (auto simp: min_def)
qed

subsection \<open>The threshold\<close>

definition sigma_multiplier :: real where
  "sigma_multiplier = 3"

record threshold_stats =
  ts_mean :: real
  ts_std :: real
  ts_threshold :: real

text \<open>\<open>std\<close> is \<open>np.std\<close>.\<close>

definition compute_threshold :: "(real list \<Rightarrow> real) \<Rightarrow> real list \<Rightarrow> threshold_stats" where
  "compute_threshold std errors =
     (let m = mean errors; s = std errors
      in \<lparr>ts_mean = m, ts_std = s, ts_threshold = m + sigma_multiplier * s\<rparr>)"

definition load_threshold :: "threshold_stats option \<Rightarrow> threshold_stats" where
  "load_threshold file =
     (case file of None \<Rightarrow> \<lparr>ts_mean = 5 / 100, ts_std = 2 / 100, ts_threshold = 11 / 100\<rparr> | Some t \<Rightarrow> t)"

subsection \<open>The isolation forest\<close>

record metrics_row =
  row_cpu :: real
  row_latency :: real
  row_error :: real
  row_requests :: real

record stats_ops =
  np_std :: "real list \<Rightarrow> real"
  np_percentile :: "real list \<Rightarrow> real \<Rightarrow> real"

definition extract_features :: "stats_ops \<Rightarrow> metrics_row list \<Rightarrow> real list" where
  "extract_features np rows =
     (if rows = [] then replicate 7 0
      else let vals = map row_cpu rows @ map row_latency rows
           in [mean vals, np_std np vals, np_percentile np vals 95, np_percentile np vals 99,
               Max (set vals), mean (map row_error rows), mean (map row_requests rows)])"

text \<open>\<open>decide\<close> is \<open>decision_function\<close> of the loaded model, \<open>None\<close> when none is loaded.\<close>

definition forest_predict :: "(real list \<Rightarrow> exn + real) option \<Rightarrow> real list \<Rightarrow> exn + real" where
  "forest_predict model features =
     (case model of
        None \<Rightarrow> Inl (RuntimeError ''Model not loaded. Call load() first.'')
      | Some decide \<Rightarrow> rbind (decide features) (\<lambda>d. Inr (1 / (1 + exp (- (- d) * 5)))))"

lemma forest_score_range: "forest_predict model features = Inr x \<Longrightarrow> 0 < x \<and> x < 1"
  by (cases model) (auto simp: forest_predict_def rbind_def add_pos_pos split: sum.splits)

text \<open>The fallback's verdict \<open>score > 0.7\<close> is a bound on the forest's decision.\<close>

lemma forest_score_high:
  assumes "decide features = Inr d"
  shows "(\<exists>x. forest_predict (Some decide) features = Inr x \<and> 7 / 10 < x) \<longleftrightarrow> d < - ln (7 / 3) / 5"
proof -
  have "7 / 10 < 1 / (1 + exp (d * 5)) \<longleftrightarrow> exp (d * 5) < 3 / 7"
    by (simp add: field_simps add_pos_pos)
  also have "\<dots> \<longleftrightarrow> d * 5 < ln (3 / 7)"
    by (subst ln_less_cancel_iff [symmetric]) simp_all
  also have "ln (3 / 7 :: real) = - ln (7 / 3)"
    by (simp add: ln_div)
  finally show ?thesis using assms by (simp add: forest_predict_def field_simps)
qed

subsection \<open>The TorchServe handler\<close>

definition lstm_sequence_len :: nat where
  "lstm_sequence_len = 60"

definition lstm_num_features :: nat where
  "lstm_num_features = 4"

text \<open>
  \<open>preprocess\<close> of a request's \<open>data\<close> and \<open>body\<close>; \<open>as_row\<close> converts the first features to numbers.
\<close>

definition lstm_preprocess ::
  "(pyval list \<Rightarrow> exn + real list) \<Rightarrow> pydict \<Rightarrow> exn + real list list" where
  "lstm_preprocess as_row request =
     (case py_or (dict_get request ''data'') (dict_get request ''body'') of
        PList xs \<Rightarrow>
          if lstm_num_features \<le> length xs
          then rbind (as_row (take lstm_num_features xs)) (\<lambda>row. Inr (replicate lstm_sequence_len row))
          else Inl ValueError
      | _ \<Rightarrow> Inl ValueError)"

record lstm_answer =
  la_error :: real
  la_threshold :: real
  la_score :: real

definition lstm_postprocess :: "threshold_stats \<Rightarrow> real \<Rightarrow> exn + lstm_answer" where
  "lstm_postprocess t err =
     (if ts_threshold t = 0 then Inl (ExternalError ''ZeroDivisionError'')
      else Inr \<lparr>la_error = err, la_threshold = ts_threshold t, la_score = min 1 (err / ts_threshold t)\<rparr>)"

end
