(* ===== verification/ML_Gateway.thy ===== *)
theory ML_Gateway
  imports ML_Models
begin

section \<open>The inference gateway\<close>

text \<open>
  \<open>ml_service/gateway/grpc_gateway.py\<close>: a rolling window of readings per service, the transformer's
  reconstruction error with a debouncer per service, and the isolation forest while the window
  fills or the transformer fails. The network, the forest, NumPy's statistics and the clock are
  parameters; the arithmetic of the window is over real numbers.
\<close>

definition transformer_len :: nat where
  "transformer_len = 60"

definition transformer_features :: nat where
  "transformer_features = 4"

definition debounce_windows :: nat where
  "debounce_windows = 2"

record gateway_env =
  ge_transformer :: "(real list list \<Rightarrow> exn + real) option"
  ge_threshold :: real
  ge_norm_mean :: "real list"
  ge_norm_std :: "real list"
  ge_forest :: "(real list \<Rightarrow> exn + real) option"
  ge_np :: stats_ops

text \<open>
  \<open>__init__\<close> from the files found: the network, the threshold (1.0 if there is none), the
  normalisation (without it the transformer is off), the forest.
\<close>

definition gateway_of_files ::
  "(real list list \<Rightarrow> exn + real) option \<Rightarrow> real option \<Rightarrow> (real list \<times> real list) option \<Rightarrow>
     (real list \<Rightarrow> exn + real) option \<Rightarrow> stats_ops \<Rightarrow> gateway_env" where
  "gateway_of_files net threshold stats forest np =
     \<lparr>ge_transformer = (if stats = None then None else net),
      ge_threshold = (case threshold of None \<Rightarrow> 1 | Some t \<Rightarrow> t),
      ge_norm_mean = (case stats of None \<Rightarrow> [] | Some (m, _) \<Rightarrow> m),
      ge_norm_std = (case stats of None \<Rightarrow> [] | Some (_, s) \<Rightarrow> s),
      ge_forest = forest, ge_np = np\<rparr>"

record gateway =
  gw_buffers :: "string \<Rightarrow> real list list option"
  gw_debouncers :: "string \<Rightarrow> debouncer option"

definition new_gateway :: gateway where
  "new_gateway = \<lparr>gw_buffers = (\<lambda>_. None), gw_debouncers = (\<lambda>_. None)\<rparr>"

definition get_buffer :: "string \<Rightarrow> gateway \<Rightarrow> real list list" where
  "get_buffer sid s = (case gw_buffers s sid of None \<Rightarrow> [] | Some b \<Rightarrow> b)"

definition get_debouncer :: "gateway_env \<Rightarrow> string \<Rightarrow> gateway \<Rightarrow> debouncer" where
  "get_debouncer env sid s =
     (case gw_debouncers s sid of
        None \<Rightarrow> new_debouncer (ge_threshold env) debounce_windows | Some d \<Rightarrow> d)"

definition buffer_to_rows :: "real list list \<Rightarrow> metrics_row list" where
  "buffer_to_rows buf =
     map (\<lambda>r. \<lparr>row_cpu = r ! 0, row_latency = r ! 1, row_error = r ! 2, row_requests = r ! 3\<rparr>) buf"

definition normalise :: "gateway_env \<Rightarrow> real list list \<Rightarrow> real list list" where
  "normalise env buf =
     map (\<lambda>r. map (\<lambda>(x, m, d). (x - m) / d) (zip r (zip (ge_norm_mean env) (ge_norm_std env)))) buf"

datatype model_name = NoModel | Transformer | Isolation_Forest

record judgement =
  ju_score :: real
  ju_model :: model_name
  ju_error :: real
  ju_anomaly :: bool

definition no_judgement :: judgement where
  "no_judgement = \<lparr>ju_score = 0, ju_model = NoModel, ju_error = 0, ju_anomaly = False\<rparr>"

text \<open>
  The transformer on a full window. A zero threshold raises after the error was assigned, so the
  error stays in the answer and the debouncer is not touched.
\<close>

definition judge_transformer ::
  "gateway_env \<Rightarrow> string \<Rightarrow> real list list \<Rightarrow> gateway \<Rightarrow> judgement \<times> gateway" where
  "judge_transformer env sid buf s =
     (case ge_transformer env of
        Some net \<Rightarrow>
          if length buf = transformer_len
          then case net (normalise env buf) of
                 Inl e \<Rightarrow> (no_judgement, s)
               | Inr err \<Rightarrow>
                   if ge_threshold env = 0 then (no_judgement\<lparr>ju_error := err\<rparr>, s)
                   else let (confirmed, d) = db_check err (get_debouncer env sid s)
                        in (\<lparr>ju_score = min 1 (err / ge_threshold env), ju_model = Transformer,
                             ju_error = err, ju_anomaly = confirmed\<rparr>,
                            s\<lparr>gw_debouncers := (gw_debouncers s)(sid \<mapsto> d)\<rparr>)
          else (no_judgement, s)
      | None \<Rightarrow> (no_judgement, s))"

definition judge_forest :: "gateway_env \<Rightarrow> real list list \<Rightarrow> judgement \<Rightarrow> judgement" where
  "judge_forest env buf j =
     (case ge_forest env of
        Some decide \<Rightarrow>
          if ju_model j = NoModel \<and> buf \<noteq> []
          then case forest_predict (Some decide) (extract_features (ge_np env) (buffer_to_rows buf)) of
                 Inl e \<Rightarrow> j
               | Inr x \<Rightarrow> j\<lparr>ju_score := x, ju_model := Isolation_Forest, ju_anomaly := (7 / 10 < x)\<rparr>
          else j
      | None \<Rightarrow> j)"

definition anomaly_names :: "string list" where
  "anomaly_names = [''CPU_SPIKE'', ''LATENCY_BURST'', ''ERROR_RATE_SPIKE'', ''REQUEST_DROP'']"

text \<open>\<open>np.argmax\<close> takes the first of the largest.\<close>

definition anomaly_type_of :: "bool \<Rightarrow> real list \<Rightarrow> string" where
  "anomaly_type_of anomalous features =
     (if anomalous \<and> 4 \<le> length features
      then anomaly_names ! max_key_from (\<lambda>i. \<bar>features ! i\<bar>) 0 [1, 2, 3] else [])"

record inference =
  inf_service :: string
  inf_score :: real
  inf_model :: model_name
  inf_anomaly :: bool
  inf_latency_ms :: real
  inf_type :: string
  inf_error :: real

definition add_reading :: "string \<Rightarrow> real list \<Rightarrow> gateway \<Rightarrow> gateway" where
  "add_reading sid features s =
     s\<lparr>gw_buffers := (gw_buffers s)(sid \<mapsto>
        (if transformer_features \<le> length features
         then deque_append transformer_len (take transformer_features features) (get_buffer sid s)
         else get_buffer sid s))\<rparr>"

definition infer ::
  "gateway_env \<Rightarrow> real \<times> real \<Rightarrow> string \<Rightarrow> real list \<Rightarrow> gateway \<Rightarrow> inference \<times> gateway" where
  "infer env clock sid features s =
     (let s1 = add_reading sid features s;
          buf = get_buffer sid s1;
          (j1, s2) = judge_transformer env sid buf s1;
          j = judge_forest env buf j1
      in (\<lparr>inf_service = sid, inf_score = ju_score j, inf_model = ju_model j, inf_anomaly = ju_anomaly j,
           inf_latency_ms = (snd clock - fst clock) * 1000,
           inf_type = anomaly_type_of (ju_anomaly j) features, inf_error = ju_error j\<rparr>, s2))"

subsection \<open>What a run of requests leaves\<close>

interpretation rows: recent_buffer "\<lambda>r buf. deque_append transformer_len (r :: real list) buf" "\<lambda>buf. buf" transformer_len
  by unfold_locales (simp add: deque_append_def)

definition infer_run :: "gateway_env \<Rightarrow> ((real \<times> real) \<times> string \<times> real list) list \<Rightarrow> gateway \<Rightarrow> gateway" where
  "infer_run env rs s = fold (\<lambda>(clock, sid, features). snd \<circ> infer env clock sid features) rs s"

text \<open>The readings of a service in a run, and the window they end with.\<close>

definition readings_of :: "string \<Rightarrow> ((real \<times> real) \<times> string \<times> real list) list \<Rightarrow> real list list" where
  "readings_of sid rs = map (\<lambda>(_, _, f). take transformer_features f) (filter (\<lambda>(_, i, _). i = sid) rs)"

definition window_of :: "gateway_env \<Rightarrow> real list list \<Rightarrow> real list list" where
  "window_of env rows = normalise env (take_last transformer_len rows)"

definition window_errors :: "(real list list \<Rightarrow> real) \<Rightarrow> gateway_env \<Rightarrow> real list list \<Rightarrow> real list" where
  "window_errors err env rows =
     map (\<lambda>n. err (window_of env (take n rows))) [transformer_len..<Suc (length rows)]"

lemma window_errors_snoc:
  "window_errors err env (rows @ [r]) =
     window_errors err env rows @ (if transformer_len \<le> Suc (length rows) then [err (window_of env (rows @ [r]))] else [])"
  by (auto simp: window_errors_def upt_Suc intro!: map_cong)

lemma infer_other:
  "sid \<noteq> other \<Longrightarrow> gw_buffers (snd (infer env c other f s)) sid = gw_buffers s sid \<and>
     gw_debouncers (snd (infer env c other f s)) sid = gw_debouncers s sid"
  by (simp add: infer_def Let_def judge_transformer_def add_reading_def split: option.splits sum.splits prod.splits)

lemma infer_buffer:
  assumes "transformer_features \<le> length f"
  shows "get_buffer sid (snd (infer env c sid f s)) =
     deque_append transformer_len (take transformer_features f) (get_buffer sid s)"
  using assms
  by (simp add: infer_def Let_def judge_transformer_def add_reading_def get_buffer_def
      split: option.splits sum.splits prod.splits)

lemma get_debouncer_other:
  "sid \<noteq> other \<Longrightarrow> get_debouncer env sid (snd (infer env c other f s)) = get_debouncer env sid s"
  by (simp add: get_debouncer_def infer_other)

lemma get_buffer_other:
  "sid \<noteq> other \<Longrightarrow> get_buffer sid (snd (infer env c other f s)) = get_buffer sid s"
  by (simp add: get_buffer_def infer_other)

lemma get_buffer_add [simp]:
  "get_buffer sid (add_reading sid f s) =
     (if transformer_features \<le> length f
      then deque_append transformer_len (take transformer_features f) (get_buffer sid s) else get_buffer sid s)"
  by (simp add: add_reading_def get_buffer_def)

lemma get_debouncer_add [simp]: "get_debouncer env sid (add_reading other f s) = get_debouncer env sid s"
  by (simp add: add_reading_def get_debouncer_def)

text \<open>The transformer answers \<open>err w\<close> on every window, and the threshold is not zero.\<close>

definition transformer_works :: "gateway_env \<Rightarrow> (real list list \<Rightarrow> real) \<Rightarrow> bool" where
  "transformer_works env err \<longleftrightarrow>
     (\<exists>net. ge_transformer env = Some net \<and> (\<forall>w. net w = Inr (err w))) \<and> ge_threshold env \<noteq> 0"

lemma judge_working:
  assumes "transformer_works env err"
  shows "judge_transformer env sid buf s =
    (if length buf = transformer_len
     then (let e = err (normalise env buf); (confirmed, d) = db_check e (get_debouncer env sid s)
           in (\<lparr>ju_score = min 1 (e / ge_threshold env), ju_model = Transformer, ju_error = e,
                ju_anomaly = confirmed\<rparr>, s\<lparr>gw_debouncers := (gw_debouncers s)(sid \<mapsto> d)\<rparr>))
     else (no_judgement, s))"
proof -
  obtain net where net: "ge_transformer env = Some net" "\<forall>w. net w = Inr (err w)" and "ge_threshold env \<noteq> 0"
    using assms unfolding transformer_works_def by (elim conjE exE)
  moreover from net(2) have "net (normalise env buf) = Inr (err (normalise env buf))" ..
  ultimately show ?thesis by (simp add: judge_transformer_def Let_def)
qed

lemma get_debouncer_upd [simp]:
  "get_debouncer env sid (s\<lparr>gw_debouncers := (gw_debouncers s)(sid \<mapsto> d)\<rparr>) = d"
  by (simp add: get_debouncer_def)

lemma infer_debouncer:
  assumes "transformer_works env err" and "transformer_features \<le> length f"
    and "buf = deque_append transformer_len (take transformer_features f) (get_buffer sid s)"
  shows "get_debouncer env sid (snd (infer env c sid f s)) =
    (if length buf = transformer_len then snd (db_check (err (normalise env buf)) (get_debouncer env sid s))
     else get_debouncer env sid s)"
  using assms(2)
  by (simp add: infer_def judge_working [OF assms(1)] Let_def assms(3) case_prod_unfold)

lemma get_buffer_upd [simp]: "get_buffer sid (s\<lparr>gw_debouncers := d\<rparr>) = get_buffer sid s"
  by (simp add: get_buffer_def)

text \<open>The state of a service after a run in which all its requests carry a full reading.\<close>

definition full_readings :: "string \<Rightarrow> ((real \<times> real) \<times> string \<times> real list) list \<Rightarrow> bool" where
  "full_readings sid rs = list_all (\<lambda>(_, i, f). i = sid \<longrightarrow> transformer_features \<le> length f) rs"

definition judged :: "gateway_env \<Rightarrow> real list \<Rightarrow> debouncer" where
  "judged env es = fold (\<lambda>e d. snd (db_check e d)) es (new_debouncer (ge_threshold env) debounce_windows)"

lemma infer_run_state:
  assumes works: "transformer_works env err" and full: "full_readings sid rs"
  shows "get_buffer sid (infer_run env rs new_gateway) = take_last transformer_len (readings_of sid rs) \<and>
         get_debouncer env sid (infer_run env rs new_gateway) = judged env (window_errors err env (readings_of sid rs))"
  using full
proof (induction rs rule: rev_induct)
  case Nil
  show ?case
    by (simp add: infer_run_def readings_of_def take_last_def get_buffer_def get_debouncer_def new_gateway_def
        judged_def window_errors_def transformer_len_def)
next
  case (snoc x rs)
  obtain c i f where x: "x = (c, i, f)" by (cases x) auto
  let ?s = "infer_run env rs new_gateway" and ?rows = "readings_of sid rs"
  have step: "infer_run env (rs @ [x]) new_gateway = snd (infer env c i f ?s)"
    by (simp add: infer_run_def x)
  from snoc.prems have "full_readings sid rs" and len: "i = sid \<Longrightarrow> transformer_features \<le> length f"
    by (auto simp: full_readings_def x)
  with snoc.IH have IH: "get_buffer sid ?s = take_last transformer_len ?rows"
    "get_debouncer env sid ?s = judged env (window_errors err env ?rows)" by auto
  show ?case
  proof (cases "i = sid")
    case False
    then have "readings_of sid (rs @ [x]) = ?rows" by (simp add: readings_of_def x)
    with False IH show ?thesis by (simp add: step get_buffer_other get_debouncer_other)
  next
    case True
    let ?r = "take transformer_features f"
    from True have rows: "readings_of sid (rs @ [x]) = ?rows @ [?r]" by (simp add: readings_of_def x)
    have buf: "deque_append transformer_len ?r (get_buffer sid ?s) = take_last transformer_len (?rows @ [?r])"
      by (simp add: IH deque_append_def take_last_append_take_last)
    show ?thesis
      using len [OF True] True
      by (simp add: step rows infer_buffer infer_debouncer [OF works _ refl] buf IH(2) window_errors_snoc
          window_of_def judged_def min_def)
  qed
qed

lemma infer_transformer:
  assumes "transformer_works env err" and "buf = get_buffer sid (add_reading sid f s)"
    and "length buf = transformer_len"
  shows "inf_model (fst (infer env c sid f s)) = Transformer \<and>
         inf_anomaly (fst (infer env c sid f s)) =
           fst (db_check (err (normalise env buf)) (get_debouncer env sid s))"
  using assms(3)
  by (simp add: infer_def judge_working [OF assms(1)] assms(2) judge_forest_def Let_def case_prod_unfold
      split: option.split del: get_buffer_add)

subsection \<open>Verdicts\<close>

lemma transformer_decides:
  assumes works: "transformer_works env err"
    and full: "full_readings sid rs" "transformer_features \<le> length f"
    and rows: "rows = readings_of sid rs" "row = take transformer_features f" "transformer_len \<le> Suc (length rows)"
  shows "(let j = fst (infer env clock sid f (infer_run env rs new_gateway))
          in inf_model j = Transformer \<and>
             (inf_anomaly j \<longleftrightarrow>
                transformer_len \<le> length rows \<and> ge_threshold env < err (window_of env rows) \<and>
                ge_threshold env < err (window_of env (rows @ [row]))))"
proof -
  let ?s = "infer_run env rs new_gateway" and ?e = "err (window_of env (rows @ [row]))"
  have buf: "deque_append transformer_len row (get_buffer sid ?s) = take_last transformer_len (rows @ [row])"
    and deb: "get_debouncer env sid ?s = judged env (window_errors err env rows)"
    using infer_run_state [OF works full(1)] by (simp_all add: rows deque_append_def take_last_append_take_last)
  have verdict: "fst (db_check ?e (judged env (window_errors err env rows))) \<longleftrightarrow>
      transformer_len \<le> length rows \<and> ge_threshold env < err (window_of env rows) \<and> ge_threshold env < ?e"
  proof (cases rows rule: rev_cases)
    case Nil
    then show ?thesis
      using debounced_verdict [of debounce_windows ?e "window_errors err env rows" "ge_threshold env"]
      by (simp add: judged_def window_errors_def debounce_windows_def transformer_len_def)
  next
    case (snoc ys y)
    then show ?thesis
      using debounced_verdict [of debounce_windows ?e "window_errors err env rows" "ge_threshold env"]
      by (auto simp: judged_def debounce_windows_def window_errors_snoc take_last_def numeral_2_eq_2
          window_errors_def)
  qed
  have "get_buffer sid (add_reading sid f ?s) = take_last transformer_len (rows @ [row])"
    using full(2) rows(2) buf by simp
  moreover have "length (take_last transformer_len (rows @ [row])) = transformer_len" using rows(3) by simp
  ultimately have "inf_model (fst (infer env clock sid f ?s)) = Transformer \<and>
      inf_anomaly (fst (infer env clock sid f ?s)) = fst (db_check ?e (judged env (window_errors err env rows)))"
    using infer_transformer [OF works, of _ sid f ?s clock] by (simp only: deb window_of_def)
  with verdict show ?thesis by (simp only: Let_def)
qed


text \<open>While the window is not full the transformer is not asked.\<close>

lemma infer_warming:
  assumes "length (get_buffer sid (add_reading sid f s)) \<noteq> transformer_len"
  shows "inf_model (fst (infer env c sid f s)) \<noteq> Transformer"
  using assms(1)
  by (auto simp: infer_def Let_def judge_transformer_def judge_forest_def no_judgement_def split: option.splits sum.splits
      simp del: get_buffer_add)

definition ex_gateway :: gateway_env where
  "ex_gateway = gateway_of_files (Some (\<lambda>w. Inr 5)) (Some 2) (Some (replicate 4 0, replicate 4 1)) None
     \<lparr>np_std = (\<lambda>xs. 0), np_percentile = (\<lambda>xs q. 0)\<rparr>"

lemma ex_gateway_works: "transformer_works ex_gateway (\<lambda>w. 5)"
  by (simp add: transformer_works_def ex_gateway_def gateway_of_files_def)

lemma readings_replicate:
  "readings_of sid (replicate n (c, sid, f)) = replicate n (take transformer_features f)"
  by (simp add: readings_of_def)


text \<open>
  A request without a reading counts as another window: when the window is full and its error is
  above the threshold, two requests with a feature vector that is too short, which add no reading,
  judge that same window twice more and the second is confirmed as an anomaly, so the debouncer's
  "once per window" is not kept.
\<close>

theorem short_vector_confirms_anomaly:
  assumes works: "transformer_works env err" and short: "length f < transformer_features"
    and full: "length (get_buffer sid s) = transformer_len"
    and high: "ge_threshold env < err (normalise env (get_buffer sid s))"
    and deb: "get_debouncer env sid s = judged env es"
  shows "inf_anomaly (fst (infer env c2 sid f (snd (infer env c1 sid f s)))) \<and>
         get_buffer sid (snd (infer env c1 sid f s)) = get_buffer sid s"
proof -
  let ?s = "snd (infer env c1 sid f s)" and ?e = "err (normalise env (get_buffer sid s))"
  have add: "get_buffer sid (add_reading sid f t) = get_buffer sid t" for t using short by simp
  have same: "get_buffer sid ?s = get_buffer sid s"
    by (simp add: infer_def judge_working [OF works] Let_def case_prod_unfold add full del: get_buffer_add)
  have "get_debouncer env sid ?s = snd (db_check ?e (get_debouncer env sid s))"
    by (simp add: infer_def judge_working [OF works] Let_def case_prod_unfold add full del: get_buffer_add)
  then have "get_debouncer env sid ?s = judged env (es @ [?e])"
    by (simp add: deb judged_def)
  moreover have "fst (db_check ?e (judged env (es @ [?e])))"
    using debounced_verdict [of debounce_windows ?e "es @ [?e]" "ge_threshold env"] high
    by (simp add: judged_def debounce_windows_def take_last_def)
  ultimately have "inf_anomaly (fst (infer env c2 sid f ?s))"
    using infer_transformer [OF works, of "get_buffer sid s" sid f ?s c2] by (simp add: add same full del: get_buffer_add)
  with same show ?thesis by (rule conjI [rotated])
qed

theorem short_vector_confirms_anomaly_witness:
  "inf_anomaly (fst (infer ex_gateway (3, 4) ''a'' [] (snd (infer ex_gateway (2, 3) ''a'' []
     (infer_run ex_gateway (replicate 60 ((0, 1), ''a'', [1, 2, 0, 3])) new_gateway)))))"
proof -
  let ?rs = "replicate 60 ((0 :: real, 1 :: real), ''a'', [1, 2, 0, 3 :: real])"
  have full: "full_readings ''a'' ?rs" by (simp add: full_readings_def list_all_iff transformer_features_def)
  have short: "length ([] :: real list) < transformer_features" by (simp add: transformer_features_def)
  have buf: "length (get_buffer ''a'' (infer_run ex_gateway ?rs new_gateway)) = transformer_len"
    and deb: "get_debouncer ex_gateway ''a'' (infer_run ex_gateway ?rs new_gateway) =
      judged ex_gateway (window_errors (\<lambda>w. 5) ex_gateway (readings_of ''a'' ?rs))"
    using infer_run_state [OF ex_gateway_works full] by (simp_all add: readings_replicate transformer_len_def)
  have "ge_threshold ex_gateway < 5" by (simp add: ex_gateway_def gateway_of_files_def)
  from short_vector_confirms_anomaly [OF ex_gateway_works short buf this deb, of "(3, 4)" "(2, 3)"]
  show ?thesis by blast
qed

text \<open>
  The gateway never names an error-rate spike for a service with real traffic: the type is the
  largest raw feature, so with an error rate of at most 1 and any other feature above 1 the answer is
  never ERROR_RATE_SPIKE, whatever the reading's history.
\<close>

theorem error_spike_never_named:
  assumes "f ! 2 \<in> {0..1}" and "i \<in> {0, 1, 3}" and "1 < f ! i"
  shows "inf_type (fst (infer env c sid f s)) \<noteq> ''ERROR_RATE_SPIKE''"
proof -
  let ?m = "max_key_from (\<lambda>i. \<bar>f ! i\<bar>) 0 [1, 2, 3]"
  have "\<bar>f ! i\<bar> \<le> \<bar>f ! ?m\<bar>"
    by (rule max_key_from_ge) (use assms(2) in auto)
  with assms(1,3) have "?m \<noteq> 2" by (auto simp del: max_key_from.simps)
  moreover have "?m \<in> {0, 1, 2, 3}" using max_key_from_in [of "\<lambda>i. \<bar>f ! i\<bar>" 0 "[1, 2, 3]"] by simp
  ultimately have "?m \<in> {0, 1, 3}" by blast
  then have "anomaly_type_of a f \<noteq> ''ERROR_RATE_SPIKE''" for a
    by (auto simp: anomaly_type_of_def anomaly_names_def simp del: max_key_from.simps)
  then show ?thesis by (simp add: infer_def Let_def case_prod_unfold)
qed

theorem error_spike_never_named_witness:
  "inf_type (fst (infer ex_gateway (1, 2) ''a'' [40, 120, 1, 200] new_gateway)) \<noteq> ''ERROR_RATE_SPIKE''"
  using error_spike_never_named [of "[40, 120, 1, 200]" 0] by simp

end
