(* ===== verification/ML_Dataset.thy ===== *)
theory ML_Dataset
  imports ML_Models
begin

section \<open>The training data of the ML service\<close>

text \<open>
  \<open>ml_service/training/dataset.py\<close> and the windows of \<open>train_iforest.py\<close>: synthetic series with a
  shared load, bursts of injected anomalies with a mask, the chronological split and the labelled
  sliding windows. The random draws, SciPy's \<open>lfilter\<close> and NumPy's standard deviation are
  parameters; series are lists, one entry per time step.
\<close>

subsection \<open>Series\<close>

datatype anomaly_kind = CpuSpike | LatencyBurst | ErrorSpike | RequestDrop

text \<open>
  \<open>sd_noise k\<close> is the \<open>k\<close>-th array of standard normal draws, \<open>sd_draw k\<close> what the \<open>k\<close>-th round of
  the injection loop draws: a uniform number, a kind, and the position within the kind's range.
\<close>

record series_draws =
  sd_noise :: "nat \<Rightarrow> real list"
  sd_draw :: "nat \<Rightarrow> real \<times> anomaly_kind \<times> real"
  sd_lfilter :: "real list \<Rightarrow> real list \<Rightarrow> real list \<Rightarrow> real list"
  sd_std :: "real list \<Rightarrow> real"

definition ar1_process :: "series_draws \<Rightarrow> nat \<Rightarrow> real \<Rightarrow> real \<Rightarrow> real list" where
  "ar1_process dr k rho scale = sd_lfilter dr [1] [1, - rho] (map (\<lambda>x. scale * x) (sd_noise dr k))"

record series_params =
  sp_duty :: real
  sp_burst :: nat
  sp_autocorr :: real
  sp_period :: real
  sp_amplitude :: real

definition default_series :: series_params where
  "default_series = \<lparr>sp_duty = 5 / 100, sp_burst = 15, sp_autocorr = 9 / 10, sp_period = 500, sp_amplitude = 3 / 10\<rparr>"

record metric_series =
  se_cpu :: "real list"
  se_latency :: "real list"
  se_error :: "real list"
  se_requests :: "real list"

definition shared_load :: "series_params \<Rightarrow> series_draws \<Rightarrow> nat \<Rightarrow> real list" where
  "shared_load ps dr n =
     (let noise = ar1_process dr 0 (sp_autocorr ps) 1;
          scaled = map (\<lambda>x. x / (sd_std dr noise + 1 / 10 ^ 9)) noise
      in map (\<lambda>(t, x). sp_amplitude ps * sin (2 * pi * real t / sp_period ps) + x / 2) (zip [0..<n] scaled))"

definition base_series :: "series_params \<Rightarrow> series_draws \<Rightarrow> nat \<Rightarrow> metric_series" where
  "base_series ps dr n =
     (let load = shared_load ps dr n;
          metric = (\<lambda>k base gain scale.
            map (\<lambda>(l, x). base + gain * l + x) (zip load (ar1_process dr k (sp_autocorr ps) scale)))
      in \<lparr>se_cpu = metric 1 40 8 2, se_latency = metric 2 120 25 6,
          se_error = metric 3 (1 / 100) (4 / 1000) (8 / 10000), se_requests = metric 4 200 40 8\<rparr>)"

subsection \<open>Injected bursts\<close>

text \<open>\<open>xs[a:b]\<close> updated element by element.\<close>

definition update_slice :: "nat \<Rightarrow> nat \<Rightarrow> ('a \<Rightarrow> 'a) \<Rightarrow> 'a list \<Rightarrow> 'a list" where
  "update_slice a b f xs = map (\<lambda>(i, x). if a \<le> i \<and> i < b then f x else x) (zip [0..<length xs] xs)"

text \<open>\<open>np.random.uniform(lo, hi)\<close> at the position \<open>u\<close>.\<close>

definition uniform :: "real \<Rightarrow> real \<Rightarrow> real \<Rightarrow> real" where
  "uniform lo hi u = lo + (hi - lo) * u"

definition disturb :: "anomaly_kind \<Rightarrow> real \<Rightarrow> nat \<Rightarrow> nat \<Rightarrow> metric_series \<Rightarrow> metric_series" where
  "disturb kind u a b s =
     (case kind of
        CpuSpike \<Rightarrow> s\<lparr>se_cpu := update_slice a b (\<lambda>x. x + uniform 30 50 u) (se_cpu s)\<rparr>
      | LatencyBurst \<Rightarrow> s\<lparr>se_latency := update_slice a b (\<lambda>x. x + uniform 100 300 u) (se_latency s)\<rparr>
      | ErrorSpike \<Rightarrow> s\<lparr>se_error := update_slice a b (\<lambda>x. x + uniform (1 / 10) (3 / 10) u) (se_error s)\<rparr>
      | RequestDrop \<Rightarrow> s\<lparr>se_requests := update_slice a b (\<lambda>x. x * uniform (1 / 10) (3 / 10) u) (se_requests s)\<rparr>)"

text \<open>The injection loop for bursts of \<open>Suc b\<close> steps; \<open>k\<close> counts its rounds.\<close>

function inject_loop ::
  "series_draws \<Rightarrow> nat \<Rightarrow> real \<Rightarrow> nat \<Rightarrow> nat \<Rightarrow> nat \<Rightarrow> metric_series \<times> bool list \<Rightarrow> metric_series \<times> bool list"
where
  "inject_loop dr b p n k t (s, marks) =
     (if t + Suc b < n
      then let (r, kind, u) = sd_draw dr k
           in if r < p
              then inject_loop dr b p n (Suc k) (t + Suc b)
                     (disturb kind u t (t + Suc b) s, update_slice t (t + Suc b) (\<lambda>_. True) marks)
              else inject_loop dr b p n (Suc k) (Suc t) (s, marks)
      else (s, marks))"
  by pat_completeness auto

termination by (relation "measure (\<lambda>(dr, b, p, n, k, t, st). n - t)") auto

text \<open>A burst length of zero or a duty cycle of one divides by zero.\<close>

definition inject_bursts ::
  "series_params \<Rightarrow> series_draws \<Rightarrow> nat \<Rightarrow> metric_series \<times> bool list \<Rightarrow> exn + metric_series \<times> bool list" where
  "inject_bursts ps dr n st =
     (case sp_burst ps of
        0 \<Rightarrow> Inl (ExternalError ''ZeroDivisionError'')
      | Suc b \<Rightarrow>
          if sp_duty ps = 1 then Inl (ExternalError ''ZeroDivisionError'')
          else Inr (inject_loop dr b (sp_duty ps / (real (Suc b) * (1 - sp_duty ps))) n 0 0 st))"

definition clip :: "real \<Rightarrow> real \<Rightarrow> real \<Rightarrow> real" where
  "clip lo hi x = min hi (max lo x)"

type_synonym reading = "real \<times> real \<times> real \<times> real"

definition stack :: "metric_series \<Rightarrow> reading list" where
  "stack s =
     zip (map (clip 0 100) (se_cpu s))
       (zip (map (max 0) (se_latency s)) (zip (map (clip 0 1) (se_error s)) (map (max 0) (se_requests s))))"

definition generate_service_series ::
  "series_params \<Rightarrow> series_draws \<Rightarrow> nat \<Rightarrow> bool \<Rightarrow> exn + reading list \<times> bool list" where
  "generate_service_series ps dr n inject =
     rbind (if inject then inject_bursts ps dr n (base_series ps dr n, replicate n False)
            else Inr (base_series ps dr n, replicate n False))
       (\<lambda>(s, marks). Inr (stack s, marks))"

fun generate_all ::
  "series_params \<Rightarrow> series_draws list \<Rightarrow> nat \<Rightarrow> bool \<Rightarrow> exn + (reading list list \<times> bool list list)" where
  "generate_all ps [] n inject = Inr ([], [])"
| "generate_all ps (dr # drs) n inject =
     rbind (generate_service_series ps dr n inject) (\<lambda>(d, m).
     rbind (generate_all ps drs n inject) (\<lambda>(ds, ms). Inr (d # ds, m # ms)))"

subsection \<open>Split and windows\<close>

text \<open>\<open>xs[:k]\<close> and \<open>xs[k:]\<close>; a negative \<open>k\<close> counts from the end.\<close>

definition slice_at :: "int \<Rightarrow> 'a list \<Rightarrow> nat" where
  "slice_at k xs = nat (if k < 0 then max 0 (int (length xs) + k) else k)"

text \<open>\<open>int(x)\<close> rounds towards zero.\<close>

definition py_trunc :: "real \<Rightarrow> int" where
  "py_trunc x = (if x < 0 then \<lceil>x\<rceil> else \<lfloor>x\<rfloor>)"

definition chronological_split :: "real \<Rightarrow> 'a list list \<Rightarrow> 'a list list \<times> 'a list list" where
  "chronological_split val_fraction services =
     (let cut = (\<lambda>d. slice_at (py_trunc (real (length d) * (1 - val_fraction))) d)
      in (map (\<lambda>d. take (cut d) d) services, map (\<lambda>d. drop (cut d) d) services))"

definition sliding :: "nat \<Rightarrow> 'a list \<Rightarrow> 'a list list" where
  "sliding k xs = map (\<lambda>i. take k (drop i xs)) [0..<length xs - k]"

definition dataset_windows :: "nat \<Rightarrow> 'a list list \<Rightarrow> 'a list list" where
  "dataset_windows k services = concat (map (sliding k) services)"

definition dataset_labels :: "nat \<Rightarrow> 'a list list \<Rightarrow> bool list list \<Rightarrow> bool list" where
  "dataset_labels k services masks =
     concat (map (\<lambda>(d, m). map (\<lambda>i. list_ex id (take k (drop i m))) [0..<length d - k]) (zip services masks))"

text \<open>The windows the forest is trained on: \<open>range(0, len - w, w)\<close>.\<close>

definition forest_windows :: "nat \<Rightarrow> 'a list \<Rightarrow> 'a list list" where
  "forest_windows w xs = map (\<lambda>i. take w (drop (i * w) xs)) [0..<(length xs - w + (w - 1)) div w]"

definition forest_training_set :: "stats_ops \<Rightarrow> nat \<Rightarrow> reading list list \<Rightarrow> real list list" where
  "forest_training_set np w services =
     concat (map (\<lambda>d. map (\<lambda>win. extract_features np
        (map (\<lambda>(c, l, e, r). \<lparr>row_cpu = c, row_latency = l, row_error = e, row_requests = r\<rparr>) win))
        (forest_windows w d)) services)"

subsection \<open>Only masked steps are disturbed\<close>

lemma length_update_slice [simp]: "length (update_slice a b f xs) = length xs"
  by (simp add: update_slice_def)

lemma nth_update_slice:
  "i < length xs \<Longrightarrow> update_slice a b f xs ! i = (if a \<le> i \<and> i < b then f (xs ! i) else xs ! i)"
  by (simp add: update_slice_def)

text \<open>Two series that agree outside a mask, all of them \<open>n\<close> steps long.\<close>

definition agree_off :: "nat \<Rightarrow> bool list \<Rightarrow> metric_series \<Rightarrow> metric_series \<Rightarrow> bool" where
  "agree_off n marks s s0 \<longleftrightarrow>
     length marks = n \<and>
     (\<forall>f \<in> {se_cpu, se_latency, se_error, se_requests}.
        length (f s) = length (f s0) \<and>
        (\<forall>i < n. i < length (f s) \<longrightarrow> \<not> marks ! i \<longrightarrow> f s ! i = f s0 ! i))"

lemma agree_off_disturb:
  assumes "agree_off n marks s s0"
  shows "agree_off n (update_slice a b (\<lambda>_. True) marks) (disturb kind u a b s) s0"
  using assms by (cases kind) (auto simp: agree_off_def disturb_def nth_update_slice)

lemma inject_loop_agree:
  "agree_off n marks s s0 \<Longrightarrow>
     (case inject_loop dr b p n k t (s, marks) of (s1, m1) \<Rightarrow> agree_off n m1 s1 s0)"
proof (induction dr b p n k t "(s, marks)" arbitrary: s marks rule: inject_loop.induct)
  case (1 dr b p n k t s marks)
  obtain r kind u where d: "sd_draw dr k = (r, kind, u)" by (cases "sd_draw dr k") auto
  show ?case
  proof (cases "t + Suc b < n")
    case True
    note IH = "1.hyps" [OF True refl d [symmetric] refl]
    show ?thesis
    proof (cases "r < p")
      case r: True
      from IH(1) [OF r agree_off_disturb [OF "1.prems"]] True d r show ?thesis
        by (subst inject_loop.simps) simp
    next
      case r: False
      from IH(2) [OF r "1.prems"] True d r show ?thesis by (subst inject_loop.simps) simp
    qed
  next
    case False
    with "1.prems" show ?thesis by (subst inject_loop.simps) simp
  qed
qed

lemma nth_stack:
  "i < length (stack s) \<Longrightarrow> stack s ! i =
     (clip 0 100 (se_cpu s ! i), max 0 (se_latency s ! i), clip 0 1 (se_error s ! i), max 0 (se_requests s ! i))"
  by (simp add: stack_def)

lemma agree_off_stack:
  assumes "agree_off n marks s s0"
  shows "length (stack s) = length (stack s0)"
    and "i < n \<Longrightarrow> i < length (stack s) \<Longrightarrow> \<not> marks ! i \<Longrightarrow> stack s ! i = stack s0 ! i"
  using assms by (simp_all add: agree_off_def nth_stack) (simp_all add: stack_def)

lemma agree_off_refl: "agree_off n (replicate n False) s s"
  by (simp add: agree_off_def)

text \<open>The series with bursts and the one without, from the same draws.\<close>

lemma generated_agree:
  assumes "generate_service_series ps dr n True = Inr (d, m)"
    and "generate_service_series ps dr n False = Inr (d0, m0)"
  shows "length m = n \<and> length d = length d0 \<and> (\<forall>i < n. i < length d \<longrightarrow> \<not> m ! i \<longrightarrow> d ! i = d0 ! i)"
proof -
  obtain b p s where s: "inject_loop dr b p n 0 0 (base_series ps dr n, replicate n False) = (s, m)" and d: "d = stack s"
    using assms(1)
    by (auto simp: generate_service_series_def inject_bursts_def rbind_def
        simp del: inject_loop.simps split: nat.splits if_splits sum.splits prod.splits)
  from inject_loop_agree [OF agree_off_refl, of n "base_series ps dr n" dr b p 0 0] s
  have "agree_off n m s (base_series ps dr n)" by (simp del: inject_loop.simps)
  moreover from assms(2) have "d0 = stack (base_series ps dr n)" by (simp add: generate_service_series_def)
  ultimately show ?thesis
    using agree_off_stack [of n m s "base_series ps dr n"] by (simp add: d agree_off_def)
qed

lemma generated_ranges:
  assumes "generate_service_series ps dr n inject = Inr (d, m)" and "(c, l, e, r) \<in> set d"
  shows "c \<in> {0..100} \<and> 0 \<le> l \<and> e \<in> {0..1} \<and> 0 \<le> r"
proof -
  obtain s where d: "d = stack s"
    using assms(1)
    by (cases "if inject then inject_bursts ps dr n (base_series ps dr n, replicate n False)
          else Inr (base_series ps dr n, replicate n False)") (auto simp: generate_service_series_def)
  obtain i where "i < length (stack s)" "stack s ! i = (c, l, e, r)"
    using assms(2) by (auto simp: d in_set_conv_nth)
  then show ?thesis by (auto simp: nth_stack clip_def)
qed

text \<open>The windows and labels of one service.\<close>

lemma window_undisturbed:
  assumes "length m = length d" and "length d = length d0"
    and off: "\<forall>i < length d. \<not> m ! i \<longrightarrow> d ! i = d0 ! i"
    and win: "i < length d - k" "\<not> list_ex id (take k (drop i m))"
  shows "take k (drop i d) = take k (drop i d0)"
proof (rule nth_equalityI)
  show "length (take k (drop i d)) = length (take k (drop i d0))" using assms(2) by simp
  fix j assume j: "j < length (take k (drop i d))"
  have "\<not> m ! (i + j)"
  proof
    assume "m ! (i + j)"
    moreover have "take k (drop i m) ! j = m ! (i + j)" using j win(1) assms(1) by simp
    moreover have "j < length (take k (drop i m))" using j assms(1) by simp
    ultimately have "True \<in> set (take k (drop i m))" by (metis nth_mem)
    with win(2) show False by (auto simp: list_ex_iff)
  qed
  with j off win(1) assms(2) show "take k (drop i d) ! j = take k (drop i d0) ! j" by auto
qed

text \<open>NumPy draws arrays of the length asked for and \<open>lfilter\<close> keeps the length.\<close>

definition draws_law :: "series_draws \<Rightarrow> nat \<Rightarrow> bool" where
  "draws_law dr n \<longleftrightarrow>
     (\<forall>k. length (sd_noise dr k) = n) \<and> (\<forall>b a xs. length (sd_lfilter dr b a xs) = length xs)"

lemma base_series_length:
  assumes "draws_law dr n"
  shows "length (stack (base_series ps dr n)) = n"
proof -
  have "length (sd_lfilter dr b a xs) = length xs" and "length (sd_noise dr k) = n" for b a xs k
    using assms by (simp_all add: draws_law_def)
  then show ?thesis by (simp add: stack_def base_series_def shared_load_def ar1_process_def Let_def)
qed

definition same_off :: "bool list \<Rightarrow> 'a list \<Rightarrow> 'a list \<Rightarrow> bool" where
  "same_off ls ws ws0 \<longleftrightarrow>
     length ws = length ls \<and> length ws0 = length ls \<and> (\<forall>j < length ls. \<not> ls ! j \<longrightarrow> ws ! j = ws0 ! j)"

lemma same_off_append:
  "same_off ls ws ws0 \<Longrightarrow> same_off ls' ws' ws0' \<Longrightarrow> same_off (ls @ ls') (ws @ ws') (ws0 @ ws0')"
  by (auto simp: same_off_def nth_append)

lemma service_same_off:
  assumes law: "draws_law dr n" and inj: "generate_service_series ps dr n True = Inr (d, m)"
    and base: "generate_service_series ps dr n False = Inr (d0, m0)"
  shows "same_off (map (\<lambda>i. list_ex id (take k (drop i m))) [0..<length d - k]) (sliding k d) (sliding k d0)"
proof -
  from base base_series_length [OF law] have "length d0 = n" by (auto simp: generate_service_series_def)
  with generated_agree [OF inj base]
  have len: "length m = length d" "length d = length d0" and off: "\<forall>i < length d. \<not> m ! i \<longrightarrow> d ! i = d0 ! i"
    by auto
  then show ?thesis using window_undisturbed [OF len off] by (auto simp: same_off_def sliding_def)
qed

lemma dataset_same_off:
  assumes "\<forall>dr \<in> set drs. draws_law dr n"
    and "generate_all ps drs n True = Inr (ds, ms)" and "generate_all ps drs n False = Inr (ds0, ms0)"
  shows "same_off (dataset_labels k ds ms) (dataset_windows k ds) (dataset_windows k ds0)"
  using assms
proof (induction drs arbitrary: ds ms ds0 ms0)
  case Nil
  then show ?case by (simp add: same_off_def dataset_labels_def dataset_windows_def)
next
  case (Cons dr drs)
  obtain d m ds1 ms1 where inj: "generate_service_series ps dr n True = Inr (d, m)"
      "generate_all ps drs n True = Inr (ds1, ms1)" "ds = d # ds1" "ms = m # ms1"
    using Cons.prems(2) by (auto simp: rbind_def split: sum.splits prod.splits)
  obtain d0 m0 ds2 ms2 where base: "generate_service_series ps dr n False = Inr (d0, m0)"
      "generate_all ps drs n False = Inr (ds2, ms2)" "ds0 = d0 # ds2"
    using Cons.prems(3) by (auto simp: rbind_def split: sum.splits prod.splits)
  have "same_off (dataset_labels k ds1 ms1) (dataset_windows k ds1) (dataset_windows k ds2)"
    using Cons.IH inj(2) base(2) Cons.prems(1) by simp
  from same_off_append [OF service_same_off [OF _ inj(1) base(1)] this] Cons.prems(1) show ?case
    by (simp add: dataset_labels_def dataset_windows_def inj base)
qed

text \<open>
  Only labelled windows contain injected anomalies: in a data set with injected bursts
  every window whose label is \<open>False\<close> is exactly the window of the same draws without any injection, in
  whatever rounds the bursts start and of whatever kinds they are.
\<close>

theorem unlabelled_windows_normal:
  assumes "\<forall>dr \<in> set drs. draws_law dr n"
    and "generate_all ps drs n True = Inr (ds, ms)" and "generate_all ps drs n False = Inr (ds0, ms0)"
    and "j < length (dataset_labels k ds ms)" and "\<not> dataset_labels k ds ms ! j"
  shows "length (dataset_windows k ds) = length (dataset_labels k ds ms) \<and>
         dataset_windows k ds ! j = dataset_windows k ds0 ! j"
  using dataset_same_off [OF assms(1-3), of k] assms(4,5) by (simp add: same_off_def)

text \<open>
  The split loses nothing and leaks nothing: each service's training part followed by its
  validation part is its series, and the windows of the forest's training set are consecutive pieces
  of it that do not overlap.
\<close>

lemma split_partition: "map2 (@) (fst (chronological_split f services)) (snd (chronological_split f services)) = services"
  by (induction services) (simp_all add: chronological_split_def Let_def)

lemma forest_windows_concat:
  "0 < w \<Longrightarrow> concat (forest_windows w xs) = take (w * ((length xs - w + (w - 1)) div w)) xs"
proof -
  have step: "concat (map (\<lambda>i. take w (drop (i * w) xs)) [0..<n]) = take (w * n) xs" for n
  proof (induction n)
    case (Suc n)
    have "take (w * Suc n) xs = take (w * n) xs @ take w (drop (w * n) xs)"
      by (simp add: take_add [symmetric] add.commute)
    with Suc show ?case by (simp add: mult.commute)
  qed simp
  then show ?thesis by (simp add: forest_windows_def)
qed

lemma last_window_missing: "length xs \<le> k \<Longrightarrow> sliding k xs = []"
  by (simp add: sliding_def)

definition ex_draws :: series_draws where
  "ex_draws = \<lparr>sd_noise = (\<lambda>k. [0, 0, 0, 0]), sd_draw = (\<lambda>k. (0, CpuSpike, 0)),
               sd_lfilter = (\<lambda>b a xs. xs), sd_std = (\<lambda>xs. 1)\<rparr>"

definition ex_series :: series_params where
  "ex_series = \<lparr>sp_duty = 1 / 2, sp_burst = 2, sp_autocorr = 0, sp_period = 500, sp_amplitude = 0\<rparr>"

lemma ex_draws_law: "draws_law ex_draws 4"
  by (simp add: draws_law_def ex_draws_def)

text \<open>One burst over the first two of four steps: the window of the next step has the label \<open>False\<close>.\<close>

lemma ex_generated:
  "\<exists>ds ms ds0 ms0. generate_all ex_series [ex_draws] 4 True = Inr (ds, ms) \<and>
     generate_all ex_series [ex_draws] 4 False = Inr (ds0, ms0) \<and>
     dataset_labels 1 ds ms = [True, True, False]"
  by (simp add: generate_service_series_def inject_bursts_def ex_series_def ex_draws_def base_series_def
      shared_load_def ar1_process_def Let_def disturb_def update_slice_def stack_def upt_rec numeral_2_eq_2
      numeral_3_eq_3 numeral_eq_Suc dataset_labels_def)

theorem unlabelled_windows_normal_witness:
  "\<exists>ds ms ds0 ms0. generate_all ex_series [ex_draws] 4 True = Inr (ds, ms) \<and>
     generate_all ex_series [ex_draws] 4 False = Inr (ds0, ms0) \<and>
     dataset_windows 1 ds ! 2 = dataset_windows 1 ds0 ! 2"
proof -
  obtain ds ms ds0 ms0 where g: "generate_all ex_series [ex_draws] 4 True = Inr (ds, ms)"
    "generate_all ex_series [ex_draws] 4 False = Inr (ds0, ms0)" "dataset_labels 1 ds ms = [True, True, False]"
    using ex_generated by blast
  have law: "\<forall>dr \<in> set [ex_draws]. draws_law dr 4" by (simp add: ex_draws_law)
  from unlabelled_windows_normal [OF law g(1,2), of 2 1] g show ?thesis by (simp add: numeral_2_eq_2)
qed

end
