(* ===== verification/ML_Training.thy ===== *)
theory ML_Training
  imports ML_Dataset ML_Gateway
begin

section \<open>Training the transformer\<close>

text \<open>
  \<open>ml_service/training/train_transformer.py\<close>: normalisation, batches, epochs with the best model saved, the
  threshold, and the check on a labelled set. The network, its optimiser and the shuffling are
  parameters; what is modelled is which data reach them and which results are kept.
\<close>

subsection \<open>Normalisation\<close>

text \<open>A time step as the row of its four metrics.\<close>

fun reading_row :: "reading \<Rightarrow> real list" where
  "reading_row (c, l, e, r) = [c, l, e, r]"

text \<open>The mean and the widened standard deviation of each column.\<close>

definition norm_stats :: "stats_ops \<Rightarrow> reading list \<Rightarrow> real list \<times> real list" where
  "norm_stats np xs =
     (let cols = map (\<lambda>k. map (\<lambda>x. reading_row x ! k) xs) [0..<4]
      in (map mean cols, map (\<lambda>c. np_std np c + 1 / 10 ^ 9) cols))"

definition norm_row :: "real list \<times> real list \<Rightarrow> real list \<Rightarrow> real list" where
  "norm_row st r = map (\<lambda>(x, m, d). (x - m) / d) (zip r (zip (fst st) (snd st)))"

definition normalize_services :: "real list \<times> real list \<Rightarrow> reading list list \<Rightarrow> real list list list" where
  "normalize_services st services = map (map (\<lambda>x. norm_row st (reading_row x))) services"

subsection \<open>Epochs\<close>

type_synonym net_window = "real list list"

text \<open>
  Over windows of any shape: \<open>ta_step\<close> trains on one batch, \<open>ta_loss\<close> is the reconstruction loss of a batch without training,
  \<open>ta_shuffle e\<close> the order of the training windows in epoch \<open>e\<close>.
\<close>

record ('m, 'x) train_api =
  ta_step :: "'x list \<Rightarrow> 'm \<Rightarrow> 'm"
  ta_loss :: "'m \<Rightarrow> 'x list \<Rightarrow> real"
  ta_shuffle :: "nat \<Rightarrow> 'x list \<Rightarrow> 'x list"

text \<open>The batches of a loader; the last one may be smaller.\<close>

function batches :: "nat \<Rightarrow> 'a list \<Rightarrow> 'a list list" where
  "batches k xs = (if xs = [] \<or> k = 0 then [] else take k xs # batches k (drop k xs))"
  by pat_completeness auto

termination by (relation "measure (\<lambda>(k, xs). length xs)") auto

declare batches.simps [simp del]

text \<open>\<open>tn_best\<close> is \<open>None\<close> for the initial infinity, \<open>tn_saved\<close> the content of the model file.\<close>

record 'm training =
  tn_model :: 'm
  tn_best :: "real option"
  tn_saved :: "'m option"
  tn_val_errors :: "real list"

definition val_errors :: "('m, 'x) train_api \<Rightarrow> nat \<Rightarrow> 'x list \<Rightarrow> 'm \<Rightarrow> real list" where
  "val_errors api k val m = map (ta_loss api m) (batches k val)"

text \<open>Without validation batches the mean is NaN, which is less than nothing.\<close>

definition train_epoch ::
  "('m, 'x) train_api \<Rightarrow> nat \<Rightarrow> 'x list \<Rightarrow> 'x list \<Rightarrow> nat \<Rightarrow> 'm training \<Rightarrow> 'm training" where
  "train_epoch api k train val e s =
     (let m = fold (ta_step api) (batches k (ta_shuffle api e train)) (tn_model s);
          errs = val_errors api k val m;
          t = s\<lparr>tn_model := m, tn_val_errors := errs\<rparr>
      in if errs \<noteq> [] \<and> (case tn_best s of None \<Rightarrow> True | Some b \<Rightarrow> mean errs < b)
         then t\<lparr>tn_best := Some (mean errs), tn_saved := Some m\<rparr> else t)"

definition train_epochs ::
  "('m, 'x) train_api \<Rightarrow> nat \<Rightarrow> 'x list \<Rightarrow> 'x list \<Rightarrow> 'm \<Rightarrow> nat \<Rightarrow> 'm training" where
  "train_epochs api k train val m n =
     fold (train_epoch api k train val) [0..<n]
       \<lparr>tn_model = m, tn_best = None, tn_saved = None, tn_val_errors = []\<rparr>"

subsection \<open>What training leaves behind\<close>

text \<open>\<open>td_threshold\<close> is \<open>None\<close> when the numbers in the file are NaN; \<open>td_final\<close> is the model in memory.\<close>

record 'm trained =
  td_norm :: "real list \<times> real list"
  td_saved :: "'m option"
  td_threshold :: "threshold_stats option"
  td_final :: 'm

text \<open>
  No service gives \<open>np.concatenate\<close> nothing, a shuffling loader refuses an empty data set, and without an
  epoch the errors are an unbound name.
\<close>

definition training_windows :: "real list \<times> real list \<Rightarrow> reading list list \<Rightarrow> net_window list" where
  "training_windows st ds = dataset_windows lstm_sequence_len (normalize_services st ds)"

definition val_fraction :: real where
  "val_fraction = 2 / 10"

definition train_transformer ::
  "('m, net_window) train_api \<Rightarrow> stats_ops \<Rightarrow> nat \<Rightarrow> nat \<Rightarrow> 'm \<Rightarrow> reading list list \<Rightarrow> exn + 'm trained" where
  "train_transformer api np batch_size epochs m services =
     (let (tr, va) = chronological_split val_fraction services;
          st = norm_stats np (concat tr)
      in if tr = [] \<or> training_windows st tr = [] then Inl ValueError
         else if epochs = 0 then Inl (ExternalError ''UnboundLocalError'')
         else let s = train_epochs api batch_size (training_windows st tr) (training_windows st va) m epochs
              in Inr \<lparr>td_norm = st, td_saved = tn_saved s,
                      td_threshold = (if tn_val_errors s = [] then None
                                      else Some (compute_threshold (np_std np) (tn_val_errors s))),
                      td_final = tn_model s\<rparr>)"

text \<open>The check on the labelled set: the error of every window with its label, and the two counts printed.\<close>

definition eval_errors ::
  "('m, net_window) train_api \<Rightarrow> 'm \<Rightarrow> real list \<times> real list \<Rightarrow> reading list list \<Rightarrow> bool list list \<Rightarrow> (real \<times> bool) list" where
  "eval_errors api m st services masks =
     zip (map (\<lambda>w. ta_loss api m [w]) (training_windows st services))
         (dataset_labels lstm_sequence_len (normalize_services st services) masks)"

definition caught :: "real \<Rightarrow> (real \<times> bool) list \<Rightarrow> nat" where
  "caught threshold errs = length (filter (\<lambda>(e, anomalous). anomalous \<and> threshold < e) errs)"

definition false_alarms :: "real \<Rightarrow> (real \<times> bool) list \<Rightarrow> nat" where
  "false_alarms threshold errs = length (filter (\<lambda>(e, anomalous). \<not> anomalous \<and> threshold < e) errs)"

subsection \<open>The best model is the one saved\<close>

text \<open>The model after \<open>n\<close> epochs, whatever is saved.\<close>

fun model_after :: "('m, 'x) train_api \<Rightarrow> nat \<Rightarrow> 'x list \<Rightarrow> 'm \<Rightarrow> nat \<Rightarrow> 'm" where
  "model_after api k train m 0 = m"
| "model_after api k train m (Suc e) =
     fold (ta_step api) (batches k (ta_shuffle api e train)) (model_after api k train m e)"

definition loss_after ::
  "('m, 'x) train_api \<Rightarrow> nat \<Rightarrow> 'x list \<Rightarrow> 'x list \<Rightarrow> 'm \<Rightarrow> nat \<Rightarrow> real" where
  "loss_after api k train val m n = mean (val_errors api k val (model_after api k train m n))"

text \<open>The first of the epochs \<open>1..n\<close> with the least loss.\<close>

definition best_epoch :: "(nat \<Rightarrow> real) \<Rightarrow> nat \<Rightarrow> nat \<Rightarrow> bool" where
  "best_epoch loss n j \<longleftrightarrow> j \<in> {1..n} \<and> (\<forall>i \<in> {1..n}. loss j \<le> loss i) \<and> (\<forall>i \<in> {1..<j}. loss j < loss i)"

lemma best_epoch_Suc:
  assumes "best_epoch loss n j"
  shows "best_epoch loss (Suc n) (if loss (Suc n) < loss j then Suc n else j)"
proof (cases "loss (Suc n) < loss j")
  case True
  with assms show ?thesis unfolding best_epoch_def
    by (simp add: atLeastAtMostSuc_conv less_Suc_eq_le) (metis atLeastAtMost_iff atLeastLessThan_iff less_Suc_eq_le order_less_le_trans less_imp_le)
next
  case False
  with assms show ?thesis unfolding best_epoch_def by (simp add: atLeastAtMostSuc_conv)
qed

lemma train_epochs_Suc:
  "train_epochs api k train val m (Suc n) = train_epoch api k train val n (train_epochs api k train val m n)"
  by (simp add: train_epochs_def)

lemma train_epochs_model: "tn_model (train_epochs api k train val m n) = model_after api k train m n"
proof (induction n)
  case 0
  show ?case by (simp add: train_epochs_def)
next
  case (Suc n)
  then show ?case by (simp add: train_epochs_Suc train_epoch_def Let_def)
qed

lemma train_epochs_step:
  "train_epochs api k train val m (Suc n) =
     (let s = train_epochs api k train val m n; x = model_after api k train m (Suc n);
          errs = val_errors api k val x; t = s\<lparr>tn_model := x, tn_val_errors := errs\<rparr>
      in if errs \<noteq> [] \<and>
            (case tn_best s of None \<Rightarrow> True | Some b \<Rightarrow> loss_after api k train val m (Suc n) < b)
         then t\<lparr>tn_best := Some (loss_after api k train val m (Suc n)), tn_saved := Some x\<rparr> else t)"
proof -
  have loss: "loss_after api k train val m (Suc n) = mean (val_errors api k val
      (fold (ta_step api) (batches k (ta_shuffle api n train)) (model_after api k train m n)))"
    by (simp add: loss_after_def)
  show ?thesis
    unfolding loss train_epochs_Suc train_epoch_def Let_def train_epochs_model model_after.simps by (rule refl)
qed

lemma train_epochs_errors:
  "tn_val_errors (train_epochs api k train val m (Suc n)) = val_errors api k val (model_after api k train m (Suc n))"
  by (simp add: train_epochs_step Let_def)

lemma train_epochs_best:
  assumes "batches k val \<noteq> []"
  shows "\<exists>j. best_epoch (loss_after api k train val m) (Suc n) j \<and>
     tn_best (train_epochs api k train val m (Suc n)) = Some (loss_after api k train val m j) \<and>
     tn_saved (train_epochs api k train val m (Suc n)) = Some (model_after api k train m j)"
proof (induction n)
  case 0
  have "tn_best (train_epochs api k train val m 0) = None" by (simp add: train_epochs_def)
  with assms show ?case
    by (intro exI [of _ "Suc 0"]) (simp add: train_epochs_step Let_def val_errors_def best_epoch_def)
next
  case (Suc n)
  let ?loss = "loss_after api k train val m" and ?s = "train_epochs api k train val m"
  from Suc obtain j where j: "best_epoch ?loss (Suc n) j" "tn_best (?s (Suc n)) = Some (?loss j)"
    "tn_saved (?s (Suc n)) = Some (model_after api k train m j)" by blast
  have "val_errors api k val (model_after api k train m (Suc (Suc n))) \<noteq> []" using assms by (simp add: val_errors_def)
  with j best_epoch_Suc [OF j(1)] show ?case
    unfolding train_epochs_step [of _ _ _ _ _ "Suc n"] Let_def
    by (cases "?loss (Suc (Suc n)) < ?loss j") (simp_all del: model_after.simps, blast+)
qed
text \<open>
  C34. What training leaves behind: the model file holds the network of the first epoch with the least
  validation loss, the threshold is three standard deviations above the mean of the errors of the
  network of the last epoch, and the normalisation is that of the training parts alone.
\<close>

theorem training_outcome:
  assumes "train_transformer api np k n m services = Inr t" and "0 < k"
    and "(tr, va) = chronological_split val_fraction services" and "training_windows (td_norm t) va \<noteq> []"
    and "model = model_after api k (training_windows (td_norm t) tr) m"
    and "errors = (\<lambda>e. val_errors api k (training_windows (td_norm t) va) (model e))"
  shows "td_norm t = norm_stats np (concat tr) \<and> td_final t = model n \<and>
         td_threshold t = Some (compute_threshold (np_std np) (errors n)) \<and>
         (\<exists>j. best_epoch (\<lambda>e. mean (errors e)) n j \<and> td_saved t = Some (model j))"
proof -
  let ?st = "norm_stats np (concat tr)"
  let ?s = "train_epochs api k (training_windows ?st tr) (training_windows ?st va) m n"
  from assms(1) have n: "n \<noteq> 0" and t: "t = \<lparr>td_norm = ?st, td_saved = tn_saved ?s,
      td_threshold = (if tn_val_errors ?s = [] then None
                      else Some (compute_threshold (np_std np) (tn_val_errors ?s))), td_final = tn_model ?s\<rparr>"
    unfolding train_transformer_def assms(3) [symmetric] Let_def prod.case by (simp_all split: if_splits)
  have st: "td_norm t = ?st" by (simp add: t)
  obtain n' where n': "n = Suc n'" using n by (cases n) simp_all
  have val: "batches k (training_windows ?st va) \<noteq> []" using assms(2,4) by (subst batches.simps) (simp add: st)
  then have "errors n \<noteq> []" by (simp add: assms(6) val_errors_def st)
  moreover have "tn_val_errors ?s = errors n" unfolding n' train_epochs_errors by (simp add: assms(5,6) st n')
  moreover have "loss_after api k (training_windows ?st tr) (training_windows ?st va) m = (\<lambda>e. mean (errors e))"
    by (simp add: loss_after_def assms(5,6) st fun_eq_iff)
  ultimately show ?thesis
    using train_epochs_best [OF val, of api "training_windows ?st tr" m n'] train_epochs_model [of api k _ _ m n]
    by (auto simp: t assms(5) n' simp del: model_after.simps)
qed

lemma sliding_map: "sliding k (map f xs) = map (map f) (sliding k xs)"
  by (simp add: sliding_def drop_map take_map)

text \<open>
  The network sees in service what it saw in training: with the files that training wrote, the gateway
  normalises the windows of a series to exactly the windows the network is trained or judged on.
\<close>

theorem training_serving_agree:
  "training_windows st services =
     map (normalise (gateway_of_files net threshold (Some st) forest np))
       (dataset_windows lstm_sequence_len (map (map reading_row) services)) \<and>
   lstm_sequence_len = transformer_len"
proof -
  have "normalise (gateway_of_files net threshold (Some st) forest np) = map (norm_row st)"
    by (auto simp: gateway_of_files_def normalise_def norm_row_def split: prod.split)
  moreover have "sliding k (map (\<lambda>x. norm_row st (reading_row x)) d) = map (map (norm_row st)) (sliding k (map reading_row d))"
    for k d by (simp add: sliding_map comp_def)
  ultimately show ?thesis
    by (simp add: training_windows_def dataset_windows_def normalize_services_def map_concat comp_def
        lstm_sequence_len_def transformer_len_def)
qed

text \<open>
  A run in which the threshold belongs to another network than the one saved: the loss grows, so the network
  of the first of two epochs is saved, and it will be judged by the errors of the second.
\<close>

definition ex_trainer :: "(nat, net_window) train_api" where
  "ex_trainer = \<lparr>ta_step = (\<lambda>b m. Suc m), ta_loss = (\<lambda>m b. real m), ta_shuffle = (\<lambda>e xs. xs)\<rparr>"

definition ex_np :: stats_ops where
  "ex_np = \<lparr>np_std = (\<lambda>xs. 0), np_percentile = (\<lambda>xs q. 0)\<rparr>"

definition ex_days :: "reading list list" where
  "ex_days = [replicate 400 (0, 0, 0, 0)]"

lemma ex_split: "chronological_split val_fraction ex_days = ([replicate 320 (0, 0, 0, 0)], [replicate 80 (0, 0, 0, 0)])"
proof -
  have "\<lfloor>real 400 * (1 - val_fraction)\<rfloor> = 320" by (simp add: val_fraction_def)
  then show ?thesis
    by (simp add: chronological_split_def val_fraction_def ex_days_def py_trunc_def slice_at_def Let_def)
qed

lemma length_training_windows: "length (training_windows st [d]) = length d - lstm_sequence_len"
  by (simp add: training_windows_def dataset_windows_def normalize_services_def sliding_def)

lemma batches_last: "xs \<noteq> [] \<Longrightarrow> length xs \<le> k \<Longrightarrow> batches k xs = [xs]"
  by (cases k; subst batches.simps) (auto simp: batches.simps [of _ "[]"])

lemma batches_first: "0 < k \<Longrightarrow> k < length xs \<Longrightarrow> batches k xs = take k xs # batches k (drop k xs)"
  by (subst batches.simps) auto

lemma three_batches:
  assumes "length xs = 260"
  shows "length (batches 128 xs) = 3"
proof -
  have "batches 128 xs = take 128 xs # batches 128 (drop 128 xs)" using assms by (intro batches_first) simp_all
  moreover have "batches 128 (drop 128 xs) = take 128 (drop 128 xs) # batches 128 (drop 128 (drop 128 xs))"
    using assms by (intro batches_first) simp_all
  moreover have "batches 128 (drop 128 (drop 128 xs)) = [drop 128 (drop 128 xs)]"
    using assms by (intro batches_last) auto
  ultimately show ?thesis by simp
qed

lemma ex_model_after: "model_after ex_trainer k train m n = m + n * length (batches k train)"
proof (induction n)
  case (Suc n)
  have "fold (\<lambda>b. Suc) bs i = i + length bs" for bs :: "net_window list list" and i by (induction bs arbitrary: i) simp_all
  with Suc show ?case by (simp add: ex_trainer_def)
qed simp

theorem training_outcome_witness:
  "\<exists>t. train_transformer ex_trainer ex_np 128 2 0 ex_days = Inr t \<and> td_saved t = Some 3 \<and> td_final t = 6 \<and>
     map_option ts_mean (td_threshold t) = Some 6"
proof -
  let ?tr = "[replicate 320 (0, 0, 0, 0)] :: reading list list" and ?va = "[replicate 80 (0, 0, 0, 0)] :: reading list list"
  have len: "length (training_windows st ?tr) = 260" "length (training_windows st ?va) = 20" for st
    by (simp_all add: length_training_windows lstm_sequence_len_def)
  then have "training_windows st ?tr \<noteq> []" "training_windows st ?va \<noteq> []" for st
    by (metis length_0_conv zero_neq_numeral)+
  note nonempty = this
  then have "\<exists>t. train_transformer ex_trainer ex_np 128 2 0 ex_days = Inr t"
    by (simp add: train_transformer_def ex_split Let_def)
  then obtain t where t: "train_transformer ex_trainer ex_np 128 2 0 ex_days = Inr t" ..
  note va = nonempty(2) [of "td_norm t"]
  let ?model = "model_after ex_trainer 128 (training_windows (td_norm t) ?tr) 0"
  let ?errors = "\<lambda>e. val_errors ex_trainer 128 (training_windows (td_norm t) ?va) (?model e)"
  have model: "?model = (\<lambda>e. 3 * e)" by (simp add: ex_model_after three_batches len fun_eq_iff)
  have "batches 128 (training_windows (td_norm t) ?va) = [training_windows (td_norm t) ?va]"
    using va len(2) [of "td_norm t"] by (intro batches_last) simp_all
  then have errors: "?errors = (\<lambda>e. [3 * real e])" by (simp add: val_errors_def model) (simp add: ex_trainer_def)
  from training_outcome [OF t _ ex_split [symmetric] va refl refl] obtain j where
    out: "td_final t = ?model 2" "td_threshold t = Some (compute_threshold (np_std ex_np) (?errors 2))"
    and best: "best_epoch (\<lambda>e. mean (?errors e)) 2 j" and saved: "td_saved t = Some (?model j)" by auto
  have "(\<lambda>e. mean (?errors e)) = (\<lambda>e. 3 * real e)"
    using fun_cong [OF errors] by (simp add: mean_def)
  with best have "best_epoch (\<lambda>e. 3 * real e) 2 j" by simp
  then have "j \<in> {1..2}" "3 * real j \<le> 3 * real 1" unfolding best_epoch_def by fastforce+
  then have "j = 1" by simp
  with out saved fun_cong [OF errors, of 2] fun_cong [OF model, of 2] fun_cong [OF model, of 1] t show ?thesis
    by (simp add: compute_threshold_def mean_def Let_def del: model_after.simps)
qed

end
