(* ===== verification/ML_Networks.thy ===== *)
theory ML_Networks
  imports ML_Training
begin

section \<open>The autoencoders\<close>

text \<open>
  \<open>ml_service/models/transformer_autoencoder.py\<close> and \<open>lstm_autoencoder.py\<close> in evaluation mode: how the forward
  passes are put together from torch's layers, which are parameters with their documented shapes. Tensors are nested
  lists over the reals; \<open>nn.Dropout\<close> is the identity in evaluation mode.
\<close>

type_synonym matrix = "real list list"

type_synonym tensor = "real list list list"

definition shape2 :: "nat \<Rightarrow> nat \<Rightarrow> matrix \<Rightarrow> bool" where
  "shape2 n m x \<longleftrightarrow> length x = n \<and> (\<forall>r \<in> set x. length r = m)"

definition shape3 :: "nat \<Rightarrow> nat \<Rightarrow> nat \<Rightarrow> tensor \<Rightarrow> bool" where
  "shape3 n m k x \<longleftrightarrow> length x = n \<and> (\<forall>w \<in> set x. shape2 m k w)"

definition size_mismatch :: exn where
  "size_mismatch = RuntimeError ''size mismatch''"

subsection \<open>The reconstruction error\<close>

text \<open>\<open>nn.MSELoss()(y, x)\<close>; a window of one step in \<open>x\<close> is repeated for every step of \<open>y\<close>, other sizes must agree.\<close>

definition expand_window :: "nat \<Rightarrow> matrix \<Rightarrow> matrix" where
  "expand_window n w = (if length w = 1 then replicate n (hd w) else w)"

definition mse :: "tensor \<Rightarrow> tensor \<Rightarrow> exn + real" where
  "mse y x =
     (let x' = map2 (\<lambda>v w. expand_window (length v) w) y x
      in if length y = length x \<and> list_all2 (list_all2 (\<lambda>a b. length a = length b)) y x'
         then Inr (mean (map2 (\<lambda>a b. (a - b)\<^sup>2) (concat (concat y)) (concat (concat x'))))
         else Inl size_mismatch)"

lemma flat_length: "shape3 n m k x \<Longrightarrow> length (concat (concat x)) = n * (m * k)"
proof (induction x arbitrary: n)
  case (Cons w x)
  have rows: "(\<forall>r \<in> set w. length r = k) \<Longrightarrow> length (concat w) = length w * k" for w :: matrix
    by (induction w) simp_all
  from Cons.prems have "shape2 m k w" "shape3 (n - 1) m k x" "0 < n" by (auto simp: shape3_def)
  with Cons.IH [of "n - 1"] rows [of w] show ?case
    by (cases n) (simp_all add: shape2_def)
qed (simp add: shape3_def)

lemma mean_squares:
  assumes "length a = length b" and "a \<noteq> []"
  shows "0 \<le> mean (map2 (\<lambda>x y. (x - y)\<^sup>2) a b) \<and> (mean (map2 (\<lambda>x y. (x - y)\<^sup>2) a b) = 0 \<longleftrightarrow> a = b)"
proof -
  have "0 \<le> sum_list (map2 (\<lambda>x y. (x - y)\<^sup>2) a b) \<and> (sum_list (map2 (\<lambda>x y. (x - y)\<^sup>2) a b) = 0 \<longleftrightarrow> a = b)"
    using assms(1) by (induction a b rule: list_induct2) (auto simp: add_nonneg_eq_0_iff)
  with assms show ?thesis by (auto simp: mean_def)
qed

lemma concat_rows_inject:
  "shape2 n m v \<Longrightarrow> shape2 n m w \<Longrightarrow> concat v = concat w \<Longrightarrow> v = w"
  by (rule concat_injective) (auto simp: shape2_def, metis set_zip_leftD set_zip_rightD)

lemma flat_inject:
  assumes "shape3 n m k x" and "shape3 n m k y" and "concat (concat x) = concat (concat y)"
  shows "x = y"
proof -
  have "shape2 (length (concat x)) k (concat x)" "shape2 (length (concat y)) k (concat y)"
    using assms(1,2) by (auto simp: shape3_def shape2_def)
  moreover have "length (concat x) = length (concat y)"
    using assms(1,2) by (simp add: shape3_def shape2_def length_concat sum_list_triv cong: map_cong)
  ultimately have "concat x = concat y" using assms(3) by (metis concat_rows_inject)
  moreover have "length a = length b" if "(a, b) \<in> set (zip x y)" for a b
    using assms(1,2) set_zip_leftD [OF that] set_zip_rightD [OF that] by (simp add: shape3_def shape2_def)
  ultimately show ?thesis using assms(1,2) concat_injective [of x y] by (auto simp: shape3_def)
qed

lemma mse_windows:
  assumes "shape3 n m k y" and "shape3 n m k x" and "0 < n" "0 < m" "0 < k"
  shows "\<exists>e. mse y x = Inr e \<and> 0 \<le> e \<and> (e = 0 \<longleftrightarrow> y = x)"
proof -
  have expand: "expand_window (length v) w = w" if "shape2 m k v" "shape2 m k w" for v w
    using that by (cases w) (auto simp: expand_window_def shape2_def)
  have "map2 (\<lambda>v w. expand_window (length v) w) y x = map2 (\<lambda>v w. w) y x"
    using assms(1,2) by (intro map_cong) (auto simp: shape3_def intro!: expand dest: set_zip_leftD set_zip_rightD)
  also have "\<dots> = x" using assms(1,2) by (intro nth_equalityI) (simp_all add: shape3_def)
  finally have same: "map2 (\<lambda>v w. expand_window (length v) w) y x = x" .
  have rows: "list_all2 (\<lambda>a b. length a = length b) v w" if "shape2 m k v" "shape2 m k w" for v w
    using that by (simp add: shape2_def list_all2_conv_all_nth)
  have "list_all2 (list_all2 (\<lambda>a b. length a = length b)) y x"
    using assms(1,2) unfolding list_all2_conv_all_nth [of _ y x] by (simp add: shape3_def rows)
  with same assms(1,2) have "mse y x = Inr (mean (map2 (\<lambda>a b. (a - b)\<^sup>2) (concat (concat y)) (concat (concat x))))"
    by (simp add: mse_def shape3_def)
  moreover have "length (concat (concat y)) = length (concat (concat x))" "concat (concat y) \<noteq> []"
    using flat_length [OF assms(1)] flat_length [OF assms(2)] assms(3-5)
    by (simp_all del: concat_eq_Nil_conv flip: length_greater_0_conv)
  ultimately show ?thesis using mean_squares flat_inject [OF assms(1,2)] by metis
qed

subsection \<open>The transformer autoencoder\<close>

definition transformer_d_model :: nat where
  "transformer_d_model = 32"

text \<open>
  The layers: the linear projection of each reading, torch's transformer encoder, and the three linear layers of the
  decoder.
\<close>

record trafo_layers =
  tl_project :: "tensor \<Rightarrow> tensor"
  tl_encoder :: "tensor \<Rightarrow> tensor"
  tl_linear1 :: "matrix \<Rightarrow> matrix"
  tl_linear2 :: "matrix \<Rightarrow> matrix"
  tl_linear3 :: "matrix \<Rightarrow> matrix"

text \<open>\<open>PositionalEncoding\<close>: sines in the even and cosines in the odd columns.\<close>

definition pe_entry :: "nat \<Rightarrow> nat \<Rightarrow> nat \<Rightarrow> real" where
  "pe_entry d pos j =
     (let angle = real pos * exp (real (j - j mod 2) * (- ln 10000 / real d))
      in if even j then sin angle else cos angle)"

definition pe_table :: "nat \<Rightarrow> nat \<Rightarrow> matrix" where
  "pe_table len d = map (\<lambda>pos. map (pe_entry d pos) [0..<d]) [0..<len]"

definition add_positions :: "matrix \<Rightarrow> tensor \<Rightarrow> exn + tensor" where
  "add_positions pe x =
     (if list_all (\<lambda>w. length w \<le> length pe) x then Inr (map (\<lambda>w. map2 (map2 (+)) w pe) x) else Inl size_mismatch)"

text \<open>\<open>x.mean(dim=1)\<close>\<close>

definition mean_steps :: "nat \<Rightarrow> matrix \<Rightarrow> real list" where
  "mean_steps d w = map (\<lambda>j. mean (map (\<lambda>r. r ! j) w)) [0..<d]"

definition trafo_encode :: "trafo_layers \<Rightarrow> tensor \<Rightarrow> exn + matrix" where
  "trafo_encode net x =
     rbind (add_positions (pe_table transformer_len transformer_d_model) (tl_project net x)) (\<lambda>y.
     Inr (map (mean_steps transformer_d_model) (tl_encoder net y)))"

text \<open>\<open>MLPDecoder\<close>: the layers, and \<open>view(-1, 60, 4)\<close> on their result in row-major order.\<close>

definition relu :: "matrix \<Rightarrow> matrix" where
  "relu m = map (map (max 0)) m"

definition mlp :: "trafo_layers \<Rightarrow> matrix \<Rightarrow> matrix" where
  "mlp net latent = tl_linear3 net (relu (tl_linear2 net (relu (tl_linear1 net latent))))"

definition view_windows :: "nat \<Rightarrow> nat \<Rightarrow> matrix \<Rightarrow> exn + tensor" where
  "view_windows m k x =
     (if length (concat x) mod (m * k) = 0 then Inr (batches m (batches k (concat x))) else Inl size_mismatch)"

definition trafo_forward :: "trafo_layers \<Rightarrow> tensor \<Rightarrow> exn + tensor" where
  "trafo_forward net x =
     rbind (trafo_encode net x) (\<lambda>l. view_windows transformer_len transformer_features (mlp net l))"

definition trafo_error :: "trafo_layers \<Rightarrow> tensor \<Rightarrow> exn + real" where
  "trafo_error net x = rbind (trafo_forward net x) (\<lambda>y. mse y x)"

text \<open>The documented shapes of the layers, with the sizes the modules give them.\<close>

definition trafo_law :: "trafo_layers \<Rightarrow> bool" where
  "trafo_law net \<longleftrightarrow>
     (\<forall>n m x. shape3 n m transformer_features x \<longrightarrow> shape3 n m transformer_d_model (tl_project net x)) \<and>
     (\<forall>n m x. shape3 n m transformer_d_model x \<longrightarrow> shape3 n m transformer_d_model (tl_encoder net x)) \<and>
     (\<forall>n x. shape2 n transformer_d_model x \<longrightarrow> shape2 n 128 (tl_linear1 net x)) \<and>
     (\<forall>n x. shape2 n 128 x \<longrightarrow> shape2 n 256 (tl_linear2 net x)) \<and>
     (\<forall>n x. shape2 n 256 x \<longrightarrow> shape2 n (transformer_len * transformer_features) (tl_linear3 net x))"

lemma batches_step: "xs \<noteq> [] \<Longrightarrow> 0 < k \<Longrightarrow> batches k xs = take k xs # batches k (drop k xs)"
  by (subst batches.simps) simp

lemma batches_Nil [simp]: "batches k [] = []"
  using batches.simps [of k "[]"] by (simp only: simp_thms if_True)

lemma concat_batches: "0 < k \<Longrightarrow> concat (batches k xs) = xs"
proof (induction xs rule: length_induct)
  case (1 xs)
  then show ?case by (cases "xs = []") (simp_all add: batches_step)
qed

lemma batches_concat: "\<forall>r \<in> set x. length r = k \<Longrightarrow> 0 < k \<Longrightarrow> batches k (concat x) = x"
proof (induction x)
  case (Cons r x)
  then have "r @ concat x \<noteq> []" by auto
  with Cons show ?case by (simp add: batches_step)
qed simp

lemma batches_shape:
  "length xs = n * k \<Longrightarrow> 0 < k \<Longrightarrow> length (batches k xs) = n \<and> (\<forall>b \<in> set (batches k xs). length b = k)"
proof (induction n arbitrary: xs)
  case (Suc n)
  then have "xs \<noteq> []" by auto
  then have eq: "batches k xs = take k xs # batches k (drop k xs)" using Suc.prems(2) by (rule batches_step)
  have first: "length (take k xs) = k" and rest: "length (drop k xs) = n * k" using Suc.prems(1) by simp_all
  show ?case unfolding eq using Suc.IH [OF rest Suc.prems(2)] first by (simp only: list.set list.size) simp
qed simp

text \<open>Viewed as windows, a matrix keeps one row per window.\<close>

lemma view_rows:
  assumes "shape2 n (m * k) x" and "0 < m" and "0 < k"
  shows "\<exists>y. view_windows m k x = Inr y \<and> shape3 n m k y \<and> map concat y = x"
proof -
  have row: "shape2 m k (batches k r)" if "r \<in> set x" for r
    using batches_shape [of r m k] assms that by (simp add: shape2_def)
  have rows: "concat (batches k r) = r" for r :: "real list" by (rule concat_batches [OF assms(3)])
  have flat: "concat (concat (map (batches k) x)) = concat x"
    by (induction x) (simp_all add: rows)
  have "\<forall>b \<in> set (concat (map (batches k) x)). length b = k" using row by (auto simp: shape2_def)
  from batches_concat [OF this assms(3)] have "batches k (concat x) = concat (map (batches k) x)" by (simp only: flat)
  moreover have "batches m (concat (map (batches k) x)) = map (batches k) x"
    by (rule batches_concat) (use row assms(2) in \<open>auto simp: shape2_def\<close>)
  moreover have "length (concat x) mod (m * k) = 0"
    using assms(1) by (simp add: shape2_def length_concat sum_list_triv cong: map_cong)
  moreover have "shape3 n m k (map (batches k) x)" using row assms(1) by (auto simp: shape3_def shape2_def)
  ultimately show ?thesis
    by (intro exI [of _ "map (batches k) x"]) (simp add: view_windows_def rows comp_def)
qed
lemma pe_table_shape: "shape2 len d (pe_table len d)"
  by (simp add: shape2_def pe_table_def)

lemma map2_shape:
  assumes "shape2 m k v" and "shape2 m k w"
  shows "shape2 m k (map2 (map2 f) v w)"
proof -
  have "length (map2 f a b) = k" if "(a, b) \<in> set (zip v w)" for a b
    using assms set_zip_leftD [OF that] set_zip_rightD [OF that] by (simp add: shape2_def)
  with assms show ?thesis by (auto simp: shape2_def)
qed

lemma add_positions_shape:
  assumes "shape2 m k pe" and "shape3 n m k x"
  shows "\<exists>y. add_positions pe x = Inr y \<and> shape3 n m k y"
proof -
  have "list_all (\<lambda>w. length w \<le> length pe) x" using assms by (simp add: shape2_def shape3_def list_all_iff)
  moreover have "shape3 n m k (map (\<lambda>w. map2 (map2 (+)) w pe) x)"
    using assms by (auto simp: shape3_def map2_shape)
  ultimately show ?thesis by (simp add: add_positions_def)
qed

lemma relu_shape: "shape2 n m x \<Longrightarrow> shape2 n m (relu x)"
  by (simp add: shape2_def relu_def)

lemma trafo_layers_shape:
  assumes "trafo_law net"
  shows "shape3 n m transformer_features x \<Longrightarrow> shape3 n m transformer_d_model (tl_project net x)"
    and "shape3 n m transformer_d_model x \<Longrightarrow> shape3 n m transformer_d_model (tl_encoder net x)"
    and "shape2 n transformer_d_model l \<Longrightarrow> shape2 n (transformer_len * transformer_features) (mlp net l)"
  using assms unfolding trafo_law_def mlp_def by (simp_all add: relu_shape)

text \<open>The forward pass on a batch of windows.\<close>

lemma trafo_forward_windows:
  assumes "trafo_law net" and "shape3 n transformer_len transformer_features x"
  shows "\<exists>l y. trafo_encode net x = Inr l \<and> shape2 n transformer_d_model l \<and> trafo_forward net x = Inr y \<and>
           shape3 n transformer_len transformer_features y \<and> map concat y = mlp net l"
proof -
  note shape = trafo_layers_shape [OF assms(1)]
  obtain z where z: "add_positions (pe_table transformer_len transformer_d_model) (tl_project net x) = Inr z"
    "shape3 n transformer_len transformer_d_model z"
    using add_positions_shape [OF pe_table_shape shape(1) [OF assms(2)]] by blast
  let ?l = "map (mean_steps transformer_d_model) (tl_encoder net z)"
  have l: "trafo_encode net x = Inr ?l" by (simp add: trafo_encode_def z(1))
  have "shape2 n transformer_d_model ?l" using shape(2) [OF z(2)] by (simp add: shape3_def shape2_def mean_steps_def)
  moreover from view_rows [OF shape(3) [OF this]] obtain y where
    "view_windows transformer_len transformer_features (mlp net ?l) = Inr y"
    "shape3 n transformer_len transformer_features y" "map concat y = mlp net ?l"
    by (auto simp: transformer_len_def transformer_features_def)
  ultimately show ?thesis using l by (intro exI [of _ ?l] exI [of _ y]) (simp add: trafo_forward_def)
qed

lemma trafo_error_windows:
  assumes "trafo_law net" and "shape3 n transformer_len transformer_features x" and "0 < n"
  shows "\<exists>y e. trafo_forward net x = Inr y \<and> trafo_error net x = Inr e \<and> 0 \<le> e \<and> (e = 0 \<longleftrightarrow> y = x)"
proof -
  from trafo_forward_windows [OF assms(1,2)] obtain y where y: "trafo_forward net x = Inr y"
    "shape3 n transformer_len transformer_features y" by blast
  obtain e where "mse y x = Inr e" "0 \<le> e" "e = 0 \<longleftrightarrow> y = x"
    using mse_windows [OF y(2) assms(2,3)] by (auto simp: transformer_len_def transformer_features_def)
  with y show ?thesis by (simp add: trafo_error_def)
qed

text \<open>
  The transformer rebuilds windows: with layers of the documented shapes, a batch of windows of 60 readings of 4
  metrics becomes a batch of the same shape without raising, window by window the row that the decoder made from that
  window's latent vector, and the reconstruction error is a number that is never negative and zero exactly for a
  perfect reconstruction.
\<close>

theorem transformer_rebuilds_windows:
  assumes "trafo_law net" and "shape3 n 60 4 x" and "0 < n"
  shows "\<exists>l y e. trafo_encode net x = Inr l \<and> shape2 n 32 l \<and> trafo_forward net x = Inr y \<and> shape3 n 60 4 y \<and>
           map concat y = mlp net l \<and> trafo_error net x = Inr e \<and> 0 \<le> e \<and> (e = 0 \<longleftrightarrow> y = x)"
proof -
  from assms(2) have x: "shape3 n transformer_len transformer_features x"
    by (simp add: transformer_len_def transformer_features_def)
  from trafo_forward_windows [OF assms(1) x] trafo_error_windows [OF assms(1) x assms(3)] show ?thesis
    by (auto simp: transformer_len_def transformer_features_def transformer_d_model_def)
qed

definition ex_trafo :: trafo_layers where
  "ex_trafo =
     \<lparr>tl_project = map (map (\<lambda>r. replicate 32 (hd r))), tl_encoder = (\<lambda>x. x),
      tl_linear1 = map (\<lambda>r. replicate 128 (hd r)), tl_linear2 = map (\<lambda>r. replicate 256 (hd r)),
      tl_linear3 = map (\<lambda>r. replicate 240 (hd r))\<rparr>"

lemma ex_trafo_law: "trafo_law ex_trafo"
  by (simp add: trafo_law_def ex_trafo_def shape3_def shape2_def transformer_d_model_def transformer_len_def
      transformer_features_def)

theorem transformer_rebuilds_windows_witness:
  "\<exists>y e. trafo_forward ex_trafo [replicate 60 [1, 2, 3, 4]] = Inr y \<and> shape3 1 60 4 y \<and>
     trafo_error ex_trafo [replicate 60 [1, 2, 3, 4]] = Inr e \<and> 0 \<le> e"
  using transformer_rebuilds_windows [OF ex_trafo_law, of 1 "[replicate 60 [1, 2, 3, 4]]"]
  by (auto simp: shape3_def shape2_def)

subsection \<open>The gateway on its transformer\<close>

definition gateway_on ::
  "trafo_layers \<Rightarrow> real option \<Rightarrow> (real list \<times> real list) option \<Rightarrow> (real list \<Rightarrow> exn + real) option \<Rightarrow> stats_ops \<Rightarrow>
     gateway_env" where
  "gateway_on net threshold stats forest np = gateway_of_files (Some (\<lambda>w. trafo_error net [w])) threshold stats forest np"

text \<open>The complete readings of a service in a run; a shorter vector is not kept.\<close>

definition complete_readings :: "string \<Rightarrow> ((real \<times> real) \<times> string \<times> real list) list \<Rightarrow> real list list" where
  "complete_readings sid rs =
     map (\<lambda>(_, _, f). take transformer_features f)
       (filter (\<lambda>(_, i, f). i = sid \<and> transformer_features \<le> length f) rs)"

lemma infer_buffer_short:
  "\<not> transformer_features \<le> length f \<Longrightarrow> get_buffer sid (snd (infer env c sid f s)) = get_buffer sid s"
  by (simp add: infer_def Let_def judge_transformer_def add_reading_def get_buffer_def
      split: option.splits sum.splits prod.splits)

lemma infer_run_buffer:
  "get_buffer sid (infer_run env rs new_gateway) = take_last transformer_len (complete_readings sid rs)"
proof (induction rs rule: rev_induct)
  case Nil
  show ?case by (simp add: infer_run_def complete_readings_def take_last_def get_buffer_def new_gateway_def)
next
  case (snoc x rs)
  obtain c i f where x: "x = (c, i, f)" by (cases x) auto
  have step: "infer_run env (rs @ [x]) new_gateway = snd (infer env c i f (infer_run env rs new_gateway))"
    by (simp add: infer_run_def x)
  have "get_buffer sid (snd (infer env c i f (infer_run env rs new_gateway))) =
      take_last transformer_len (complete_readings sid (rs @ [x]))"
    using snoc by (cases "i = sid"; cases "transformer_features \<le> length f")
      (simp_all add: get_buffer_other infer_buffer infer_buffer_short complete_readings_def x
        deque_append_def take_last_append_take_last)
  then show ?case unfolding step .
qed

lemma normalise_shape:
  "shape2 n k w \<Longrightarrow> length (ge_norm_mean env) = k \<Longrightarrow> length (ge_norm_std env) = k \<Longrightarrow> shape2 n k (normalise env w)"
  by (simp add: shape2_def normalise_def)

text \<open>
  A warm gateway judges by the transformer: with the shipped network, threshold and normalisation, the answer for a
  service with 60 complete readings, the one in the request included, always comes from the transformer and never from
  the forest, whatever else was asked before and whatever the values are; its score is between 0 and 1.
\<close>

theorem warm_gateway_uses_transformer:
  assumes "trafo_law net" and "length (fst st) = 4" and "length (snd st) = 4" and "0 < threshold"
    and "4 \<le> length f" and "60 \<le> Suc (length (complete_readings sid rs))"
    and "env = gateway_on net (Some threshold) (Some st) forest np"
  shows "\<exists>w e. trafo_error net [w] = Inr e \<and> shape2 60 4 w \<and>
           (let j = fst (infer env clock sid f (infer_run env rs new_gateway))
            in inf_model j = Transformer \<and> inf_error j = e \<and> 0 \<le> inf_score j \<and> inf_score j \<le> 1 \<and>
               (inf_score j = 0 \<longleftrightarrow> trafo_forward net [w] = Inr [w]))"
proof -
  let ?s = "add_reading sid f (infer_run env rs new_gateway)"
  let ?buf = "get_buffer sid ?s"
  have f: "transformer_features \<le> length f" using assms(5) by (simp add: transformer_features_def)
  have buf: "?buf = take_last transformer_len (complete_readings sid rs @ [take transformer_features f])"
    using f by (simp add: infer_run_buffer deque_append_def take_last_append_take_last)
  have len: "length ?buf = transformer_len"
    using assms(6) unfolding buf length_take_last by (simp add: transformer_len_def)
  have "length r = 4" if "r \<in> set ?buf" for r
  proof -
    from that have "r \<in> set (complete_readings sid rs @ [take transformer_features f])"
      unfolding buf by (rule set_mp [OF set_take_last_subset])
    then show ?thesis using f by (auto simp: complete_readings_def transformer_features_def)
  qed
  then have "shape2 60 4 ?buf" using len unfolding shape2_def transformer_len_def by blast
  then have w: "shape2 60 4 (normalise env ?buf)"
    by (rule normalise_shape) (use assms(2,3,7) in \<open>simp_all add: gateway_on_def gateway_of_files_def case_prod_unfold\<close>)
  then have "shape3 1 transformer_len transformer_features [normalise env ?buf]"
    by (simp add: shape3_def transformer_len_def transformer_features_def)
  from trafo_error_windows [OF assms(1) this] obtain y e where e: "trafo_forward net [normalise env ?buf] = Inr y"
    "trafo_error net [normalise env ?buf] = Inr e" "0 \<le> e" "e = 0 \<longleftrightarrow> y = [normalise env ?buf]" by auto
  have env: "ge_transformer env = Some (\<lambda>w. trafo_error net [w])" "ge_threshold env = threshold"
    by (simp_all add: assms(7) gateway_on_def gateway_of_files_def)
  have "ju_model (fst (judge_transformer env sid ?buf ?s)) = Transformer \<and>
      ju_error (fst (judge_transformer env sid ?buf ?s)) = e \<and>
      ju_score (fst (judge_transformer env sid ?buf ?s)) = min 1 (e / threshold)"
    using len assms(4) e(2) by (simp add: judge_transformer_def env Let_def case_prod_unfold del: get_buffer_add)
  then have "(let j = fst (infer env clock sid f (infer_run env rs new_gateway))
      in inf_model j = Transformer \<and> inf_error j = e \<and> inf_score j = min 1 (e / threshold))"
    by (simp add: infer_def judge_forest_def Let_def case_prod_unfold split: option.split del: get_buffer_add)
  with e assms(4) w show ?thesis
    by (intro exI [of _ "normalise env ?buf"] exI [of _ e]) (auto simp: Let_def min_def simp del: get_buffer_add)
qed
lemma complete_replicate:
  "complete_readings sid (replicate n (c, sid, f)) = (if 4 \<le> length f then replicate n (take 4 f) else [])"
  by (induction n) (simp_all add: complete_readings_def transformer_features_def)

theorem warm_gateway_uses_transformer_witness:
  "inf_model (fst (infer (gateway_on ex_trafo (Some 1) (Some ([0, 0, 0, 0], [1, 1, 1, 1])) None ex_np) (0, 0) ''a''
     [1, 2, 3, 4] (infer_run (gateway_on ex_trafo (Some 1) (Some ([0, 0, 0, 0], [1, 1, 1, 1])) None ex_np)
       (replicate 59 ((0, 0), ''a'', [1, 2, 3, 4])) new_gateway))) = Transformer"
proof -
  let ?rs = "replicate 59 ((0, 0), ''a'', [1, 2, 3, 4 :: real])"
  have "60 \<le> Suc (length (complete_readings ''a'' ?rs))" by (simp add: complete_replicate)
  from warm_gateway_uses_transformer [OF ex_trafo_law _ _ _ _ this refl, of "([0, 0, 0, 0], [1, 1, 1, 1])" 1 "[1, 2, 3, 4]"
      None ex_np "(0, 0)"]
  show ?thesis unfolding Let_def by auto
qed

subsection \<open>The LSTM autoencoder\<close>

definition lstm_hidden_size :: nat where
  "lstm_hidden_size = 64"

definition lstm_latent_size :: nat where
  "lstm_latent_size = 32"

text \<open>
  The layers: the encoder's LSTM with its outputs, hidden and cell states, the linear layers, and the decoder's LSTM,
  which goes one step on from a state.
\<close>

record lstm_layers =
  ll_encode :: "tensor \<Rightarrow> tensor \<times> tensor \<times> tensor"
  ll_latent :: "matrix \<Rightarrow> matrix"
  ll_hidden :: "matrix \<Rightarrow> matrix"
  ll_decode :: "tensor \<Rightarrow> tensor \<times> tensor \<Rightarrow> tensor \<times> tensor \<times> tensor"
  ll_output :: "tensor \<Rightarrow> tensor"

definition lstm_encode :: "lstm_layers \<Rightarrow> tensor \<Rightarrow> matrix" where
  "lstm_encode net x = (let (outs, hidden, cell) = ll_encode net x in ll_latent net (last hidden))"

definition zeros_like :: "tensor \<Rightarrow> tensor" where
  "zeros_like t = map (map (map (\<lambda>_. 0))) t"

text \<open>The loop of the decoder: each prediction is the next input.\<close>

fun decode_steps :: "lstm_layers \<Rightarrow> nat \<Rightarrow> tensor \<Rightarrow> tensor \<times> tensor \<Rightarrow> tensor list" where
  "decode_steps net 0 inp state = []"
| "decode_steps net (Suc n) inp state =
     (let (out, state1) = ll_decode net inp state; step = ll_output net out
      in step # decode_steps net n step state1)"

text \<open>\<open>torch.cat(outputs, dim=1)\<close>\<close>

definition cat_steps :: "tensor list \<Rightarrow> exn + tensor" where
  "cat_steps ts =
     (if ts = [] then Inl (RuntimeError ''torch.cat(): expected a non-empty list of Tensors'')
      else Inr (map (\<lambda>b. concat (map (\<lambda>t. t ! b) ts)) [0..<length (hd ts)]))"

definition lstm_decode :: "lstm_layers \<Rightarrow> nat \<Rightarrow> matrix \<Rightarrow> exn + tensor" where
  "lstm_decode net seq_len latent =
     (let h0 = replicate 2 (ll_hidden net latent)
      in cat_steps (decode_steps net seq_len (replicate (length latent) [replicate lstm_num_features 0])
           (h0, zeros_like h0)))"

definition lstm_forward :: "lstm_layers \<Rightarrow> tensor \<Rightarrow> exn + tensor" where
  "lstm_forward net x = lstm_decode net lstm_sequence_len (lstm_encode net x)"

definition lstm_error :: "lstm_layers \<Rightarrow> tensor \<Rightarrow> exn + real" where
  "lstm_error net x = rbind (lstm_forward net x) (\<lambda>y. mse y x)"

definition lstm_law :: "lstm_layers \<Rightarrow> bool" where
  "lstm_law net \<longleftrightarrow>
     (\<forall>n m x. shape3 n m lstm_num_features x \<longrightarrow> shape3 2 n lstm_hidden_size (fst (snd (ll_encode net x)))) \<and>
     (\<forall>n x. shape2 n lstm_hidden_size x \<longrightarrow> shape2 n lstm_latent_size (ll_latent net x)) \<and>
     (\<forall>n x. shape2 n lstm_latent_size x \<longrightarrow> shape2 n lstm_hidden_size (ll_hidden net x)) \<and>
     (\<forall>n x h c. shape3 n 1 lstm_num_features x \<longrightarrow> shape3 2 n lstm_hidden_size h \<longrightarrow> shape3 2 n lstm_hidden_size c \<longrightarrow>
        shape3 n 1 lstm_hidden_size (fst (ll_decode net x (h, c))) \<and>
        shape3 2 n lstm_hidden_size (fst (snd (ll_decode net x (h, c)))) \<and>
        shape3 2 n lstm_hidden_size (snd (snd (ll_decode net x (h, c))))) \<and>
     (\<forall>n x. shape3 n 1 lstm_hidden_size x \<longrightarrow> shape3 n 1 lstm_num_features (ll_output net x))"

lemma decode_steps_shape:
  assumes "lstm_law net" and "shape3 n 1 lstm_num_features inp"
    and "shape3 2 n lstm_hidden_size h" and "shape3 2 n lstm_hidden_size c"
  shows "length (decode_steps net k inp (h, c)) = k \<and>
         (\<forall>t \<in> set (decode_steps net k inp (h, c)). shape3 n 1 lstm_num_features t)"
  using assms(2-4)
proof (induction k arbitrary: inp h c)
  case (Suc k)
  obtain out h1 c1 where d: "ll_decode net inp (h, c) = (out, h1, c1)" by (rule prod_cases3)
  with assms(1) Suc.prems have "shape3 n 1 lstm_hidden_size out" "shape3 2 n lstm_hidden_size h1"
    "shape3 2 n lstm_hidden_size c1" unfolding lstm_law_def by (metis fst_conv snd_conv)+
  moreover from this(1) have "shape3 n 1 lstm_num_features (ll_output net out)"
    using assms(1) unfolding lstm_law_def by blast
  ultimately show ?case using Suc.IH [of "ll_output net out" h1 c1] by (simp add: d Let_def)
qed simp

text \<open>A longer decoding only goes on from a shorter one.\<close>

lemma decode_steps_take: "n \<le> m \<Longrightarrow> take n (decode_steps net m inp state) = decode_steps net n inp state"
proof (induction m arbitrary: n inp state)
  case (Suc m)
  then show ?case by (cases n) (simp_all add: Let_def case_prod_unfold)
qed simp

lemma concat_singletons: "\<forall>x \<in> set xs. length x = 1 \<Longrightarrow> concat xs = map hd xs"
  by (induction xs) (auto simp: length_Suc_conv)

lemma cat_steps_shape:
  assumes "ts \<noteq> []" and "\<forall>t \<in> set ts. shape3 n 1 k t"
  shows "cat_steps ts = Inr (map (\<lambda>b. map (\<lambda>t. hd (t ! b)) ts) [0..<n]) \<and>
         shape3 n (length ts) k (map (\<lambda>b. map (\<lambda>t. hd (t ! b)) ts) [0..<n])"
proof -
  have len: "length (hd ts) = n" using assms by (simp add: shape3_def)
  have step: "length (t ! b) = 1 \<and> length (hd (t ! b)) = k" if "t \<in> set ts" "b < n" for t b
  proof -
    from assms(2) that have "shape2 1 k (t ! b)" by (simp add: shape3_def)
    then show ?thesis by (cases "t ! b") (simp_all add: shape2_def)
  qed
  have "concat (map (\<lambda>t. t ! b) ts) = map (\<lambda>t. hd (t ! b)) ts" if "b < n" for b
    using step that by (subst concat_singletons) (auto simp: comp_def)
  with assms(1) len step show ?thesis by (simp add: cat_steps_def shape3_def shape2_def)
qed
lemma lstm_decode_windows:
  assumes "lstm_law net" and "shape2 n lstm_latent_size l" and "0 < k"
  shows "\<exists>y. lstm_decode net k l = Inr y \<and> shape3 n k lstm_num_features y \<and>
           (\<forall>j. 0 < j \<and> j \<le> k \<longrightarrow> lstm_decode net j l = Inr (map (take j) y))"
proof -
  let ?h = "replicate 2 (ll_hidden net l)" and ?inp = "replicate (length l) [replicate lstm_num_features (0 :: real)]"
  let ?steps = "\<lambda>j. decode_steps net j ?inp (?h, zeros_like ?h)"
  from assms(1,2) have "shape2 n lstm_hidden_size (ll_hidden net l)" unfolding lstm_law_def by blast
  then have h: "shape3 2 n lstm_hidden_size ?h" by (simp add: shape3_def)
  then have "shape3 2 n lstm_hidden_size (zeros_like ?h)" by (auto simp: shape3_def shape2_def zeros_like_def)
  moreover have "shape3 n 1 lstm_num_features ?inp" using assms(2) by (simp add: shape3_def shape2_def)
  ultimately have steps: "length (?steps j) = j \<and> (\<forall>t \<in> set (?steps j). shape3 n 1 lstm_num_features t)" for j
    using decode_steps_shape [OF assms(1) _ h] by blast
  have dec: "lstm_decode net j l = Inr (map (\<lambda>b. map (\<lambda>t. hd (t ! b)) (?steps j)) [0..<n]) \<and>
      shape3 n j lstm_num_features (map (\<lambda>b. map (\<lambda>t. hd (t ! b)) (?steps j)) [0..<n])" if "0 < j" for j
  proof -
    from steps [of j] that have "?steps j \<noteq> []" by auto
    from cat_steps_shape [OF this conjunct2 [OF steps [of j]]] show ?thesis
      by (simp add: lstm_decode_def Let_def conjunct1 [OF steps [of j]])
  qed
  let ?y = "map (\<lambda>b. map (\<lambda>t. hd (t ! b)) (?steps k)) [0..<n]"
  have "lstm_decode net j l = Inr (map (take j) ?y)" if "0 < j \<and> j \<le> k" for j
    using dec [of j] that by (simp add: comp_def take_map decode_steps_take)
  with dec [OF assms(3)] show ?thesis by blast
qed

lemma lstm_rebuilds:
  assumes "lstm_law net" and "shape3 n 60 4 x" and "0 < n"
  shows "\<exists>y e. lstm_forward net x = Inr y \<and> shape3 n 60 4 y \<and> lstm_error net x = Inr e \<and> 0 \<le> e \<and>
           (e = 0 \<longleftrightarrow> y = x) \<and>
           (\<forall>j. 0 < j \<and> j \<le> 60 \<longrightarrow> lstm_decode net j (lstm_encode net x) = Inr (map (take j) y))"
proof -
  have four: "lstm_num_features = 4" "lstm_sequence_len = 60" by (simp_all add: lstm_num_features_def lstm_sequence_len_def)
  from assms(1,2) have hidden: "shape3 2 n lstm_hidden_size (fst (snd (ll_encode net x)))"
    unfolding lstm_law_def four by blast
  then have "fst (snd (ll_encode net x)) \<noteq> []" by (auto simp: shape3_def)
  then have "last (fst (snd (ll_encode net x))) \<in> set (fst (snd (ll_encode net x)))" by (rule last_in_set)
  with hidden have "shape2 n lstm_hidden_size (last (fst (snd (ll_encode net x))))" by (simp add: shape3_def)
  then have "shape2 n lstm_latent_size (lstm_encode net x)"
    using assms(1) unfolding lstm_law_def lstm_encode_def case_prod_unfold Let_def by blast
  from lstm_decode_windows [OF assms(1) this, of 60] obtain y where
    y: "lstm_decode net 60 (lstm_encode net x) = Inr y" "shape3 n 60 4 y"
    "\<forall>j. 0 < j \<and> j \<le> 60 \<longrightarrow> lstm_decode net j (lstm_encode net x) = Inr (map (take j) y)" by (auto simp: four)
  obtain e where "mse y x = Inr e" "0 \<le> e" "e = 0 \<longleftrightarrow> y = x" using mse_windows [OF y(2) assms(2,3)] by auto
  with y show ?thesis by (intro exI [of _ y] exI [of _ e]) (simp add: lstm_forward_def lstm_error_def four)
qed

text \<open>
  The LSTM rebuilds windows, step by step: with layers of the documented shapes, a batch of windows of 60 readings
  of 4 metrics becomes a batch of the same shape without raising; the decoder is autoregressive, so decoding fewer
  steps gives the beginning of the same windows; and the reconstruction error is never negative and zero exactly for a
  perfect reconstruction.
\<close>

theorem lstm_rebuilds_windows:
  assumes "lstm_law net" and "shape3 n 60 4 x" and "0 < n"
  shows "\<exists>y e. lstm_forward net x = Inr y \<and> shape3 n 60 4 y \<and> lstm_error net x = Inr e \<and> 0 \<le> e \<and>
           (e = 0 \<longleftrightarrow> y = x) \<and>
           (\<forall>j. 0 < j \<and> j \<le> 60 \<longrightarrow> lstm_decode net j (lstm_encode net x) = Inr (map (take j) y))"
  using lstm_rebuilds [OF assms] .

definition ex_lstm :: lstm_layers where
  "ex_lstm =
     \<lparr>ll_encode = (\<lambda>x. (x, replicate 2 (map (\<lambda>w. replicate 64 (hd (hd w))) x), [])),
      ll_latent = map (take 32), ll_hidden = map (\<lambda>r. replicate 64 (hd r)),
      ll_decode = (\<lambda>x (h, c). (map (map (\<lambda>r. replicate 64 (1 + hd r))) x, h, c)),
      ll_output = map (map (take 4))\<rparr>"

lemma ex_lstm_law: "lstm_law ex_lstm"
  by (simp add: lstm_law_def ex_lstm_def shape3_def shape2_def lstm_hidden_size_def lstm_latent_size_def
      lstm_num_features_def)

theorem lstm_rebuilds_windows_witness:
  "\<exists>y. lstm_forward ex_lstm [replicate 60 [1, 2, 3, 4]] = Inr y \<and> shape3 1 60 4 y"
  using lstm_rebuilds_windows [OF ex_lstm_law, of 1 "[replicate 60 [1, 2, 3, 4]]"]
  by (auto simp: shape3_def shape2_def)

text \<open>
  The TorchServe handler: the request's first four features, repeated, are a window the network accepts; the only
  failures are the request's own, or a threshold of zero.
\<close>

definition handle_lstm ::
  "lstm_layers \<Rightarrow> (pyval list \<Rightarrow> exn + real list) \<Rightarrow> threshold_stats \<Rightarrow> pydict \<Rightarrow> exn + lstm_answer" where
  "handle_lstm net as_row t request =
     rbind (lstm_preprocess as_row request) (\<lambda>w. rbind (lstm_error net [w]) (lstm_postprocess t))"

text \<open>
  The LSTM endpoint answers every good request and only those: with a positive threshold, a request whose data is a
  list of at least four values that NumPy converts is answered with a score between 0 and 1, one that is no list or
  too short is refused with \<open>ValueError\<close>, and nothing else can fail.
\<close>

theorem lstm_endpoint_total:
  assumes "lstm_law net" and "0 < ts_threshold t"
    and "\<And>xs row. as_row xs = Inr row \<Longrightarrow> length row = length xs"
  shows "case py_or (dict_get request ''data'') (dict_get request ''body'') of
           PList xs \<Rightarrow>
             if 4 \<le> length xs
             then (case as_row (take 4 xs) of
                     Inl e \<Rightarrow> handle_lstm net as_row t request = Inl e
                   | Inr row \<Rightarrow> \<exists>a. handle_lstm net as_row t request = Inr a \<and> 0 \<le> la_score a \<and> la_score a \<le> 1)
             else handle_lstm net as_row t request = Inl ValueError
         | _ \<Rightarrow> handle_lstm net as_row t request = Inl ValueError"
proof -
  have answer: "\<exists>a. rbind (lstm_error net [replicate 60 row]) (lstm_postprocess t) = Inr a \<and>
      0 \<le> la_score a \<and> la_score a \<le> 1" if "length row = 4" for row
  proof -
    from that have "shape3 1 60 4 [replicate 60 row]" by (simp add: shape3_def shape2_def)
    from lstm_rebuilds [OF assms(1) this] obtain e where "lstm_error net [replicate 60 row] = Inr e" "0 \<le> e" by auto
    with assms(2) show ?thesis by (simp add: lstm_postprocess_def)
  qed
  have "length row = 4" if "as_row (take 4 xs) = Inr row" "4 \<le> length xs" for xs row
    using assms(3) [OF that(1)] that(2) by simp
  with answer show ?thesis
    by (auto simp: handle_lstm_def lstm_preprocess_def lstm_num_features_def lstm_sequence_len_def
        split: pyval.split sum.split)
qed

theorem lstm_endpoint_total_witness:
  "handle_lstm ex_lstm (\<lambda>xs. Inr (map (\<lambda>_. 0) xs)) \<lparr>ts_mean = 0, ts_std = 0, ts_threshold = 1\<rparr>
     [(''data'', PList [PInt 1])] = Inl ValueError"
  using lstm_endpoint_total [OF ex_lstm_law, of "\<lparr>ts_mean = 0, ts_std = 0, ts_threshold = 1\<rparr>" "\<lambda>xs. Inr (map (\<lambda>_. 0) xs)"
      "[(''data'', PList [PInt 1])]"]
  by (simp add: dict_defs py_or_def)

end
