(* ===== verification/Dashboard_Hub.thy ===== *)
theory Dashboard_Hub
  imports Kafka_Json
begin

section \<open>The live feed of the dashboard\<close>

text \<open>
  \<open>dashboard_api/hub.py\<close> and \<open>kafka_feed.py\<close>. The hub's coroutines yield at every \<open>await\<close>, so
  a broadcast and a replay are modelled by the pieces between two awaits: any number of replays and
  broadcasts are in progress at a time and any of them may take the next step. A browser is a
  number; sending to it succeeds or raises.
\<close>

subsection \<open>The hub\<close>

type_synonym frame = string

text \<open>A broadcast in progress: its frame, the clients still to be served, the dead ones found.\<close>

type_synonym flight = "frame \<times> nat list \<times> nat list"

text \<open>
  \<open>hub_replay\<close> is the rest of the replay of a client that is connecting; \<open>hub_got\<close> is what each
  browser was sent so far.
\<close>

record hub =
  hub_clients :: "nat set"
  hub_recent :: "frame list"
  hub_replay :: "nat \<Rightarrow> frame list"
  hub_flights :: "flight list"
  hub_got :: "nat \<Rightarrow> frame list"

definition new_hub :: hub where
  "new_hub = \<lparr>hub_clients = {}, hub_recent = [], hub_replay = (\<lambda>_. []), hub_flights = [], hub_got = (\<lambda>_. [])\<rparr>"

definition ws_backfill :: nat where
  "ws_backfill = 50"

text \<open>After \<open>accept\<close>: registered, and the replay list is taken, before the next await.\<close>

definition hub_connect :: "nat \<Rightarrow> hub \<Rightarrow> hub" where
  "hub_connect ws h =
     h\<lparr>hub_clients := insert ws (hub_clients h), hub_replay := (hub_replay h)(ws := hub_recent h)\<rparr>"

definition hub_disconnect :: "nat \<Rightarrow> hub \<Rightarrow> hub" where
  "hub_disconnect ws h = h\<lparr>hub_clients := hub_clients h - {ws}\<rparr>"

definition hub_send :: "nat \<Rightarrow> frame \<Rightarrow> hub \<Rightarrow> hub" where
  "hub_send ws f h = h\<lparr>hub_got := (hub_got h)(ws := hub_got h ws @ [f])\<rparr>"

text \<open>One \<open>send_text\<close> of a replay; a failure ends the replay and drops the client.\<close>

definition hub_replay_step :: "nat \<Rightarrow> bool \<Rightarrow> hub \<Rightarrow> hub" where
  "hub_replay_step ws ok h =
     (case hub_replay h ws of
        [] \<Rightarrow> h
      | f # fs \<Rightarrow>
          if ok then (hub_send ws f h)\<lparr>hub_replay := (hub_replay h)(ws := fs)\<rparr>
          else (hub_disconnect ws h)\<lparr>hub_replay := (hub_replay h)(ws := [])\<rparr>)"

text \<open>A broadcast up to its first await; \<open>order\<close> is \<open>list(self._clients)\<close>.\<close>

definition hub_broadcast :: "nat \<Rightarrow> nat list \<Rightarrow> frame \<Rightarrow> hub \<Rightarrow> hub" where
  "hub_broadcast cap order f h =
     h\<lparr>hub_recent := deque_append cap f (hub_recent h), hub_flights := hub_flights h @ [(f, order, [])]\<rparr>"

text \<open>The next \<open>send_text\<close> of the \<open>i\<close>-th broadcast, or its end.\<close>

definition hub_flight_step :: "nat \<Rightarrow> bool \<Rightarrow> hub \<Rightarrow> hub" where
  "hub_flight_step i ok h =
     (if i < length (hub_flights h)
      then case hub_flights h ! i of
             (f, ws # rest, dead) \<Rightarrow>
               if ok then (hub_send ws f h)\<lparr>hub_flights := (hub_flights h)[i := (f, rest, dead)]\<rparr>
               else h\<lparr>hub_flights := (hub_flights h)[i := (f, rest, dead @ [ws])]\<rparr>
           | (f, [], dead) \<Rightarrow>
               (fold hub_disconnect dead h)\<lparr>hub_flights := take i (hub_flights h) @ drop (Suc i) (hub_flights h)\<rparr>
      else h)"

interpretation hub_recent: recent_buffer "\<lambda>f. hub_broadcast cap order f" hub_recent cap for cap order
  by unfold_locales (simp add: hub_broadcast_def deque_append_def)

subsection \<open>The Kafka feed\<close>

definition live_topics :: "(string \<times> string) list" where
  "live_topics = [(''anomaly-events'', ''anomaly''), (''incident-alerts'', ''incident'')]"

text \<open>
  One connection of \<open>_run\<close>: the frames handed to the hub until a poll raises or the list of polls
  (up to the stop) ends; the flag is \<open>self.connected\<close>, cleared when something raised.
\<close>

fun feed_polls :: "(exn + consumed_record option) list \<Rightarrow> (string \<times> pyval) list \<times> bool" where
  "feed_polls [] = ([], True)"
| "feed_polls (Inl e # ps) = ([], False)"
| "feed_polls (Inr None # ps) = feed_polls ps"
| "feed_polls (Inr (Some r) # ps) =
     (case map_of live_topics (rec_topic r) of
        None \<Rightarrow> ([], False)
      | Some ty \<Rightarrow> (let (fs, up) = feed_polls ps in ((ty, rec_value r) # fs, up)))"

text \<open>The reconnecting loop: each entry is a connection that failed or its polls.\<close>

fun feed_run :: "(exn + (exn + consumed_record option) list) list \<Rightarrow> (string \<times> pyval) list \<times> bool" where
  "feed_run [] = ([], False)"
| "feed_run (Inl e # cs) = feed_run cs"
| "feed_run [Inr ps] = feed_polls ps"
| "feed_run (Inr ps # c # cs) = (let (fs, up) = feed_polls ps; (gs, up2) = feed_run (c # cs) in (fs @ gs, up2))"

subsection \<open>Runs of the hub\<close>

text \<open>
  The states the hub can be in, with the frames due to every browser that ever connected and the
  browsers a send to which failed or that left. A browser is a new object on every connection.
\<close>

inductive hub_run :: "nat \<Rightarrow> hub \<Rightarrow> (nat \<Rightarrow> frame list option) \<Rightarrow> nat set \<Rightarrow> bool" for cap where
  start: "hub_run cap new_hub (\<lambda>_. None) {}"
| connect: "hub_run cap h due gone \<Longrightarrow> due ws = None \<Longrightarrow>
     hub_run cap (hub_connect ws h) (due(ws \<mapsto> hub_recent h)) gone"
| leave: "hub_run cap h due gone \<Longrightarrow> due ws \<noteq> None \<Longrightarrow> hub_run cap (hub_disconnect ws h) due (insert ws gone)"
| replay: "hub_run cap h due gone \<Longrightarrow>
     hub_run cap (hub_replay_step ws ok h) due (if ok then gone else insert ws gone)"
| broadcast: "hub_run cap h due gone \<Longrightarrow> set order = hub_clients h \<Longrightarrow> distinct order \<Longrightarrow>
     hub_run cap (hub_broadcast cap order f h)
       (\<lambda>ws. if ws \<in> hub_clients h then map_option (\<lambda>fs. fs @ [f]) (due ws) else due ws) gone"
| serve: "hub_run cap h due gone \<Longrightarrow> i < length (hub_flights h) \<Longrightarrow> hub_flights h ! i = (f, ws # rest, dead) \<Longrightarrow>
     hub_run cap (hub_flight_step i ok h) due (if ok then gone else insert ws gone)"
| finish: "hub_run cap h due gone \<Longrightarrow> i < length (hub_flights h) \<Longrightarrow> hub_flights h ! i = (f, [], dead) \<Longrightarrow>
     hub_run cap (hub_flight_step i True h) due gone"

subsection \<open>Every frame reaches every browser once\<close>

fun owed_by :: "nat \<Rightarrow> flight \<Rightarrow> frame multiset" where
  "owed_by ws (f, rest, dead) = (if ws \<in> set rest then {#f#} else {#})"

definition in_flight :: "nat \<Rightarrow> hub \<Rightarrow> frame multiset" where
  "in_flight ws h = (\<Sum>x\<leftarrow>hub_flights h. owed_by ws x)"

fun flight_ok :: "(nat \<Rightarrow> frame list option) \<Rightarrow> nat set \<Rightarrow> flight \<Rightarrow> bool" where
  "flight_ok due gone (f, rest, dead) \<longleftrightarrow> distinct rest \<and> (\<forall>ws \<in> set rest. due ws \<noteq> None) \<and> set dead \<subseteq> gone"

definition client_ok :: "hub \<Rightarrow> (nat \<Rightarrow> frame list option) \<Rightarrow> nat set \<Rightarrow> nat \<Rightarrow> bool" where
  "client_ok h due gone ws \<longleftrightarrow>
     (case due ws of
        None \<Rightarrow> ws \<notin> hub_clients h \<and> hub_got h ws = [] \<and> hub_replay h ws = []
      | Some fs \<Rightarrow> ws \<in> gone \<or>
          ws \<in> hub_clients h \<and> mset fs = mset (hub_got h ws) + mset (hub_replay h ws) + in_flight ws h)"

definition hub_inv :: "hub \<Rightarrow> (nat \<Rightarrow> frame list option) \<Rightarrow> nat set \<Rightarrow> bool" where
  "hub_inv h due gone \<longleftrightarrow> (\<forall>x \<in> set (hub_flights h). flight_ok due gone x) \<and> (\<forall>ws. client_ok h due gone ws)"

lemma hub_invI:
  "(\<And>x. x \<in> set (hub_flights h) \<Longrightarrow> flight_ok due gone x) \<Longrightarrow> (\<And>ws. client_ok h due gone ws) \<Longrightarrow> hub_inv h due gone"
  by (simp add: hub_inv_def)

lemma hub_invD:
  assumes "hub_inv h due gone"
  shows "x \<in> set (hub_flights h) \<Longrightarrow> flight_ok due gone x" and "client_ok h due gone ws"
  using assms by (simp_all add: hub_inv_def)

lemma flight_ok_mono:
  assumes "flight_ok due gone x" and "gone \<subseteq> gone'" and "\<And>ws. due ws \<noteq> None \<Longrightarrow> due' ws \<noteq> None"
  shows "flight_ok due' gone' x"
  using assms by (cases x) auto

lemma not_in_flight:
  assumes "hub_inv h due gone" and "due ws = None"
  shows "in_flight ws h = {#}"
proof -
  have "owed_by ws x = {#}" if "x \<in> set (hub_flights h)" for x
    using hub_invD(1) [OF assms(1) that] assms(2) by (cases x) auto
  then have "map (owed_by ws) (hub_flights h) = map (\<lambda>_. {#}) (hub_flights h)" by simp
  then show ?thesis by (simp only: in_flight_def) simp
qed

lemma fold_disconnect:
  "hub_clients (fold hub_disconnect dead h) = hub_clients h - set dead"
  "hub_recent (fold hub_disconnect dead h) = hub_recent h"
  "hub_replay (fold hub_disconnect dead h) = hub_replay h"
  "hub_flights (fold hub_disconnect dead h) = hub_flights h"
  "hub_got (fold hub_disconnect dead h) = hub_got h"
  by (induction dead arbitrary: h) (auto simp: hub_disconnect_def)

lemma hub_connect_inv:
  assumes inv: "hub_inv h due gone" and new: "due ws = None"
  shows "hub_inv (hub_connect ws h) (due(ws \<mapsto> hub_recent h)) gone"
proof (rule hub_invI)
  fix x assume "x \<in> set (hub_flights (hub_connect ws h))"
  then show "flight_ok (due(ws \<mapsto> hub_recent h)) gone x"
    using hub_invD(1) [OF inv, of x] by (auto simp: hub_connect_def intro: flight_ok_mono)
next
  fix v
  show "client_ok (hub_connect ws h) (due(ws \<mapsto> hub_recent h)) gone v"
    using hub_invD(2) [OF inv, of v] not_in_flight [OF inv new] new
    by (auto simp: client_ok_def hub_connect_def in_flight_def split: option.splits)
qed

lemma hub_leave_inv:
  assumes inv: "hub_inv h due gone" and old: "due ws \<noteq> None"
  shows "hub_inv (hub_disconnect ws h) due (insert ws gone)"
proof (rule hub_invI)
  fix x assume "x \<in> set (hub_flights (hub_disconnect ws h))"
  then show "flight_ok due (insert ws gone) x"
    using hub_invD(1) [OF inv, of x] by (auto simp: hub_disconnect_def intro: flight_ok_mono)
next
  fix v
  show "client_ok (hub_disconnect ws h) due (insert ws gone) v"
    using hub_invD(2) [OF inv, of v]
    by (auto simp: client_ok_def hub_disconnect_def in_flight_def split: option.splits)
qed

lemma hub_replay_inv:
  assumes inv: "hub_inv h due gone"
  shows "hub_inv (hub_replay_step ws ok h) due (if ok then gone else insert ws gone)"
proof (rule hub_invI)
  fix x assume "x \<in> set (hub_flights (hub_replay_step ws ok h))"
  then have "x \<in> set (hub_flights h)"
    by (auto simp: hub_replay_step_def hub_send_def hub_disconnect_def split: list.splits if_splits)
  from hub_invD(1) [OF inv this] show "flight_ok due (if ok then gone else insert ws gone) x"
    by (rule flight_ok_mono) auto
next
  fix v
  show "client_ok (hub_replay_step ws ok h) due (if ok then gone else insert ws gone) v"
    using hub_invD(2) [OF inv, of v]
    by (auto simp: client_ok_def hub_replay_step_def hub_send_def hub_disconnect_def in_flight_def
        split: option.splits list.splits)
qed

lemma hub_broadcast_inv:
  assumes inv: "hub_inv h due gone" and order: "set order = hub_clients h" "distinct order"
  shows "hub_inv (hub_broadcast cap order f h)
    (\<lambda>ws. if ws \<in> hub_clients h then map_option (\<lambda>fs. fs @ [f]) (due ws) else due ws) gone"
    (is "hub_inv _ ?due _")
proof (rule hub_invI)
  have clients: "due ws \<noteq> None" if "ws \<in> hub_clients h" for ws
    using hub_invD(2) [OF inv, of ws] that by (auto simp: client_ok_def split: option.splits)
  fix x assume "x \<in> set (hub_flights (hub_broadcast cap order f h))"
  then consider "x \<in> set (hub_flights h)" | "x = (f, order, [])" by (auto simp: hub_broadcast_def)
  then show "flight_ok ?due gone x"
  proof cases
    case 1
    from hub_invD(1) [OF inv 1] show ?thesis by (rule flight_ok_mono) auto
  next
    case 2
    with order clients show ?thesis by auto
  qed
next
  fix v
  show "client_ok (hub_broadcast cap order f h) ?due gone v"
    using hub_invD(2) [OF inv, of v] order
    by (auto simp: client_ok_def hub_broadcast_def in_flight_def split: option.splits)
qed

lemma hub_serve_inv:
  assumes inv: "hub_inv h due gone" and i: "i < length (hub_flights h)" "hub_flights h ! i = (f, ws # rest, dead)"
  shows "hub_inv (hub_flight_step i ok h) due (if ok then gone else insert ws gone)"
proof -
  let ?y = "(f, rest, if ok then dead else dead @ [ws])"
  define as bs where "as = take i (hub_flights h)" and "bs = drop (Suc i) (hub_flights h)"
  have fl: "hub_flights h = as @ (f, ws # rest, dead) # bs"
    using id_take_nth_drop [OF i(1)] i(2) by (simp add: as_def bs_def)
  have len: "length as = i" using i(1) by (simp add: as_def)
  have step: "hub_flight_step i ok h =
      (if ok then (hub_send ws f h)\<lparr>hub_flights := as @ ?y # bs\<rparr> else h\<lparr>hub_flights := as @ ?y # bs\<rparr>)"
    using i len by (auto simp: hub_flight_step_def fl)
  have ok: "flight_ok due gone (f, ws # rest, dead)" by (rule hub_invD(1) [OF inv]) (simp add: fl)
  show ?thesis
  proof (rule hub_invI)
    fix x assume "x \<in> set (hub_flights (hub_flight_step i ok h))"
    then consider "x \<in> set (hub_flights h)" | "x = ?y" by (auto simp: step fl hub_send_def split: if_splits)
    then show "flight_ok due (if ok then gone else insert ws gone) x"
    proof cases
      case 1
      from hub_invD(1) [OF inv 1] show ?thesis by (rule flight_ok_mono) auto
    next
      case 2
      with ok show ?thesis by auto
    qed
  next
    fix v
    show "client_ok (hub_flight_step i ok h) due (if ok then gone else insert ws gone) v"
      using hub_invD(2) [OF inv, of v] ok
      by (auto simp: client_ok_def step fl in_flight_def hub_send_def split: option.splits)
  qed
qed

lemma hub_finish_inv:
  assumes inv: "hub_inv h due gone" and i: "i < length (hub_flights h)" "hub_flights h ! i = (f, [], dead)"
  shows "hub_inv (hub_flight_step i True h) due gone"
proof -
  define as bs where "as = take i (hub_flights h)" and "bs = drop (Suc i) (hub_flights h)"
  have fl: "hub_flights h = as @ (f, [], dead) # bs"
    using id_take_nth_drop [OF i(1)] i(2) by (simp add: as_def bs_def)
  have step: "hub_flight_step i True h = (fold hub_disconnect dead h)\<lparr>hub_flights := as @ bs\<rparr>"
    using i by (simp add: hub_flight_step_def as_def bs_def)
  have ok: "flight_ok due gone (f, [], dead)" by (rule hub_invD(1) [OF inv]) (simp add: fl)
  show ?thesis
  proof (rule hub_invI)
    fix x assume "x \<in> set (hub_flights (hub_flight_step i True h))"
    then have "x \<in> set (hub_flights h)" by (auto simp: step fl)
    then show "flight_ok due gone x" by (rule hub_invD(1) [OF inv])
  next
    fix v
    show "client_ok (hub_flight_step i True h) due gone v"
      using hub_invD(2) [OF inv, of v] ok
      by (auto simp: client_ok_def step fl in_flight_def fold_disconnect split: option.splits)
  qed
qed

lemma hub_run_inv: "hub_run cap h due gone \<Longrightarrow> hub_inv h due gone"
proof (induction rule: hub_run.induct)
  case start
  show ?case by (auto simp: hub_inv_def new_hub_def client_ok_def)
next
  case connect
  then show ?case by (intro hub_connect_inv)
next
  case leave
  then show ?case by (intro hub_leave_inv)
next
  case replay
  then show ?case by (intro hub_replay_inv)
next
  case broadcast
  then show ?case by (intro hub_broadcast_inv)
next
  case serve
  then show ?case by (intro hub_serve_inv)
next
  case finish
  then show ?case by (intro hub_finish_inv)
qed

definition nothing_outstanding :: "hub \<Rightarrow> nat \<Rightarrow> bool" where
  "nothing_outstanding h ws \<longleftrightarrow>
     hub_replay h ws = [] \<and> list_all (\<lambda>(f, rest, dead). ws \<notin> set rest) (hub_flights h)"

lemma nothing_in_flight: "nothing_outstanding h ws \<Longrightarrow> in_flight ws h = {#}"
proof -
  have "list_all (\<lambda>(f, rest, dead). ws \<notin> set rest) xs \<Longrightarrow> (\<Sum>x\<leftarrow>xs. owed_by ws x) = {#}" for xs
    by (induction xs) auto
  then show "nothing_outstanding h ws \<Longrightarrow> in_flight ws h = {#}"
    by (simp add: nothing_outstanding_def in_flight_def)
qed


text \<open>The replay of a new browser is the last frames broadcast, at most as many as configured.\<close>

lemma hub_run_recent: "hub_run cap h due gone \<Longrightarrow> length (hub_recent h) \<le> cap"
  by (induction rule: hub_run.induct)
     (auto simp: new_hub_def hub_connect_def hub_disconnect_def hub_replay_step_def hub_flight_step_def
        hub_send_def fold_disconnect hub_recent.length_items_push split: list.splits prod.splits)

definition ex_hub :: hub where
  "ex_hub = hub_flight_step 0 True (hub_broadcast 50 [1] ''x'' (hub_connect 1 new_hub))"

lemma ex_hub_run: "\<exists>due. hub_run 50 ex_hub due {} \<and> due 1 = Some [''x'']"
proof -
  note connect = hub_run.connect [OF hub_run.start [of 50] refl, of 1]
  have "set [1] = hub_clients (hub_connect 1 new_hub)" by (simp add: hub_connect_def new_hub_def)
  note broadcast = hub_run.broadcast [OF connect this, of "''x''"]
  define due where "due = (\<lambda>ws. if ws \<in> hub_clients (hub_connect 1 new_hub)
        then map_option (\<lambda>fs. fs @ [''x'']) (((\<lambda>_. None)(1 \<mapsto> hub_recent new_hub)) ws)
        else ((\<lambda>_. None)(1 \<mapsto> hub_recent new_hub)) ws)"
  have "hub_run 50 ex_hub due {}"
    unfolding ex_hub_def due_def
    using hub_run.serve [OF broadcast, of 0 "''x''" 1 "[]" "[]" True]
    by (simp add: hub_broadcast_def hub_connect_def new_hub_def)
  moreover have "due 1 = Some [''x'']" by (simp add: due_def hub_connect_def new_hub_def)
  ultimately show ?thesis by blast
qed


end
