(* ===== verification/Dashboard_Api.thy ===== *)
theory Dashboard_Api
  imports Flink_Sinks
begin

section \<open>The dashboard's REST endpoints\<close>

text \<open>
  \<open>dashboard_api/main.py\<close>: the database context, the statistics, the lists of incidents and
  anomalies, the worst anomalies from the sorted set that Flink writes, the log search and the cached
  service names. The databases' answers are parameters.
\<close>

text \<open>An HTTP error with its status, or an exception nobody handles, which the framework answers 500.\<close>

datatype api_error = Http nat string | Unhandled exn

definition exn_name :: "exn \<Rightarrow> string" where
  "exn_name e =
     (case e of RuntimeError m \<Rightarrow> ''RuntimeError: '' @ m | ExternalError m \<Rightarrow> m
      | KeyError \<Rightarrow> ''KeyError'' | TypeError \<Rightarrow> ''TypeError'' | ValueError \<Rightarrow> ''ValueError''
      | IndexError \<Rightarrow> ''IndexError'' | AttributeError \<Rightarrow> ''AttributeError'' | BufferError \<Rightarrow> ''BufferError'')"

definition unavailable :: "string \<Rightarrow> exn \<Rightarrow> api_error" where
  "unavailable what e = Http 503 (what @ '' unavailable: '' @ exn_name e)"

record 'w db_api =
  db_connect :: "('w, unit) prog"
  db_rollback :: "('w, unit) prog"
  db_close :: "('w, unit) prog"

text \<open>\<open>with db() as cur: body\<close>: the transaction is rolled back and the connection closed afterwards.\<close>

definition with_db :: "'w db_api \<Rightarrow> ('w, 'a) prog \<Rightarrow> ('w, 'a) prog" where
  "with_db api body w =
     (case db_connect api w of
        (Inl e, w1) \<Rightarrow> (Inl e, w1)
      | (Inr _, w1) \<Rightarrow>
          (let (r, w2) = body w1
           in case db_rollback api w2 of
                (Inl e, w3) \<Rightarrow> (Inl e, w3)
              | (Inr _, w3) \<Rightarrow> (case db_close api w3 of (Inl e, w4) \<Rightarrow> (Inl e, w4) | (Inr _, w4) \<Rightarrow> (r, w4))))"

text \<open>A failure inside an endpoint's \<open>try\<close> becomes the 503 answer.\<close>

definition or_unavailable :: "string \<Rightarrow> ('w, 'a) prog \<Rightarrow> 'w \<Rightarrow> (api_error + 'a) \<times> 'w" where
  "or_unavailable what p w =
     (case p w of (Inl e, w1) \<Rightarrow> (Inl (unavailable what e), w1) | (Inr x, w1) \<Rightarrow> (Inr x, w1))"

definition or_none :: "('w, 'a) prog \<Rightarrow> 'w \<Rightarrow> 'a option \<times> 'w" where
  "or_none p w = (case p w of (Inl e, w1) \<Rightarrow> (None, w1) | (Inr x, w1) \<Rightarrow> (Some x, w1))"

subsection \<open>Statistics and lists\<close>

record 'w stats_api =
  q_anomalies :: "('w, int) prog"
  q_incidents :: "('w, int) prog"
  q_by_type :: "('w, (string \<times> int) list) prog"
  q_noisiest :: "('w, string option) prog"
  q_topk_size :: "('w, int) prog"
  q_log_count :: "('w, pyval) prog"

record stats =
  st_anomalies :: int
  st_incidents :: int
  st_by_type :: "(string \<times> int) list"
  st_noisiest :: "string option"
  st_topk_size :: "int option"
  st_logs :: "pyval option"

definition stats_endpoint :: "'w db_api \<Rightarrow> 'w stats_api \<Rightarrow> 'w \<Rightarrow> (api_error + stats) \<times> 'w" where
  "stats_endpoint db api w =
     (case or_unavailable ''TimescaleDB''
        (with_db db (bnd (q_anomalies api) (\<lambda>a. bnd (q_incidents api) (\<lambda>i. bnd (q_by_type api) (\<lambda>t.
          bnd (q_noisiest api) (\<lambda>n. ret (a, i, t, n))))))) w of
        (Inl e, w1) \<Rightarrow> (Inl e, w1)
      | (Inr (a, i, t, n), w1) \<Rightarrow>
          (let (k, w2) = or_none (q_topk_size api) w1; (l, w3) = or_none (q_log_count api) w2
           in (Inr \<lparr>st_anomalies = a, st_incidents = i, st_by_type = t, st_noisiest = n, st_topk_size = k,
                   st_logs = l\<rparr>, w3)))"

text \<open>\<open>Query(default, ge=1, le=most)\<close> answers 422 outside the range.\<close>

definition list_endpoint ::
  "int \<Rightarrow> 'w db_api \<Rightarrow> (int \<Rightarrow> ('w, 'r list) prog) \<Rightarrow> int \<Rightarrow> 'w \<Rightarrow> (api_error + 'r list) \<times> 'w" where
  "list_endpoint most db query limit w =
     (if 1 \<le> limit \<and> limit \<le> most then or_unavailable ''TimescaleDB'' (with_db db (query limit)) w
      else (Inl (Http 422 ''limit''), w))"

definition incidents_endpoint ::
  "'w db_api \<Rightarrow> (int \<Rightarrow> ('w, 'r list) prog) \<Rightarrow> int \<Rightarrow> 'w \<Rightarrow> (api_error + 'r list) \<times> 'w" where
  "incidents_endpoint = list_endpoint 200"

definition recent_anomalies_endpoint ::
  "'w db_api \<Rightarrow> (int \<Rightarrow> ('w, 'r list) prog) \<Rightarrow> int \<Rightarrow> 'w \<Rightarrow> (api_error + 'r list) \<times> 'w" where
  "recent_anomalies_endpoint = list_endpoint 500"

subsection \<open>The worst anomalies\<close>

text \<open>\<open>s.split(c)\<close> for a one-character separator.\<close>

fun py_split :: "char \<Rightarrow> string \<Rightarrow> string list" where
  "py_split c [] = [[]]"
| "py_split c (x # xs) =
     (if x = c then [] # py_split c xs
      else case py_split c xs of [] \<Rightarrow> [[x]] | y # ys \<Rightarrow> (x # y) # ys)"

record top_entry =
  te_service :: string
  te_type :: string
  te_detected :: int
  te_score :: real

text \<open>\<open>int_of\<close> is Python's \<open>int(s)\<close>.\<close>

definition parse_member :: "(string \<Rightarrow> exn + int) \<Rightarrow> string \<times> real \<Rightarrow> exn + top_entry" where
  "parse_member int_of row =
     (case row of (member, score) \<Rightarrow>
        (case py_split CHR ''|'' member of
           [sid, ty, moment] \<Rightarrow>
             rbind (int_of moment) (\<lambda>n.
               Inr \<lparr>te_service = sid, te_type = ty, te_detected = n, te_score = py_round 4 score\<rparr>)
         | _ \<Rightarrow> Inl ValueError))"

fun parse_members :: "(string \<Rightarrow> exn + int) \<Rightarrow> (string \<times> real) list \<Rightarrow> exn + top_entry list" where
  "parse_members int_of [] = Inr []"
| "parse_members int_of (r # rs) =
     rbind (parse_member int_of r) (\<lambda>e. rbind (parse_members int_of rs) (\<lambda>es. Inr (e # es)))"

definition top_anomalies ::
  "(string \<Rightarrow> exn + int) \<Rightarrow> (string \<Rightarrow> int \<Rightarrow> int \<Rightarrow> ('w, (string \<times> real) list) prog) \<Rightarrow> int \<Rightarrow> 'w \<Rightarrow>
     (api_error + top_entry list) \<times> 'w" where
  "top_anomalies int_of zrevrange limit w =
     (if 1 \<le> limit \<and> limit \<le> 100
      then case or_unavailable ''Redis'' (zrevrange topk_key 0 (limit - 1)) w of
             (Inl e, w1) \<Rightarrow> (Inl e, w1)
           | (Inr rows, w1) \<Rightarrow>
               (case parse_members int_of rows of
                  Inl e \<Rightarrow> (Inl (Unhandled e), w1) | Inr es \<Rightarrow> (Inr es, w1))
      else (Inl (Http 422 ''limit''), w))"

subsection \<open>The log search\<close>

definition term_filter :: "string \<Rightarrow> string \<Rightarrow> pyval" where
  "term_filter k v = PDict [(''term'', PDict [(k, PStr v)])]"

definition given :: "string option \<Rightarrow> string option" where
  "given p = (case p of None \<Rightarrow> None | Some s \<Rightarrow> if s = [] then None else Some s)"

definition log_search_body ::
  "(string \<Rightarrow> string) \<Rightarrow> string option \<Rightarrow> string option \<Rightarrow> string option \<Rightarrow> int \<Rightarrow> pyval" where
  "log_search_body upper service level q limit =
     (let filters =
        (case given service of None \<Rightarrow> [] | Some s \<Rightarrow> [term_filter ''service_id'' s]) @
        (case given level of None \<Rightarrow> [] | Some l \<Rightarrow> [term_filter ''level'' (upper l)]);
          must = (case given q of
             None \<Rightarrow> PDict [(''match_all'', PDict [])]
           | Some t \<Rightarrow> PDict [(''match'', PDict [(''message'', PStr t)])])
      in PDict [(''size'', PInt limit), (''sort'', PList [PDict [(''timestamp'', PStr ''desc'')]]),
                (''query'', PDict [(''bool'', PDict [(''filter'', PList filters), (''must'', PList [must])])])])"

definition py_item :: "pyval \<Rightarrow> string \<Rightarrow> exn + pyval" where
  "py_item v k = (case v of PDict d \<Rightarrow> dict_item d k | _ \<Rightarrow> Inl TypeError)"

fun sources_of :: "pyval list \<Rightarrow> exn + pyval list" where
  "sources_of [] = Inr []"
| "sources_of (h # hs) = rbind (py_item h ''_source'') (\<lambda>s. rbind (sources_of hs) (\<lambda>ss. Inr (s # ss)))"

definition hits_of :: "pyval \<Rightarrow> exn + pyval list" where
  "hits_of body =
     rbind (py_item body ''hits'') (\<lambda>h. rbind (py_item h ''hits'') (\<lambda>hs.
       rbind (py_iter hs) sources_of))"

text \<open>
  \<open>post\<close> sends the search and raises for a refused one; \<open>decode\<close> is \<open>r.json()\<close>, outside the
  \<open>try\<close>.
\<close>

definition logs_endpoint ::
  "(string \<Rightarrow> string) \<Rightarrow> (pyval \<Rightarrow> ('w, 'b) prog) \<Rightarrow> ('b \<Rightarrow> exn + pyval) \<Rightarrow>
     string option \<Rightarrow> string option \<Rightarrow> string option \<Rightarrow> int \<Rightarrow> 'w \<Rightarrow> (api_error + pyval list) \<times> 'w" where
  "logs_endpoint upper post decode service level q limit w =
     (if 1 \<le> limit \<and> limit \<le> 200
      then case or_unavailable ''Elasticsearch'' (post (log_search_body upper service level q limit)) w of
             (Inl e, w1) \<Rightarrow> (Inl e, w1)
           | (Inr r, w1) \<Rightarrow>
               (case rbind (decode r) hits_of of
                  Inl e \<Rightarrow> (Inl (Unhandled e), w1) | Inr ss \<Rightarrow> (Inr ss, w1))
      else (Inl (Http 422 ''limit''), w))"

subsection \<open>The service names\<close>

record 'r services_cache =
  sc_at :: real
  sc_data :: "'r list"

definition empty_cache :: "'r services_cache" where
  "empty_cache = \<lparr>sc_at = 0, sc_data = []\<rparr>"

text \<open>\<open>now\<close> and \<open>later\<close> are the clock readings before and after the query.\<close>

definition services_endpoint ::
  "('w, 'r list) prog \<Rightarrow> real \<times> real \<Rightarrow> 'r services_cache \<times> 'w \<Rightarrow> (api_error + 'r list) \<times> 'r services_cache \<times> 'w"
where
  "services_endpoint read_services clock s =
     (let (c, w) = s
      in if fst clock - sc_at c < 300 \<and> sc_data c \<noteq> [] then (Inr (sc_data c), c, w)
         else case or_unavailable ''Neo4j'' read_services w of
                (Inl e, w1) \<Rightarrow> (Inl e, c, w1)
              | (Inr d, w1) \<Rightarrow> (Inr d, \<lparr>sc_at = snd clock, sc_data = d\<rparr>, w1))"

subsection \<open>Reading back what Flink wrote\<close>

lemma py_split_nonempty [simp]: "py_split c xs \<noteq> []"
  by (induction c xs rule: py_split.induct) (auto split: list.splits)

lemma py_split_none [simp]: "c \<notin> set xs \<Longrightarrow> py_split c xs = [xs]"
  by (induction xs) auto

lemma py_split_append: "c \<notin> set xs \<Longrightarrow> py_split c (xs @ c # ys) = xs # py_split c ys"
  by (induction xs) auto

lemma length_py_split: "length (py_split c xs) = Suc (count_list xs c)"
proof (induction c xs rule: py_split.induct)
  case (2 c x xs)
  then show ?case by (auto split: list.splits)
qed simp

lemma int_str_no_bar: "CHR ''|'' \<notin> set (int_str n)"
  by (rule int_str_avoids) (simp_all add: is_digit_def)

text \<open>An anomaly as Flink puts it into the sorted set.\<close>

fun topk_row :: "top_entry \<Rightarrow> string \<times> real" where
  "topk_row e = (topk_member (te_service e) (te_type e) (te_detected e), te_score e)"

text \<open>
  C38. The dashboard reads back what Flink wrote: if Redis answers with members that Flink's sink built
  for anomalies whose service and type contain no bar, the endpoint answers exactly these anomalies, in
  Redis' order, with the scores rounded to four digits.
\<close>

theorem top_anomalies_roundtrip:
  assumes int_of: "\<And>n. int_of (int_str n) = Inr n"
    and names: "\<And>e. e \<in> set es \<Longrightarrow> CHR ''|'' \<notin> set (te_service e) \<union> set (te_type e)"
    and redis: "zrevrange topk_key 0 (limit - 1) w = (Inr (map topk_row es), w1)"
    and limit: "1 \<le> limit" "limit \<le> 100"
  shows "top_anomalies int_of zrevrange limit w =
           (Inr (map (\<lambda>e. e\<lparr>te_score := py_round 4 (te_score e)\<rparr>) es), w1)"
proof -
  have "parse_member int_of (topk_row e) = Inr (e\<lparr>te_score := py_round 4 (te_score e)\<rparr>)" if "e \<in> set es" for e
    using names [OF that] by (simp add: parse_member_def topk_member_def py_split_append int_str_no_bar int_of)
  then have "parse_members int_of (map topk_row es) = Inr (map (\<lambda>e. e\<lparr>te_score := py_round 4 (te_score e)\<rparr>) es)"
    by (induction es) auto
  with redis limit show ?thesis by (simp add: top_anomalies_def or_unavailable_def)
qed

definition ex_entry :: top_entry where
  "ex_entry = \<lparr>te_service = ''api'', te_type = ''CPU_SPIKE'', te_detected = 1700, te_score = 1\<rparr>"

text \<open>A reader of decimal numbers, as \<open>int\<close> is on what \<open>str\<close> writes.\<close>

definition ex_int_of :: "string \<Rightarrow> exn + int" where
  "ex_int_of s =
     (let (neg, ds) = (case s of c # cs \<Rightarrow> if c = CHR ''-'' then (True, cs) else (False, s) | [] \<Rightarrow> (False, s))
      in if ds \<noteq> [] \<and> list_all is_digit ds then Inr (if neg then - int (dec_nat ds) else int (dec_nat ds))
         else Inl ValueError)"

lemma ex_int_of_int_str: "ex_int_of (int_str n) = Inr n"
proof (cases "n < 0")
  case True
  with nat_str_digits [of "nat (- n)"] show ?thesis by (simp add: ex_int_of_def int_str_def)
next
  case False
  have "\<not> is_digit CHR ''-''" by (simp add: is_digit_def)
  with False nat_str_digits [of "nat n"] show ?thesis
    by (auto simp: ex_int_of_def int_str_def split: list.splits)
qed

theorem top_anomalies_roundtrip_witness:
  "top_anomalies ex_int_of (\<lambda>k a b w. (Inr [topk_row ex_entry], w)) 10 () = (Inr [ex_entry], ())"
proof -
  have "py_round 4 1 = 1" using py_round_int [of 4 1] by simp
  with top_anomalies_roundtrip [of ex_int_of "[ex_entry]" "\<lambda>k a b w. (Inr [topk_row ex_entry], w)" 10 "()" "()"]
  show ?thesis by (simp add: ex_int_of_int_str ex_entry_def)
qed

text \<open>
  One service with a bar in its name takes the whole list away: as soon as the answer
  of Redis holds one member that Flink's sink built for such a service, the endpoint fails with an
  unhandled \<open>ValueError\<close>, whatever else it holds.
\<close>

theorem bar_breaks_top_anomalies:
  assumes "e \<in> set es" and "CHR ''|'' \<in> set (te_service e)" and "\<And>s x. int_of s = Inl x \<Longrightarrow> x = ValueError"
    and "zrevrange topk_key 0 (limit - 1) w = (Inr (map topk_row es), w1)" and "1 \<le> limit" and "limit \<le> 100"
  shows "top_anomalies int_of zrevrange limit w = (Inl (Unhandled ValueError), w1)"
proof -
  have count: "1 \<le> count_list (te_service e) CHR ''|''"
    using assms(2) count_list_0_iff [of "te_service e" "CHR ''|''"] by linarith
  have "length (py_split CHR ''|'' (fst (topk_row e))) \<noteq> 3"
    using count by (simp add: length_py_split topk_member_def)
  then have bad: "parse_member int_of (topk_row e) = Inl ValueError"
    by (auto simp: parse_member_def split: list.splits)
  have only: "parse_member int_of r = Inl x \<Longrightarrow> x = ValueError" for r x
    using assms(3) by (auto simp: parse_member_def rbind_def split: list.splits sum.splits prod.splits)
  have "parse_members int_of (map topk_row es) = Inl ValueError"
    using assms(1)
  proof (induction es)
    case (Cons a es)
    show ?case
    proof (cases "parse_member int_of (topk_row a)")
      case (Inl x)
      with only show ?thesis by simp
    next
      case (Inr y)
      with bad Cons show ?thesis by auto
    qed
  qed simp
  with assms(4-6) show ?thesis by (simp add: top_anomalies_def or_unavailable_def)
qed

theorem bar_breaks_top_anomalies_witness:
  "top_anomalies ex_int_of (\<lambda>k a b w. (Inr (map topk_row [ex_entry, ex_entry\<lparr>te_service := ''a|b''\<rparr>]), w)) 10 () =
     (Inl (Unhandled ValueError), ())"
  by (rule bar_breaks_top_anomalies [of "ex_entry\<lparr>te_service := ''a|b''\<rparr>" "[ex_entry, ex_entry\<lparr>te_service := ''a|b''\<rparr>]"])
     (simp_all add: ex_int_of_def Let_def split: if_splits list.splits prod.splits)

subsection \<open>Statistics without Redis and Elasticsearch, and the cached names\<close>

text \<open>
  The statistics need the database only: the endpoint fails exactly when the database does, with status
  503, whatever Redis and Elasticsearch do.
\<close>

lemma stats_needs_database:
  "(case stats_endpoint db api w of
      (Inl e, _) \<Rightarrow> \<exists>x. e = unavailable ''TimescaleDB'' x
    | (Inr s, _) \<Rightarrow> \<exists>w1. fst (with_db db (bnd (q_anomalies api) (\<lambda>a. bnd (q_incidents api) (\<lambda>i.
        bnd (q_by_type api) (\<lambda>t. bnd (q_noisiest api) (\<lambda>n. ret (a, i, t, n)))))) w) =
        Inr (st_anomalies s, st_incidents s, st_by_type s, st_noisiest s))"
  by (auto simp: stats_endpoint_def or_unavailable_def Let_def split: prod.splits sum.splits)

text \<open>
  Service names are read at most once in five minutes: after a successful non-empty
  read any call within 300 seconds answers the same names without asking Neo4j, and a failed read
  leaves the cache as it was.
\<close>

theorem services_cached:
  assumes "services_endpoint read clock (c, w) = (Inr d, c1, w1)" and "d \<noteq> []"
    and "fst clock \<le> snd clock" and "fst later < fst clock + 300" and "sc_at c \<le> fst clock"
    and "\<not> (fst clock - sc_at c < 300 \<and> sc_data c \<noteq> [])"
  shows "services_endpoint read2 later (c1, w2) = (Inr d, c1, w2)"
  using assms by (auto simp: services_endpoint_def or_unavailable_def split: prod.splits sum.splits)

theorem services_cached_witness:
  "services_endpoint (\<lambda>w. (Inl KeyError, w)) (400, 401) (\<lparr>sc_at = 301, sc_data = [1 :: nat]\<rparr>, ()) =
     (Inr [1], \<lparr>sc_at = 301, sc_data = [1]\<rparr>, ())"
proof -
  have "services_endpoint (\<lambda>w. (Inr [1 :: nat], w)) (301, 301) (empty_cache, ()) =
      (Inr [1], \<lparr>sc_at = 301, sc_data = [1]\<rparr>, ())"
    by (simp add: services_endpoint_def empty_cache_def or_unavailable_def)
  from services_cached [OF this, of "(400, 401)"] show ?thesis by (simp add: empty_cache_def)
qed

end
