(* ===== verification/Sim_Cascade.thy ===== *)
theory Sim_Cascade
  imports Prelude "HOL-Library.AList"
begin

section \<open>The simulator's dependency map\<close>

text \<open>
  \<open>simulator/services/cascade_map.py\<close>: the random map of dependents and the bounded
  breadth-first search for the services a failure reaches. The random generator is a parameter.
\<close>

type_synonym cascade_map = "(string \<times> string list) list"

definition downstream :: "cascade_map \<Rightarrow> string \<Rightarrow> string list" where
  "downstream cm s = (case map_of cm s of None \<Rightarrow> [] | Some xs \<Rightarrow> xs)"

text \<open>
  \<open>rng_dependents i\<close> is the \<open>i\<close>-th \<open>randint(1, 3)\<close> and \<open>rng_sample i xs k\<close> the \<open>i\<close>-th
  \<open>sample(xs, k)\<close>.
\<close>

record rng =
  rng_dependents :: "nat \<Rightarrow> nat"
  rng_sample :: "nat \<Rightarrow> string list \<Rightarrow> nat \<Rightarrow> string list"

definition add_dependents :: "rng \<Rightarrow> string list \<Rightarrow> nat \<times> string \<Rightarrow> cascade_map \<Rightarrow> cascade_map" where
  "add_dependents g ids entry cm =
     (case entry of (i, sid) \<Rightarrow>
        AList.update sid
          (rng_sample g i (filter (\<lambda>s. s \<noteq> sid) ids) (min (rng_dependents g i) (length ids - 1))) cm)"

definition build_cascade_map :: "rng \<Rightarrow> string list \<Rightarrow> cascade_map" where
  "build_cascade_map g ids = fold (add_dependents g ids) (zip [0..<length ids] ids) []"

lemma downstream_none: "c \<notin> fst ` set cm \<Longrightarrow> downstream cm c = []"
  by (simp add: downstream_def map_of_eq_None_iff [THEN iffD2])

subsection \<open>The search\<close>

function affected_loop ::
  "cascade_map \<Rightarrow> string \<Rightarrow> nat \<Rightarrow> string set \<Rightarrow> string list \<Rightarrow> (string \<times> nat) list \<Rightarrow> string list" where
  "affected_loop cm origin max_depth visited affected [] = affected"
| "affected_loop cm origin max_depth visited affected ((c, d) # queue) =
     (if c \<in> visited \<or> max_depth < d then affected_loop cm origin max_depth visited affected queue
      else affected_loop cm origin max_depth (insert c visited)
             (if c \<noteq> origin then affected @ [c] else affected)
             (queue @ map (\<lambda>x. (x, Suc d)) (filter (\<lambda>x. x \<notin> insert c visited) (downstream cm c))))"
  by pat_completeness auto

termination
proof (relation "measures [\<lambda>(cm, origin, m, visited, a, q). card (fst ` set cm - visited),
    \<lambda>(cm, origin, m, visited, a, q). length q]")
  fix cm :: cascade_map and origin :: string and m :: nat and visited :: "string set"
    and a :: "string list" and c :: string and d :: nat and q :: "(string \<times> nat) list"
  assume new: "\<not> (c \<in> visited \<or> m < d)"
  let ?q = "q @ map (\<lambda>x. (x, Suc d)) (filter (\<lambda>x. x \<notin> insert c visited) (downstream cm c))"
  show "((cm, origin, m, insert c visited, if c \<noteq> origin then a @ [c] else a, ?q),
      (cm, origin, m, visited, a, (c, d) # q)) \<in> measures [\<lambda>(cm, origin, m, visited, a, q).
         card (fst ` set cm - visited), \<lambda>(cm, origin, m, visited, a, q). length q]"
  proof (cases "c \<in> fst ` set cm")
    case True
    have "fst ` set cm - insert c visited \<subset> fst ` set cm - visited" using True new by blast
    then have "card (fst ` set cm - insert c visited) < card (fst ` set cm - visited)"
      by (intro psubset_card_mono) auto
    then show ?thesis by simp
  next
    case False
    then have "fst ` set cm - insert c visited = fst ` set cm - visited" by auto
    then show ?thesis by (simp add: downstream_none [OF False])
  qed
qed simp_all

definition get_affected_services :: "string \<Rightarrow> cascade_map \<Rightarrow> nat \<Rightarrow> string list" where
  "get_affected_services origin cm max_depth = affected_loop cm origin max_depth {} [] [(origin, 0)]"

subsection \<open>The services within reach\<close>

fun hops :: "cascade_map \<Rightarrow> string \<Rightarrow> nat \<Rightarrow> string set" where
  "hops cm origin 0 = {origin}"
| "hops cm origin (Suc n) = (\<Union>x \<in> hops cm origin n. set (downstream cm x))"

text \<open>
  The state of the search with the depth \<open>dep v\<close> at which each service was visited: the queue is in
  order of depth, and a dependent of a visited service is visited, queued or out of reach.
\<close>

definition covered ::
  "nat \<Rightarrow> (string \<Rightarrow> nat) \<Rightarrow> string set \<Rightarrow> (string \<times> nat) set \<Rightarrow> string \<Rightarrow> string \<Rightarrow> bool" where
  "covered m dep visited queue v w \<longleftrightarrow>
     (w \<in> visited \<and> dep w \<le> Suc (dep v)) \<or> (w, Suc (dep v)) \<in> queue \<or> m \<le> dep v"

fun level_ok :: "(string \<times> nat) list \<Rightarrow> bool" where
  "level_ok [] = True"
| "level_ok ((x, d) # q) = ((\<forall>e \<in> set q. d \<le> snd e \<and> snd e \<le> Suc d) \<and> level_ok q)"

definition search_inv ::
  "cascade_map \<Rightarrow> string \<Rightarrow> nat \<Rightarrow> (string \<Rightarrow> nat) \<Rightarrow> string set \<Rightarrow> string list \<Rightarrow> (string \<times> nat) list \<Rightarrow> bool" where
  "search_inv cm origin m dep visited affected queue \<longleftrightarrow>
     set affected = visited - {origin} \<and> distinct affected \<and>
     (\<forall>v \<in> visited. dep v \<le> m \<and> v \<in> hops cm origin (dep v)) \<and>
     (\<forall>e \<in> set queue. fst e \<in> hops cm origin (snd e)) \<and>
     level_ok queue \<and>
     (\<forall>e \<in> set queue. \<forall>v \<in> visited. dep v \<le> snd e) \<and>
     (\<forall>v \<in> visited. \<forall>w \<in> set (downstream cm v). covered m dep visited (set queue) v w) \<and>
     ((origin \<in> visited \<and> dep origin = 0) \<or> (origin, 0) \<in> set queue)"

lemma search_invI:
  assumes "set affected = visited - {origin} \<and> distinct affected"
    and "\<forall>v \<in> visited. dep v \<le> m \<and> v \<in> hops cm origin (dep v)"
    and "\<forall>e \<in> set queue. fst e \<in> hops cm origin (snd e)" and "level_ok queue"
    and "\<forall>e \<in> set queue. \<forall>v \<in> visited. dep v \<le> snd e"
    and "\<And>v w. v \<in> visited \<Longrightarrow> w \<in> set (downstream cm v) \<Longrightarrow> covered m dep visited (set queue) v w"
    and "(origin \<in> visited \<and> dep origin = 0) \<or> (origin, 0) \<in> set queue"
  shows "search_inv cm origin m dep visited affected queue"
  using assms by (simp add: search_inv_def)

lemma search_start: "search_inv cm origin m (\<lambda>_. 0) {} [] [(origin, 0)]"
  by (simp add: search_inv_def)

lemma covered_skip:
  assumes "covered m dep visited (set ((c, d) # queue)) v w" and "c \<in> visited \<or> m < d"
    and "c \<in> visited \<Longrightarrow> dep c \<le> d"
  shows "covered m dep visited (set queue) v w"
  using assms by (auto simp: covered_def)

lemma inv_covered:
  assumes "search_inv cm origin m dep visited affected queue" and "v \<in> visited" and "w \<in> set (downstream cm v)"
  shows "covered m dep visited (set queue) v w"
  using assms by (simp add: search_inv_def)

lemma search_skip:
  assumes inv: "search_inv cm origin m dep visited affected ((c, d) # queue)" and skip: "c \<in> visited \<or> m < d"
  shows "search_inv cm origin m dep visited affected queue"
proof -
  have dep: "c \<in> visited \<Longrightarrow> dep c \<le> d" using inv by (simp add: search_inv_def)
  have "covered m dep visited (set queue) v w" if "v \<in> visited" "w \<in> set (downstream cm v)" for v w
    by (rule covered_skip [OF inv_covered [OF inv that] skip]) (rule dep)
  moreover have "(origin \<in> visited \<and> dep origin = 0) \<or> (origin, 0) \<in> set queue"
    using inv skip dep by (auto simp: search_inv_def)
  ultimately show ?thesis using inv by (simp add: search_inv_def)
qed

lemma level_ok_append:
  assumes "level_ok q" and "\<forall>e \<in> set q. d \<le> snd e \<and> snd e \<le> Suc d"
  shows "level_ok (q @ map (\<lambda>x. (x, Suc d)) xs)"
  using assms
proof (induction q)
  case Nil
  show ?case by (induction xs) auto
next
  case (Cons e q)
  then show ?case by (cases e) auto
qed

lemma covered_visit:
  assumes "covered m dep visited (set ((c, d) # queue)) v w" and "v \<in> visited" and "c \<notin> visited"
    and "\<forall>e \<in> set queue. d \<le> snd e"
  shows "covered m (dep(c := d)) (insert c visited) (set (queue @ new)) v w"
  using assms by (fastforce simp: covered_def)

lemma search_visit:
  assumes inv: "search_inv cm origin m dep visited affected ((c, d) # queue)" and new: "c \<notin> visited" "d \<le> m"
  shows "search_inv cm origin m (dep(c := d)) (insert c visited) (if c \<noteq> origin then affected @ [c] else affected)
    (queue @ map (\<lambda>x. (x, Suc d)) (filter (\<lambda>x. x \<notin> insert c visited) (downstream cm c)))"
    (is "search_inv _ _ _ ?dep ?V ?A (queue @ ?new)")
proof -
  from inv have dep: "\<forall>v \<in> visited. dep v \<le> d" and queue: "\<forall>e \<in> set queue. d \<le> snd e \<and> snd e \<le> Suc d"
    and reach: "c \<in> hops cm origin d" and level: "level_ok queue"
    by (simp_all add: search_inv_def)
  have 1: "set ?A = ?V - {origin} \<and> distinct ?A" using inv new by (auto simp: search_inv_def)
  have 2: "\<forall>v \<in> ?V. ?dep v \<le> m \<and> v \<in> hops cm origin (?dep v)"
    using inv new reach by (auto simp: search_inv_def)
  have 3: "\<forall>e \<in> set (queue @ ?new). fst e \<in> hops cm origin (snd e)"
    using inv reach by (auto simp: search_inv_def)
  have 4: "level_ok (queue @ ?new)" using level_ok_append [OF level queue] .
  have 5: "\<forall>e \<in> set (queue @ ?new). \<forall>v \<in> ?V. ?dep v \<le> snd e"
    using dep queue new(1) by (auto simp: le_Suc_eq)
  have 6: "covered m ?dep ?V (set (queue @ ?new)) v w" if v: "v \<in> ?V" and w: "w \<in> set (downstream cm v)" for v w
  proof (cases "v = c")
    case True
    show ?thesis
    proof (cases "w \<in> ?V")
      case w: True
      with dep have "?dep w \<le> d" by auto
      with w True show ?thesis by (simp add: covered_def)
    next
      case False
      with w True show ?thesis by (auto simp: covered_def)
    qed
  next
    case False
    with v have v: "v \<in> visited" by simp
    with inv w have "covered m dep visited (set ((c, d) # queue)) v w" by (simp add: search_inv_def)
    from covered_visit [OF this v new(1)] queue show ?thesis by blast
  qed
  have 7: "(origin \<in> ?V \<and> ?dep origin = 0) \<or> (origin, 0) \<in> set (queue @ ?new)"
    using inv new(1) unfolding search_inv_def by (auto split: if_splits)
  show ?thesis by (rule search_invI [OF 1 2 3 4 5 6 7])
qed

lemma search_end:
  assumes "search_inv cm origin m dep visited affected []"
  shows "set affected = (\<Union>n \<le> m. hops cm origin n) - {origin} \<and> distinct affected"
proof -
  have reached: "x \<in> visited \<and> dep x \<le> n" if "x \<in> hops cm origin n" "n \<le> m" for x n
    using that
  proof (induction n arbitrary: x)
    case 0
    with assms show ?case by (simp add: search_inv_def)
  next
    case (Suc n)
    then obtain y where y: "y \<in> hops cm origin n" and x: "x \<in> set (downstream cm y)" by auto
    from Suc.IH [OF y] Suc.prems(2) have IH: "y \<in> visited" "dep y \<le> n" by auto
    with assms x have "covered m dep visited {} y x" by (simp add: search_inv_def)
    with IH Suc.prems(2) show ?case by (auto simp: covered_def)
  qed
  have "visited \<subseteq> (\<Union>n \<le> m. hops cm origin n)" using assms unfolding search_inv_def by blast
  moreover have "(\<Union>n \<le> m. hops cm origin n) \<subseteq> visited" using reached by auto
  ultimately show ?thesis using assms by (auto simp: search_inv_def)
qed

lemma affected_loop_correct:
  "search_inv cm origin m dep visited affected queue \<Longrightarrow>
     set (affected_loop cm origin m visited affected queue) = (\<Union>n \<le> m. hops cm origin n) - {origin} \<and>
     distinct (affected_loop cm origin m visited affected queue)"
proof (induction cm origin m visited affected queue arbitrary: dep rule: affected_loop.induct)
  case (1 cm origin m visited affected)
  from search_end [OF "1.prems"] show ?case by simp
next
  case (2 cm origin m visited affected c d queue)
  show ?case
  proof (cases "c \<in> visited \<or> m < d")
    case True
    from "2.IH"(1) [OF True search_skip [OF "2.prems" True]] True show ?thesis by simp
  next
    case False
    then have "c \<notin> visited" "d \<le> m" by auto
    from "2.IH"(2) [OF False search_visit [OF "2.prems" this]] False show ?thesis by simp
  qed
qed

lemma affected_reached:
  "set (get_affected_services origin cm m) = (\<Union>n \<le> m. hops cm origin n) - {origin} \<and>
   distinct (get_affected_services origin cm m)"
  unfolding get_affected_services_def by (rule affected_loop_correct [OF search_start])

text \<open>
  C13. The search finds exactly the services within reach: each service that a failure of the given one
  reaches over at most the given number of dependencies, once, and not the failed service itself, also
  on maps with cycles.
\<close>

theorem affected_services_exact:
  "set (get_affected_services origin cm m) = (\<Union>n \<le> m. hops cm origin n) - {origin} \<and>
   distinct (get_affected_services origin cm m)"
  by (rule affected_reached)

subsection \<open>The map of dependents\<close>

text \<open>\<open>randint\<close> stays within its bounds; \<open>sample\<close> draws \<open>k\<close> different positions.\<close>

definition rng_law :: "rng \<Rightarrow> bool" where
  "rng_law g \<longleftrightarrow>
     (\<forall>i. 1 \<le> rng_dependents g i \<and> rng_dependents g i \<le> 3) \<and>
     (\<forall>i xs k. k \<le> length xs \<longrightarrow> length (rng_sample g i xs k) = k \<and> set (rng_sample g i xs k) \<subseteq> set xs \<and>
        (distinct xs \<longrightarrow> distinct (rng_sample g i xs k)))"

definition dependents_ok :: "string list \<Rightarrow> string \<Rightarrow> string list \<Rightarrow> bool" where
  "dependents_ok ids s ds \<longleftrightarrow>
     length ds \<in> {1..3} \<and> set ds \<subseteq> set ids - {s} \<and> distinct ds"

lemma length_others:
  assumes "distinct ids" and "s \<in> set ids"
  shows "length (filter (\<lambda>x. x \<noteq> s) ids) = length ids - 1"
proof -
  have "length (filter (\<lambda>x. x \<noteq> s) ids) = card (set (filter (\<lambda>x. x \<noteq> s) ids))"
    using assms(1) by (intro distinct_card [symmetric]) simp
  also have "set (filter (\<lambda>x. x \<noteq> s) ids) = set ids - {s}" by auto
  finally show ?thesis using assms by (simp add: distinct_card)
qed

lemma drawn_dependents_ok:
  assumes law: "rng_law g" and ids: "distinct ids" "2 \<le> length ids" "s \<in> set ids"
  shows "dependents_ok ids s (rng_sample g i (filter (\<lambda>x. x \<noteq> s) ids) (min (rng_dependents g i) (length ids - 1)))"
proof -
  let ?k = "min (rng_dependents g i) (length ids - 1)" and ?xs = "filter (\<lambda>x. x \<noteq> s) ids"
  have "?k \<le> length ?xs" using length_others [OF ids(1,3)] by simp
  with law have "length (rng_sample g i ?xs ?k) = ?k" "set (rng_sample g i ?xs ?k) \<subseteq> set ?xs"
    "distinct ?xs \<longrightarrow> distinct (rng_sample g i ?xs ?k)"
    unfolding rng_law_def by blast+
  moreover have "1 \<le> rng_dependents g i \<and> rng_dependents g i \<le> 3" using law by (simp add: rng_law_def)
  ultimately show ?thesis using ids by (auto simp: dependents_ok_def)
qed

lemma add_all_dependents:
  assumes "\<forall>e \<in> set es. \<forall>i. dependents_ok ids (snd e)
      (rng_sample g i (filter (\<lambda>x. x \<noteq> snd e) ids) (min (rng_dependents g i) (length ids - 1)))"
    and "\<forall>s ds. map_of cm s = Some ds \<longrightarrow> dependents_ok ids s ds"
  shows "(\<forall>s ds. map_of (fold (add_dependents g ids) es cm) s = Some ds \<longrightarrow> dependents_ok ids s ds) \<and>
         dom (map_of (fold (add_dependents g ids) es cm)) = dom (map_of cm) \<union> snd ` set es"
  using assms
proof (induction es arbitrary: cm)
  case (Cons e es)
  obtain i s where e: "e = (i, s)" by (cases e) auto
  have new: "map_of (add_dependents g ids e cm) = (map_of cm)(s \<mapsto>
      rng_sample g i (filter (\<lambda>x. x \<noteq> s) ids) (min (rng_dependents g i) (length ids - 1)))"
    by (simp add: add_dependents_def e update_conv')
  have "\<forall>t ds. map_of (add_dependents g ids e cm) t = Some ds \<longrightarrow> dependents_ok ids t ds"
    using Cons.prems by (simp add: new [unfolded e] e)
  with Cons.IH [of "add_dependents g ids e cm"] Cons.prems(1) show ?case by (auto simp: new [unfolded e] e)
qed simp

lemma built_dependents_ok:
  assumes "rng_law g" and "distinct ids" and "2 \<le> length ids" and "s \<in> set ids"
  shows "dependents_ok ids s (downstream (build_cascade_map g ids) s)"
proof -
  let ?es = "zip [0..<length ids] ids"
  have "\<forall>e \<in> set ?es. \<forall>i. dependents_ok ids (snd e)
      (rng_sample g i (filter (\<lambda>x. x \<noteq> snd e) ids) (min (rng_dependents g i) (length ids - 1)))"
    using drawn_dependents_ok [OF assms(1-3)] by (auto dest: set_zip_rightD)
  from add_all_dependents [OF this, of "[]"]
  have ok: "\<forall>s ds. map_of (build_cascade_map g ids) s = Some ds \<longrightarrow> dependents_ok ids s ds"
    and dom: "dom (map_of (build_cascade_map g ids)) = snd ` set ?es"
    by (simp_all add: build_cascade_map_def)
  have "snd ` set ?es = set (map snd ?es)" by (rule set_map [symmetric])
  also have "\<dots> = set ids" by (subst map_snd_zip) simp_all
  finally have "s \<in> dom (map_of (build_cascade_map g ids))" unfolding dom using assms(4) by (rule ssubst)
  then obtain ds where "map_of (build_cascade_map g ids) s = Some ds" by blast
  with ok show ?thesis by (auto simp: downstream_def)
qed

text \<open>
  The dependency map is a map of the services: every service has one to three different dependents,
  all of them services and never itself.
\<close>

theorem cascade_map_well_formed:
  assumes "rng_law g" and "distinct ids" and "2 \<le> length ids" and "s \<in> set ids"
  shows "length (downstream (build_cascade_map g ids) s) \<in> {1..3} \<and>
         set (downstream (build_cascade_map g ids) s) \<subseteq> set ids - {s} \<and>
         distinct (downstream (build_cascade_map g ids) s)"
  using built_dependents_ok [OF assms] by (simp add: dependents_ok_def)

definition ex_rng :: rng where
  "ex_rng = \<lparr>rng_dependents = (\<lambda>i. 2), rng_sample = (\<lambda>i xs k. take k xs)\<rparr>"

lemma ex_rng_law: "rng_law ex_rng"
  by (auto simp: rng_law_def ex_rng_def dest: in_set_takeD)

theorem cascade_map_well_formed_witness:
  "length (downstream (build_cascade_map ex_rng [''a'', ''b'', ''c'']) ''b'') \<in> {1..3} \<and>
   set (downstream (build_cascade_map ex_rng [''a'', ''b'', ''c'']) ''b'') \<subseteq> {''a'', ''c''}"
  using cascade_map_well_formed [OF ex_rng_law, of "[''a'', ''b'', ''c'']" "''b''"] by auto

end
