(* ===== verification/Sim_Publisher.thy ===== *)
theory Sim_Publisher
  imports Prelude
begin

section \<open>The simulator's publishers\<close>

text \<open>
  \<open>simulator/publisher/grpc_publisher.py\<close> and \<open>kafka_publisher.py\<close>. A flush awaits the answer of
  the ingestion service, and other coroutines run meanwhile, so a flush in progress is part of the
  state and its answers are separate steps. The client-side Bloom filter and the transports are
  parameters.
\<close>

definition grpc_batch_max :: nat where
  "grpc_batch_max = 200"

definition send_attempts :: nat where
  "send_attempts = 3"

record ('b, 'k) filter_ops =
  fo_contains :: "'k \<Rightarrow> 'b \<Rightarrow> bool"
  fo_add :: "'k \<Rightarrow> 'b \<Rightarrow> 'b"

text \<open>\<open>gp_flights\<close> are the flushes awaiting an answer: their batch and the attempt they are at.\<close>

record ('b, 'sp) grpc_publisher =
  gp_bloom :: 'b
  gp_buffer :: "'sp list"
  gp_started :: bool
  gp_flights :: "('sp list \<times> nat) list"
  gp_sent :: nat
  gp_accepted :: nat
  gp_dropped :: nat
  gp_duplicates :: nat
  gp_batches :: nat
  gp_last_error :: real
  gp_error_lines :: nat

definition new_grpc_publisher :: "'b \<Rightarrow> ('b, 'sp) grpc_publisher" where
  "new_grpc_publisher bloom =
     \<lparr>gp_bloom = bloom, gp_buffer = [], gp_started = False, gp_flights = [], gp_sent = 0, gp_accepted = 0,
      gp_dropped = 0, gp_duplicates = 0, gp_batches = 0, gp_last_error = 0, gp_error_lines = 0\<rparr>"

definition grpc_log_error :: "real \<Rightarrow> ('b, 'sp) grpc_publisher \<Rightarrow> ('b, 'sp) grpc_publisher" where
  "grpc_log_error now s =
     (if now - gp_last_error s > 10
      then s\<lparr>gp_last_error := now, gp_error_lines := Suc (gp_error_lines s)\<rparr> else s)"

text \<open>\<open>start\<close>, given whether the channel got ready in time.\<close>

definition grpc_start :: "bool \<Rightarrow> (('b, 'sp) grpc_publisher, unit) prog" where
  "grpc_start ready s =
     (if ready then (Inr (), s\<lparr>gp_started := True\<rparr>)
      else (Inl (RuntimeError ''Ingestion service not reachable''), s))"

text \<open>The swap at the beginning of \<open>_flush\<close>.\<close>

definition flush_begin :: "('b, 'sp) grpc_publisher \<Rightarrow> ('b, 'sp) grpc_publisher" where
  "flush_begin s =
     (if gp_buffer s = [] then s
      else s\<lparr>gp_buffer := [], gp_flights := gp_flights s @ [(gp_buffer s, 1)]\<rparr>)"

text \<open>\<open>publish\<close> up to the first await; \<open>key\<close> is the span id, \<open>None\<close> if missing or empty.\<close>

definition grpc_publish ::
  "('b, 'k) filter_ops \<Rightarrow> 'k option \<Rightarrow> 'sp \<Rightarrow> (('b, 'sp) grpc_publisher, unit) prog" where
  "grpc_publish ops key sp s =
     (if \<not> gp_started s then (Inl (RuntimeError ''Publisher not started. Call start() first.''), s)
      else case key of
             Some k \<Rightarrow>
               if fo_contains ops k (gp_bloom s) then (Inr (), s\<lparr>gp_duplicates := Suc (gp_duplicates s)\<rparr>)
               else let t = s\<lparr>gp_bloom := fo_add ops k (gp_bloom s), gp_buffer := gp_buffer s @ [sp]\<rparr>
                    in (Inr (), if grpc_batch_max \<le> length (gp_buffer t) then flush_begin t else t)
           | None \<Rightarrow>
               let t = s\<lparr>gp_buffer := gp_buffer s @ [sp]\<rparr>
               in (Inr (), if grpc_batch_max \<le> length (gp_buffer t) then flush_begin t else t))"

text \<open>An answer: the accepted count and the success flag, or the \<open>AioRpcError\<close>.\<close>

type_synonym rpc_answer = "(nat \<times> bool) option"

definition drop_nth :: "nat \<Rightarrow> 'a list \<Rightarrow> 'a list" where
  "drop_nth i xs = take i xs @ drop (Suc i) xs"

text \<open>What the loop of \<open>_flush\<close> does with the answer to the \<open>i\<close>-th flush.\<close>

definition flush_answer ::
  "real \<Rightarrow> rpc_answer \<Rightarrow> nat \<Rightarrow> ('b, 'sp) grpc_publisher \<Rightarrow> ('b, 'sp) grpc_publisher" where
  "flush_answer now answer i s =
     (case gp_flights s ! i of
        (batch, attempt) \<Rightarrow>
          (case answer of
             None \<Rightarrow>
               if attempt = send_attempts
               then grpc_log_error now
                      (s\<lparr>gp_flights := drop_nth i (gp_flights s), gp_dropped := gp_dropped s + length batch\<rparr>)
               else s\<lparr>gp_flights := (gp_flights s)[i := (batch, Suc attempt)]\<rparr>
           | Some (accepted, success) \<Rightarrow>
               (let t = s\<lparr>gp_flights := drop_nth i (gp_flights s), gp_sent := gp_sent s + length batch,
                          gp_accepted := gp_accepted s + accepted, gp_batches := Suc (gp_batches s)\<rparr>
                in if success then t else grpc_log_error now t)))"

text \<open>The task of the \<open>i\<close>-th flush is cancelled while it awaits: the batch is gone.\<close>

definition flush_cancel :: "nat \<Rightarrow> ('b, 'sp) grpc_publisher \<Rightarrow> ('b, 'sp) grpc_publisher" where
  "flush_cancel i s = s\<lparr>gp_flights := drop_nth i (gp_flights s)\<rparr>"

subsection \<open>The direct publisher\<close>

record 'b kafka_publisher =
  kp_bloom :: 'b
  kp_started :: bool
  kp_published :: nat
  kp_duplicates :: nat

definition kafka_publish ::
  "('b, 'k) filter_ops \<Rightarrow> ('w, unit) prog \<Rightarrow> 'k option \<Rightarrow> ('b kafka_publisher \<times> 'w, unit) prog" where
  "kafka_publish ops send key sw =
     (case sw of (s, w) \<Rightarrow>
        if \<not> kp_started s then (Inl (RuntimeError ''Publisher not started. Call start() first.''), (s, w))
        else if (case key of Some k \<Rightarrow> fo_contains ops k (kp_bloom s) | None \<Rightarrow> False)
        then (Inr (), (s\<lparr>kp_duplicates := Suc (kp_duplicates s)\<rparr>, w))
        else let t = (case key of Some k \<Rightarrow> s\<lparr>kp_bloom := fo_add ops k (kp_bloom s)\<rparr> | None \<Rightarrow> s)
             in case send w of
                  (Inl e, w1) \<Rightarrow> (Inl e, (t, w1))
                | (Inr _, w1) \<Rightarrow> (Inr (), (t\<lparr>kp_published := Suc (kp_published t)\<rparr>, w1)))"

datatype publish_mode = Grpc | Kafka

definition create_publisher :: "string \<Rightarrow> exn + publish_mode" where
  "create_publisher setting =
     (if setting = ''kafka'' then Inr Kafka else if setting = ''grpc'' then Inr Grpc else Inl ValueError)"

subsection \<open>Runs of the gRPC publisher\<close>

text \<open>
  The states reachable from a started publisher, with the number of spans published, how many of them
  were lost by cancellation, and the answers so far. Flushes begin, are answered and are
  cancelled in any order.
\<close>

inductive publisher_run ::
  "('b, 'k) filter_ops \<Rightarrow> 'b \<Rightarrow> ('b, 'sp) grpc_publisher \<Rightarrow> nat \<Rightarrow> nat \<Rightarrow> bool" for ops bloom where
  started: "publisher_run ops bloom ((new_grpc_publisher bloom)\<lparr>gp_started := True\<rparr>) 0 0"
| publish: "publisher_run ops bloom s n lost \<Longrightarrow> grpc_publish ops key sp s = (Inr (), t) \<Longrightarrow>
     publisher_run ops bloom t (Suc n) lost"
| linger: "publisher_run ops bloom s n lost \<Longrightarrow> publisher_run ops bloom (flush_begin s) n lost"
| answer: "publisher_run ops bloom s n lost \<Longrightarrow> i < length (gp_flights s) \<Longrightarrow>
     (\<And>a ok. ans = Some (a, ok) \<Longrightarrow> a \<le> length (fst (gp_flights s ! i))) \<Longrightarrow>
     publisher_run ops bloom (flush_answer now ans i s) n lost"
| cancel: "publisher_run ops bloom s n lost \<Longrightarrow> i < length (gp_flights s) \<Longrightarrow>
     publisher_run ops bloom (flush_cancel i s) n (lost + length (fst (gp_flights s ! i)))"

subsection \<open>Every span is accounted for\<close>

definition in_progress :: "('b, 'sp) grpc_publisher \<Rightarrow> nat" where
  "in_progress s = length (gp_buffer s) + (\<Sum>f\<leftarrow>gp_flights s. length (fst f))"

lemma sum_drop_nth:
  fixes f :: "'a \<Rightarrow> nat"
  assumes "i < length xs"
  shows "sum_list (map f xs) = f (xs ! i) + sum_list (map f (drop_nth i xs))"
  by (subst id_take_nth_drop [OF assms]) (simp add: drop_nth_def)

lemma sum_list_upd_same:
  fixes f :: "'a \<Rightarrow> nat"
  assumes "i < length xs" and "f y = f (xs ! i)"
  shows "sum_list (map f (xs[i := y])) = sum_list (map f xs)"
  using assms by (metis list_update_id map_update)

lemma log_error_simps [simp]:
  "gp_buffer (grpc_log_error now s) = gp_buffer s" "gp_flights (grpc_log_error now s) = gp_flights s"
  "gp_sent (grpc_log_error now s) = gp_sent s" "gp_accepted (grpc_log_error now s) = gp_accepted s"
  "gp_dropped (grpc_log_error now s) = gp_dropped s" "gp_duplicates (grpc_log_error now s) = gp_duplicates s"
  by (simp_all add: grpc_log_error_def)

definition balanced :: "('b, 'sp) grpc_publisher \<Rightarrow> nat \<Rightarrow> nat \<Rightarrow> bool" where
  "balanced s n lost \<longleftrightarrow>
     n = gp_duplicates s + in_progress s + gp_sent s + gp_dropped s + lost \<and>
     gp_accepted s \<le> gp_sent s \<and> length (gp_buffer s) < grpc_batch_max \<and>
     (\<forall>f \<in> set (gp_flights s). fst f \<noteq> [] \<and> snd f \<in> {1..send_attempts})"

lemma flush_begin_accounted:
  assumes "n = gp_duplicates s + in_progress s + gp_sent s + gp_dropped s + lost" and "gp_accepted s \<le> gp_sent s"
    and "\<forall>f \<in> set (gp_flights s). fst f \<noteq> [] \<and> snd f \<in> {1..send_attempts}"
  shows "balanced (flush_begin s) n lost"
  using assms by (auto simp: balanced_def flush_begin_def in_progress_def send_attempts_def grpc_batch_max_def)

lemma publish_accounted:
  assumes "balanced s n lost" and "grpc_publish ops key sp s = (Inr (), t)"
  shows "balanced t (Suc n) lost"
proof (cases "\<exists>k. key = Some k \<and> fo_contains ops k (gp_bloom s)")
  case True
  with assms show ?thesis by (auto simp: balanced_def grpc_publish_def in_progress_def split: if_splits)
next
  case False
  define u where "u = s\<lparr>gp_bloom := (case key of Some k \<Rightarrow> fo_add ops k (gp_bloom s) | None \<Rightarrow> gp_bloom s),
      gp_buffer := gp_buffer s @ [sp]\<rparr>"
  have t: "t = (if grpc_batch_max \<le> length (gp_buffer u) then flush_begin u else u)"
    using assms(2) False by (auto simp: grpc_publish_def u_def Let_def split: option.splits if_splits)
  have u: "Suc n = gp_duplicates u + in_progress u + gp_sent u + gp_dropped u + lost \<and>
      gp_accepted u \<le> gp_sent u \<and> (\<forall>f \<in> set (gp_flights u). fst f \<noteq> [] \<and> snd f \<in> {1..send_attempts})"
    using assms(1) by (simp add: balanced_def u_def in_progress_def)
  then have "balanced (flush_begin u) (Suc n) lost" by (intro flush_begin_accounted) auto
  with u show ?thesis unfolding t by (simp add: balanced_def)
qed

lemma in_drop_nth: "x \<in> set (drop_nth i xs) \<Longrightarrow> x \<in> set xs"
  by (auto simp: drop_nth_def dest: in_set_takeD in_set_dropD)

lemma answer_accounted:
  assumes "balanced s n lost" and i: "i < length (gp_flights s)"
    and "\<And>a ok. ans = Some (a, ok) \<Longrightarrow> a \<le> length (fst (gp_flights s ! i))"
  shows "balanced (flush_answer now ans i s) n lost"
proof -
  obtain batch attempt where f: "gp_flights s ! i = (batch, attempt)" by fastforce
  have sum: "(\<Sum>f\<leftarrow>gp_flights s. length (fst f)) = length batch + (\<Sum>f\<leftarrow>drop_nth i (gp_flights s). length (fst f))"
    using sum_drop_nth [OF i, of "\<lambda>f. length (fst f)"] by (simp add: f)
  have upd: "(\<Sum>f\<leftarrow>(gp_flights s)[i := (batch, Suc attempt)]. length (fst f)) = (\<Sum>f\<leftarrow>gp_flights s. length (fst f))"
    by (rule sum_list_upd_same [OF i]) (simp add: f)
  have "(batch, attempt) \<in> set (gp_flights s)" using i f by (metis nth_mem)
  with assms(1) have at: "batch \<noteq> []" "attempt \<in> {1..send_attempts}" by (auto simp: balanced_def)
  show ?thesis
  proof (cases ans)
    case None
    with assms(1) at show ?thesis
      by (auto simp: flush_answer_def f balanced_def in_progress_def sum upd
          dest: in_drop_nth set_update_subset_insert [THEN subsetD])
  next
    case (Some r)
    obtain a ok where r: "r = (a, ok)" by fastforce
    with Some assms(3) f have "a \<le> length batch" by simp
    with assms(1) show ?thesis
      by (auto simp: flush_answer_def f Some r balanced_def in_progress_def sum Let_def dest: in_drop_nth)
  qed
qed

lemma cancel_accounted:
  assumes "balanced s n lost" and i: "i < length (gp_flights s)"
  shows "balanced (flush_cancel i s) n (lost + length (fst (gp_flights s ! i)))"
  using assms(1) sum_drop_nth [OF i, of "\<lambda>f. length (fst f)"]
  by (auto simp: balanced_def flush_cancel_def in_progress_def dest: in_drop_nth)

text \<open>
  C17. No span vanishes while the simulator runs: in any interleaving of publishes, flushes, answers and
  failures every span published is a duplicate, still buffered or in flight, sent, or counted as dropped
  after three attempts, except those of flushes that were cancelled; the buffer stays below the batch
  size and no more spans count as accepted than as sent.
\<close>

theorem spans_accounted:
  assumes "publisher_run ops bloom s n lost"
  shows "n = gp_duplicates s + in_progress s + gp_sent s + gp_dropped s + lost \<and>
         gp_accepted s \<le> gp_sent s \<and> length (gp_buffer s) < grpc_batch_max"
proof -
  from assms have "balanced s n lost"
  proof (induction rule: publisher_run.induct)
    case started
    show ?case by (simp add: balanced_def new_grpc_publisher_def in_progress_def grpc_batch_max_def)
  next
    case publish
    then show ?case by (intro publish_accounted)
  next
    case linger
    then show ?case by (intro flush_begin_accounted) (auto simp: balanced_def)
  next
    case answer
    then show ?case by (intro answer_accounted)
  next
    case cancel
    then show ?case by (intro cancel_accounted)
  qed
  then show ?thesis by (simp add: balanced_def)
qed

definition ex_ops :: "(nat list, nat) filter_ops" where
  "ex_ops = \<lparr>fo_contains = (\<lambda>k b. k \<in> set b), fo_add = Cons\<rparr>"

lemma ex_publisher_run:
  "publisher_run ex_ops [] (((new_grpc_publisher [])\<lparr>gp_started := True, gp_bloom := [7], gp_buffer := [''span'']\<rparr>)) 1 0"
  using publisher_run.publish [OF publisher_run.started [of ex_ops "[]"], of "Some 7" "''span''"]
  by (simp add: grpc_publish_def ex_ops_def new_grpc_publisher_def Let_def grpc_batch_max_def)

theorem spans_accounted_witness:
  "gp_accepted (flush_begin ((new_grpc_publisher [])\<lparr>gp_started := True, gp_bloom := [7 :: nat], gp_buffer := [''span'']\<rparr>)) \<le>
   gp_sent (flush_begin ((new_grpc_publisher [])\<lparr>gp_started := True, gp_bloom := [7 :: nat], gp_buffer := [''span'']\<rparr>))"
  using spans_accounted [OF publisher_run.linger [OF ex_publisher_run]] by blast

text \<open>
  Stopping loses what is in flight: a span that was published and whose flush is awaiting its answer when
  the tasks are cancelled is neither sent nor counted as dropped, nor in the buffer that \<open>stop\<close> flushes.
\<close>

theorem stop_loses_batch_in_flight:
  "\<exists>s :: (nat list, string) grpc_publisher. publisher_run ex_ops [] s 1 1 \<and> gp_sent s = 0 \<and> gp_dropped s = 0 \<and>
     gp_duplicates s = 0 \<and> gp_buffer s = [] \<and> gp_flights s = []"
proof -
  let ?s = "flush_begin ((new_grpc_publisher [])\<lparr>gp_started := True, gp_bloom := [7], gp_buffer := [''span'']\<rparr>)"
  have "publisher_run ex_ops [] ?s 1 0" by (rule publisher_run.linger [OF ex_publisher_run])
  from publisher_run.cancel [OF this, of 0] have "publisher_run ex_ops [] (flush_cancel 0 ?s) 1 1"
    by (simp add: flush_begin_def new_grpc_publisher_def)
  then show ?thesis
    by (intro exI [of _ "flush_cancel 0 ?s"])
       (simp add: flush_cancel_def flush_begin_def new_grpc_publisher_def drop_nth_def)
qed

end
