(* ===== verification/Simulator.thy ===== *)
theory Simulator
  imports Sim_Cascade Ingestion
begin

section \<open>The telemetry simulator\<close>

text \<open>
  \<open>simulator/services/base_service.py\<close>, \<open>service_registry.py\<close>, \<open>generators/\<close> and the service loop of
  \<open>main.py\<close>: the registry, the metric generator with its memory, injected anomalies, spans, and one
  round of a service with its cascade. Random draws, \<open>md5\<close>, \<open>uuid4\<close> and the clock are parameters.
\<close>

subsection \<open>Services and their registry\<close>

record service_config =
  cf_id :: string
  cf_name :: string
  cf_tier :: string
  cf_team :: string
  cf_cpu :: real
  cf_latency :: real
  cf_error :: real
  cf_requests :: real

text \<open>The generator's memory is absent until the first call.\<close>

record sim_memory =
  me_tick :: nat
  me_load :: real
  me_cpu :: real
  me_latency :: real
  me_error :: real
  me_requests :: real

type_synonym service = "service_config \<times> sim_memory option"

definition service_tiers :: "string list" where
  "service_tiers = [''frontend'', ''backend'', ''database'', ''cache'', ''gateway'']"

definition service_teams :: "string list" where
  "service_teams = [''payments'', ''orders'', ''inventory'', ''auth'', ''search'', ''infra'']"

definition num_services :: nat where
  "num_services = 100"

definition service_names :: "string list" where
  "service_names =
    [''api-gateway'', ''auth-service'', ''user-service'', ''payment-service'', ''order-service'',
     ''inventory-service'', ''cart-service'', ''checkout-service'', ''notification-service'', ''email-service'',
     ''sms-service'', ''search-service'', ''recommendation-service'', ''pricing-service'', ''discount-service'',
     ''shipping-service'', ''tracking-service'', ''warehouse-service'', ''supplier-service'', ''catalog-service'',
     ''review-service'', ''rating-service'', ''media-service'', ''upload-service'', ''cdn-service'',
     ''cache-service'', ''session-service'', ''token-service'', ''oauth-service'', ''profile-service'',
     ''address-service'', ''billing-service'', ''invoice-service'', ''tax-service'', ''currency-service'',
     ''fraud-service'', ''risk-service'', ''kyc-service'', ''reporting-service'', ''analytics-service'',
     ''metrics-service'', ''logging-service'', ''audit-service'', ''config-service'', ''feature-flag-service'',
     ''ab-test-service'', ''experiment-service'', ''ml-service'', ''inference-service'', ''training-service'',
     ''data-pipeline'', ''etl-service'', ''stream-processor'', ''batch-processor'', ''scheduler-service'',
     ''job-service'', ''worker-service'', ''queue-service'', ''event-bus'', ''pubsub-service'',
     ''webhook-service'', ''integration-service'', ''crm-service'', ''erp-service'', ''support-service'',
     ''chat-service'', ''feed-service'', ''timeline-service'', ''social-service'', ''follow-service'',
     ''like-service'', ''comment-service'', ''share-service'', ''post-service'', ''story-service'',
     ''live-service'', ''video-service'', ''audio-service'', ''transcoding-service'', ''thumbnail-service'',
     ''ocr-service'', ''vision-service'', ''nlp-service'', ''translation-service'', ''sentiment-service'',
     ''classification-service'', ''matching-service'', ''scoring-service'', ''ranking-service'', ''filter-service'',
     ''moderation-service'', ''compliance-service'', ''legal-service'', ''gdpr-service'', ''backup-service'',
     ''restore-service'', ''archive-service'', ''purge-service'', ''health-service'', ''readiness-service'',
     ''liveness-service'', ''monitor-service'']"

text \<open>
  The draws for the \<open>i\<close>-th service: positions of the choices and numbers in the unit interval;
  \<open>between\<close> is \<open>random.uniform\<close>.
\<close>

record registry_draws =
  rd_tier :: "nat \<Rightarrow> nat"
  rd_team :: "nat \<Rightarrow> nat"
  rd_unit :: "nat \<Rightarrow> nat \<Rightarrow> real"

definition between_draw :: "real \<Rightarrow> real \<Rightarrow> real \<Rightarrow> real" where
  "between_draw lo hi u = lo + (hi - lo) * u"

definition service_id_of :: "(string \<Rightarrow> string) \<Rightarrow> string \<Rightarrow> string" where
  "service_id_of md5 name = ''svc-'' @ take 8 (md5 name)"

definition config_of :: "(string \<Rightarrow> string) \<Rightarrow> registry_draws \<Rightarrow> nat \<Rightarrow> string \<Rightarrow> service_config" where
  "config_of md5 dr i name =
     \<lparr>cf_id = service_id_of md5 name, cf_name = name,
      cf_tier = service_tiers ! rd_tier dr i, cf_team = service_teams ! rd_team dr i,
      cf_cpu = between_draw 10 60 (rd_unit dr i 0), cf_latency = between_draw 20 200 (rd_unit dr i 1),
      cf_error = between_draw (1 / 1000) (5 / 100) (rd_unit dr i 2),
      cf_requests = between_draw 50 500 (rd_unit dr i 3)\<rparr>"

definition build_registry :: "(string \<Rightarrow> string) \<Rightarrow> registry_draws \<Rightarrow> (string \<times> service) list" where
  "build_registry md5 dr =
     fold (\<lambda>(i, name). AList.update (service_id_of md5 name) (config_of md5 dr i name, None))
       (zip [0..<num_services] (take num_services service_names)) []"

subsection \<open>Metrics\<close>

record sim_metrics =
  mt_cpu :: real
  mt_latency :: real
  mt_error :: real
  mt_requests :: real

definition autocorr :: real where
  "autocorr = 9 / 10"

text \<open>One step of the autoregressive series; \<open>z\<close> is a standard normal draw.\<close>

definition step_ar1 :: "real \<Rightarrow> real \<Rightarrow> real \<Rightarrow> real" where
  "step_ar1 z prev scale = autocorr * prev + sqrt (1 - autocorr ^ 2) * scale * z"

definition init_memory :: sim_memory where
  "init_memory = \<lparr>me_tick = 0, me_load = 0, me_cpu = 0, me_latency = 0, me_error = 0, me_requests = 0\<rparr>"

definition advance :: "(nat \<Rightarrow> real) \<Rightarrow> service_config \<Rightarrow> sim_memory \<Rightarrow> sim_memory" where
  "advance z cfg m =
     \<lparr>me_tick = Suc (me_tick m), me_load = step_ar1 (z 0) (me_load m) 1,
      me_cpu = step_ar1 (z 1) (me_cpu m) (cf_cpu cfg * 5 / 100),
      me_latency = step_ar1 (z 2) (me_latency m) (cf_latency cfg * 8 / 100),
      me_error = step_ar1 (z 3) (me_error m) (cf_error cfg / 10),
      me_requests = step_ar1 (z 4) (me_requests m) (cf_requests cfg * 5 / 100)\<rparr>"

definition metrics_at :: "service_config \<Rightarrow> sim_memory \<Rightarrow> sim_metrics" where
  "metrics_at cfg m =
     (let seasonal = 3 / 10 * sin (2 * pi * real (me_tick m) / 500);
          load = seasonal + me_load m / 2
      in \<lparr>mt_cpu = py_round 4 (max 0 (min 100 (cf_cpu cfg * (1 + 2 / 10 * load) + me_cpu m))),
          mt_latency = py_round 4 (max 0 (cf_latency cfg * (1 + 25 / 100 * load) + me_latency m)),
          mt_error = py_round 6 (max 0 (min 1 (cf_error cfg * (1 + 4 / 10 * load) + me_error m))),
          mt_requests = py_round 4 (max 0 (cf_requests cfg * (1 + 2 / 10 * load) + me_requests m))\<rparr>)"

definition generate_metrics :: "(nat \<Rightarrow> real) \<Rightarrow> service \<Rightarrow> sim_metrics \<times> service" where
  "generate_metrics z svc =
     (case svc of (cfg, mem) \<Rightarrow>
        (let m = advance z cfg (case mem of None \<Rightarrow> init_memory | Some m \<Rightarrow> m)
         in (metrics_at cfg m, (cfg, Some m))))"

definition anomaly_types :: "string list" where
  "anomaly_types = [''CPU_SPIKE'', ''LATENCY_BURST'', ''ERROR_RATE_SPIKE'', ''REQUEST_DROP'']"

definition inject_anomaly :: "real \<Rightarrow> sim_metrics \<Rightarrow> string \<Rightarrow> sim_metrics" where
  "inject_anomaly u m ty =
     (if ty = ''CPU_SPIKE'' then m\<lparr>mt_cpu := min 100 (mt_cpu m * between_draw (25 / 10) 4 u)\<rparr>
      else if ty = ''LATENCY_BURST'' then m\<lparr>mt_latency := mt_latency m * between_draw 5 15 u\<rparr>
      else if ty = ''ERROR_RATE_SPIKE'' then m\<lparr>mt_error := min 1 (mt_error m * between_draw 10 50 u)\<rparr>
      else if ty = ''REQUEST_DROP'' then m\<lparr>mt_requests := mt_requests m * between_draw (5 / 100) (2 / 10) u\<rparr>
      else m)"

text \<open>The draws of one emission.\<close>

record emission =
  em_normal :: "nat \<Rightarrow> real"
  em_decide :: real
  em_kind :: nat
  em_amount :: real
  em_trace_uuid :: string
  em_span_uuid :: string
  em_time :: real

definition maybe_inject :: "emission \<Rightarrow> sim_metrics \<Rightarrow> real \<Rightarrow> sim_metrics \<times> string option" where
  "maybe_inject e m probability =
     (if em_decide e < probability
      then let ty = anomaly_types ! em_kind e in (inject_anomaly (em_amount e) m ty, Some ty)
      else (m, None))"

subsection \<open>Spans\<close>

record sim_span =
  ss_trace_id :: string
  ss_span_id :: string
  ss_service_id :: string
  ss_timestamp :: int
  ss_metrics :: sim_metrics
  ss_anomaly_type :: "string option"
  ss_is_anomaly :: bool

definition hex_of :: "string \<Rightarrow> string" where
  "hex_of uuid = filter (\<lambda>c. c \<noteq> CHR ''-'') uuid"

definition generate_span :: "emission \<Rightarrow> string \<Rightarrow> sim_metrics \<Rightarrow> string option \<Rightarrow> sim_span" where
  "generate_span e sid m ty =
     \<lparr>ss_trace_id = hex_of (em_trace_uuid e), ss_span_id = take 16 (hex_of (em_span_uuid e)),
      ss_service_id = sid, ss_timestamp = \<lfloor>em_time e * 1000\<rfloor>, ss_metrics = m, ss_anomaly_type = ty,
      ss_is_anomaly = (ty \<noteq> None)\<rparr>"

definition metric_items :: "sim_metrics \<Rightarrow> (string \<times> real) list" where
  "metric_items m =
     [(''cpu_percent'', mt_cpu m), (''latency_p99'', mt_latency m), (''error_rate'', mt_error m),
      (''request_rate'', mt_requests m)]"

text \<open>\<open>to_proto_span\<close> of the gRPC publisher.\<close>

definition to_proto_span :: "sim_span \<Rightarrow> proto_span" where
  "to_proto_span sp =
     \<lparr>ps_trace_id = ss_trace_id sp, ps_span_id = ss_span_id sp, ps_service_id = ss_service_id sp,
      ps_timestamp = ss_timestamp sp,
      ps_anomaly_type = (case ss_anomaly_type sp of None \<Rightarrow> [] | Some t \<Rightarrow> t),
      ps_is_anomaly = ss_is_anomaly sp, ps_metrics = metric_items (ss_metrics sp)\<rparr>"

subsection \<open>One round of a service\<close>

record 'p sim =
  sm_services :: "string \<Rightarrow> service option"
  sm_publisher :: 'p

definition publish_with :: "(sim_span \<Rightarrow> string \<Rightarrow> ('p, unit) prog) \<Rightarrow> sim_span \<Rightarrow> string \<Rightarrow> ('p sim, unit) prog" where
  "publish_with publish sp sid s =
     (let (r, p) = publish sp sid (sm_publisher s) in (r, s\<lparr>sm_publisher := p\<rparr>))"

definition anomaly_probability :: real where
  "anomaly_probability = 5 / 100"

definition cascade_probability :: real where
  "cascade_probability = 3 / 10"

definition affected_probability :: real where
  "affected_probability = 8 / 10"

text \<open>The cascade: every affected service that is registered emits a span of its own, labelled as a cascade.\<close>

fun emit_cascade ::
  "(sim_span \<Rightarrow> string \<Rightarrow> ('p, unit) prog) \<Rightarrow> (nat \<Rightarrow> emission) \<Rightarrow> nat \<Rightarrow> string list \<Rightarrow> ('p sim, unit) prog" where
  "emit_cascade publish em i [] s = (Inr (), s)"
| "emit_cascade publish em i (a # as) s =
     (case sm_services s a of
        None \<Rightarrow> emit_cascade publish em (Suc i) as s
      | Some svc \<Rightarrow>
          (let (m, svc1) = generate_metrics (em_normal (em i)) svc;
               (m1, _) = maybe_inject (em i) m affected_probability;
               t = s\<lparr>sm_services := (sm_services s)(a \<mapsto> svc1)\<rparr>
           in case publish_with publish (generate_span (em i) a m1 (Some ''CASCADE'')) a t of
                (Inl e, u) \<Rightarrow> (Inl e, u)
              | (Inr _, u) \<Rightarrow> emit_cascade publish em (Suc i) as u))"

text \<open>
  The body of \<open>run_service\<close>: \<open>em 0\<close> for the service itself, \<open>em (Suc i)\<close> for the \<open>i\<close>-th affected
  service, \<open>chance\<close> for the cascade.
\<close>

definition service_round ::
  "(sim_span \<Rightarrow> string \<Rightarrow> ('p, unit) prog) \<Rightarrow> cascade_map \<Rightarrow> (nat \<Rightarrow> emission) \<Rightarrow> real \<Rightarrow> service_config \<Rightarrow>
     ('p sim, unit) prog" where
  "service_round publish cm em chance cfg s =
     (let sid = cf_id cfg;
          svc = (case sm_services s sid of None \<Rightarrow> (cfg, None) | Some v \<Rightarrow> v);
          (m, svc1) = generate_metrics (em_normal (em 0)) svc;
          (m1, ty) = maybe_inject (em 0) m anomaly_probability;
          t = s\<lparr>sm_services := (sm_services s)(sid \<mapsto> svc1)\<rparr>
      in case publish_with publish (generate_span (em 0) sid m1 ty) sid t of
           (Inl e, u) \<Rightarrow> (Inl e, u)
         | (Inr _, u) \<Rightarrow>
             if ty \<noteq> None \<and> chance < cascade_probability
             then emit_cascade publish em 1 (get_affected_services sid cm 2) u
             else (Inr (), u))"

text \<open>The loop catches everything, so the next round starts from whatever the last one left.\<close>

fun service_loop ::
  "(sim_span \<Rightarrow> string \<Rightarrow> ('p, unit) prog) \<Rightarrow> cascade_map \<Rightarrow> ((nat \<Rightarrow> emission) \<times> real) list \<Rightarrow>
     service_config \<Rightarrow> 'p sim \<Rightarrow> 'p sim" where
  "service_loop publish cm [] cfg s = s"
| "service_loop publish cm ((em, chance) # rs) cfg s =
     service_loop publish cm rs cfg (snd (service_round publish cm em chance cfg s))"

subsection \<open>Every span passes the gate of the ingestion service\<close>

definition metrics_ok :: "sim_metrics \<Rightarrow> bool" where
  "metrics_ok m \<longleftrightarrow> mt_cpu m \<in> {0..100} \<and> 0 \<le> mt_latency m \<and> mt_error m \<in> {0..1} \<and> 0 \<le> mt_requests m"

lemma py_round_bounds:
  "0 \<le> x \<Longrightarrow> 0 \<le> py_round n x"
  "x \<le> of_int k \<Longrightarrow> py_round n x \<le> of_int k"
  using py_round_mono [of 0 x n] py_round_int [of n 0] py_round_mono [of x "of_int k" n] py_round_int [of n k] by auto

lemma py_round_clamped:
  "0 \<le> py_round n (max 0 y)"
  "py_round n (max 0 (min 100 y)) \<le> 100"
  "py_round n (max 0 (min 1 y)) \<le> 1"
proof -
  show "0 \<le> py_round n (max 0 y)" by (rule py_round_bounds(1)) (rule max.cobounded1)
  have "max 0 (min 100 y) \<le> of_int 100" by simp
  from py_round_bounds(2) [OF this] show "py_round n (max 0 (min 100 y)) \<le> 100"
    by (simp only: of_int_numeral)
  have "max 0 (min 1 y) \<le> of_int 1" by simp
  from py_round_bounds(2) [OF this] show "py_round n (max 0 (min 1 y)) \<le> 1"
    by (simp only: of_int_1)
qed

lemma metrics_at_ok: "metrics_ok (metrics_at cfg m)"
  by (simp add: metrics_ok_def metrics_at_def Let_def py_round_clamped)

lemma between_draw_pos:
  assumes "0 \<le> u" and "0 \<le> lo" and "lo \<le> hi"
  shows "0 \<le> between_draw lo hi u"
  using assms by (simp add: between_draw_def)

lemma inject_anomaly_ok:
  assumes "metrics_ok m" and "0 \<le> u"
  shows "metrics_ok (inject_anomaly u m ty)"
proof -
  have "0 \<le> x * between_draw (25 / 10) 4 u" "0 \<le> x * between_draw 5 15 u"
    "0 \<le> x * between_draw 10 50 u" "0 \<le> x * between_draw (5 / 100) (2 / 10) u" if "0 \<le> x" for x
    using that between_draw_pos [OF assms(2)] by simp_all
  with assms(1) show ?thesis by (simp add: metrics_ok_def inject_anomaly_def)
qed

definition emission_ok :: "emission \<Rightarrow> bool" where
  "emission_ok e \<longleftrightarrow>
     0 \<le> em_amount e \<and> length (hex_of (em_trace_uuid e)) = 32 \<and> length (hex_of (em_span_uuid e)) = 32 \<and>
     1 \<le> em_time e"

lemma maybe_inject_ok: "emission_ok e \<Longrightarrow> metrics_ok m \<Longrightarrow> metrics_ok (fst (maybe_inject e m p))"
  by (simp add: maybe_inject_def Let_def emission_ok_def inject_anomaly_ok)

text \<open>What the ingestion service makes of a span.\<close>

definition payload_of :: "sim_span \<Rightarrow> span_payload" where
  "payload_of sp =
     \<lparr>pl_trace_id = ss_trace_id sp, pl_span_id = ss_span_id sp, pl_service_id = ss_service_id sp,
      pl_timestamp = ss_timestamp sp, pl_cpu_percent = mt_cpu (ss_metrics sp),
      pl_latency_p99 = mt_latency (ss_metrics sp), pl_error_rate = mt_error (ss_metrics sp),
      pl_request_rate = mt_requests (ss_metrics sp),
      pl_anomaly_type = (if ss_anomaly_type sp = Some [] then None else ss_anomaly_type sp),
      pl_is_anomaly = ss_is_anomaly sp\<rparr>"

lemma span_dict_fields:
  fixes sp :: sim_span
  defines "d \<equiv> span_to_dict (to_proto_span sp)"
  shows "map_of d ''trace_id'' = Some (PStr (ss_trace_id sp))"
    and "map_of d ''span_id'' = Some (PStr (ss_span_id sp))"
    and "map_of d ''service_id'' = Some (PStr (ss_service_id sp))"
    and "map_of d ''timestamp'' = Some (PInt (ss_timestamp sp))"
    and "map_of d ''cpu_percent'' = Some (PFloat (mt_cpu (ss_metrics sp)))"
    and "map_of d ''latency_p99'' = Some (PFloat (mt_latency (ss_metrics sp)))"
    and "map_of d ''error_rate'' = Some (PFloat (mt_error (ss_metrics sp)))"
    and "map_of d ''request_rate'' = Some (PFloat (mt_requests (ss_metrics sp)))"
    and "map_of d ''is_anomaly'' = Some (PBool (ss_is_anomaly sp))"
    and "map_of d ''anomaly_type'' = Some (case ss_anomaly_type sp of None \<Rightarrow> PNone | Some t \<Rightarrow> if t = [] then PNone else PStr t)"
  by (simp_all add: d_def span_to_dict_def to_proto_span_def metric_items_def update_conv' split: option.split)

lemma span_validates:
  assumes law: "coercion_law co" and ok: "emission_ok e" "metrics_ok m" and sid: "length sid \<in> {1..64}"
  shows "validate_span co (span_to_dict (to_proto_span (generate_span e sid m ty))) =
           Some (payload_of (generate_span e sid m ty))"
proof -
  let ?sp = "generate_span e sid m ty"
  have time: "0 < ss_timestamp ?sp" using ok(1) by (simp add: generate_span_def emission_ok_def)
  have ids: "length (ss_trace_id ?sp) = 32" "length (ss_span_id ?sp) = 16" "ss_service_id ?sp = sid"
    using ok(1) by (simp_all add: generate_span_def emission_ok_def)
  have m: "ss_metrics ?sp = m" by (simp add: generate_span_def)
  have laws: "as_str co (PStr s) = Some s" "as_int co (PInt n) = Some n" "as_float co (PFloat x) = Some x"
    "as_bool co (PBool b) = Some b" for s n x b
    using law by (simp_all add: coercion_law_def)
  have "type_field co (span_to_dict (to_proto_span ?sp)) = Some (pl_anomaly_type (payload_of ?sp))"
    by (auto simp: type_field_def span_dict_fields laws payload_of_def split: option.split)
  then show ?thesis
    using ok(2) sid time
    by (simp add: validate_span_def id_field_def num_field_def flag_field_def time_field_def span_dict_fields laws
        ids m metrics_ok_def payload_of_def)
qed

text \<open>A publisher that notes every span handed to it and raises on some.\<close>

definition noting :: "(sim_span \<Rightarrow> bool) \<Rightarrow> sim_span \<Rightarrow> string \<Rightarrow> (sim_span list, unit) prog" where
  "noting refuses sp sid seen =
     (if refuses sp then Inl (RuntimeError ''publish'') else Inr (), seen @ [sp])"

definition all_accepted :: "coercions \<Rightarrow> sim_span list sim \<Rightarrow> bool" where
  "all_accepted co s \<longleftrightarrow>
     (\<forall>sp \<in> set (sm_publisher s). validate_span co (span_to_dict (to_proto_span sp)) = Some (payload_of sp)) \<and>
     (\<forall>sid. sm_services s sid \<noteq> None \<longrightarrow> length sid \<in> {1..64})"

lemma publish_accepted:
  assumes "all_accepted co s" and "validate_span co (span_to_dict (to_proto_span sp)) = Some (payload_of sp)"
  shows "all_accepted co (snd (publish_with (noting refuses) sp sid s))"
  using assms by (simp add: all_accepted_def publish_with_def noting_def)

lemma services_accepted:
  "all_accepted co s \<Longrightarrow> length sid \<in> {1..64} \<Longrightarrow> all_accepted co (s\<lparr>sm_services := (sm_services s)(sid \<mapsto> v)\<rparr>)"
  by (simp add: all_accepted_def)

lemma generate_metrics_ok: "metrics_ok (fst (generate_metrics z svc))"
  by (simp add: generate_metrics_def Let_def metrics_at_ok split: prod.splits)

lemma emit_cascade_accepted:
  assumes "coercion_law co" and "\<forall>i. emission_ok (em i)" and "all_accepted co s"
  shows "all_accepted co (snd (emit_cascade (noting refuses) em i as s))"
  using assms(3)
proof (induction as arbitrary: i s)
  case (Cons a as)
  show ?case
  proof (cases "sm_services s a")
    case None
    with Cons show ?thesis by simp
  next
    case (Some svc)
    obtain m svc1 where g: "generate_metrics (em_normal (em i)) svc = (m, svc1)" by (rule prod.exhaust)
    obtain m1 ty where j: "maybe_inject (em i) m affected_probability = (m1, ty)" by fastforce
    let ?sp = "generate_span (em i) a m1 (Some ''CASCADE'')" and ?t = "s\<lparr>sm_services := (sm_services s)(a \<mapsto> svc1)\<rparr>"
    from Some Cons.prems have len: "length a \<in> {1..64}" by (auto simp: all_accepted_def)
    have "metrics_ok m1"
      using maybe_inject_ok [of "em i" m affected_probability] generate_metrics_ok [of "em_normal (em i)" svc] assms(2) g j by simp
    with span_validates [OF assms(1) _ _ len] assms(2)
    have "validate_span co (span_to_dict (to_proto_span ?sp)) = Some (payload_of ?sp)" by blast
    from publish_accepted [OF services_accepted [OF Cons.prems len] this]
    have "all_accepted co (snd (publish_with (noting refuses) ?sp a ?t))" .
    with Cons.IH show ?thesis by (auto simp: Some g j Let_def split: prod.split sum.split)
  qed
qed simp

lemma service_round_accepted:
  assumes law: "coercion_law co" and em: "\<forall>i. emission_ok (em i)" and acc: "all_accepted co s"
    and len: "length (cf_id cfg) \<in> {1..64}"
  shows "all_accepted co (snd (service_round (noting refuses) cm em chance cfg s))"
proof -
  let ?svc = "case sm_services s (cf_id cfg) of None \<Rightarrow> (cfg, None) | Some v \<Rightarrow> v"
  obtain m svc1 where g: "generate_metrics (em_normal (em 0)) ?svc = (m, svc1)" by (rule prod.exhaust)
  obtain m1 ty where j: "maybe_inject (em 0) m anomaly_probability = (m1, ty)" by fastforce
  let ?sp = "generate_span (em 0) (cf_id cfg) m1 ty" and ?t = "s\<lparr>sm_services := (sm_services s)(cf_id cfg \<mapsto> svc1)\<rparr>"
  have "metrics_ok m1"
    using maybe_inject_ok [of "em 0" m anomaly_probability] generate_metrics_ok [of "em_normal (em 0)" ?svc] em g j by simp
  with span_validates [OF law _ _ len] em
  have "validate_span co (span_to_dict (to_proto_span ?sp)) = Some (payload_of ?sp)" by blast
  from publish_accepted [OF services_accepted [OF acc len] this]
  have "all_accepted co (snd (publish_with (noting refuses) ?sp (cf_id cfg) ?t))" .
  then show ?thesis
    using emit_cascade_accepted [OF law em]
    by (auto simp: service_round_def g j Let_def split: prod.split sum.split)
qed

text \<open>
  No legitimate span is rejected: whatever the simulator draws, over any rounds of a service with any
  cascades and publishing failures, every span it hands to the publisher passes the ingestion
  service's validation and is read there with the same values.
\<close>

theorem simulated_spans_accepted:
  assumes "coercion_law co" and "\<forall>(em, chance) \<in> set rounds. \<forall>i. emission_ok (em i)"
    and "\<forall>sid. sm_services s sid \<noteq> None \<longrightarrow> length sid \<in> {1..64}" and "length (cf_id cfg) \<in> {1..64}"
    and "sm_publisher s = []"
  shows "\<forall>sp \<in> set (sm_publisher (service_loop (noting refuses) cm rounds cfg s)).
           validate_span co (span_to_dict (to_proto_span sp)) = Some (payload_of sp)"
proof -
  have "all_accepted co (service_loop (noting refuses) cm rs cfg t)"
    if "all_accepted co t" "\<forall>(em, chance) \<in> set rs. \<forall>i. emission_ok (em i)" for rs t
    using that
  proof (induction rs arbitrary: t)
    case (Cons r rs)
    obtain em chance where r: "r = (em, chance)" by (cases r)
    from Cons.prems(2) have "\<forall>i. emission_ok (em i)" by (simp add: r)
    from Cons.IH [OF service_round_accepted [OF assms(1) this Cons.prems(1) assms(4)]] Cons.prems(2)
    show ?case by (simp add: r)
  qed simp
  moreover have "all_accepted co s" unfolding all_accepted_def using assms(3,5) by simp
  ultimately have "all_accepted co (service_loop (noting refuses) cm rounds cfg s)" using assms(2) by blast
  then show ?thesis unfolding all_accepted_def by (rule conjunct1)
qed

text \<open>Service ids are twelve characters long, and the hundred services have different names.\<close>

lemma service_id_length: "8 \<le> length (md5 name) \<Longrightarrow> length (service_id_of md5 name) = 12"
  by (simp add: service_id_of_def)

definition ex_emission :: emission where
  "ex_emission = \<lparr>em_normal = (\<lambda>k. 0), em_decide = 0, em_kind = 0, em_amount = 1 / 2,
     em_trace_uuid = replicate 32 (CHR ''a''), em_span_uuid = replicate 32 (CHR ''b''), em_time = 1700\<rparr>"

definition ex_service_config :: service_config where
  "ex_service_config = \<lparr>cf_id = ''svc-1'', cf_name = ''auth-service'', cf_tier = ''backend'', cf_team = ''auth'',
     cf_cpu = 50, cf_latency = 100, cf_error = 1 / 100, cf_requests = 200\<rparr>"

definition ex_published_spans :: "sim_span list" where
  "ex_published_spans = sm_publisher (service_loop (noting (\<lambda>_. False)) [] [(\<lambda>i. ex_emission, 1)] ex_service_config
      \<lparr>sm_services = (\<lambda>_. None), sm_publisher = []\<rparr>)"

lemma ex_span_published: "ex_published_spans \<noteq> []"
  by (simp add: ex_published_spans_def service_round_def publish_with_def noting_def maybe_inject_def
      ex_emission_def anomaly_probability_def cascade_probability_def generate_metrics_def Let_def)

theorem simulated_spans_accepted_witness:
  "ex_published_spans \<noteq> [] \<and> validate_span ex_coercions (span_to_dict (to_proto_span (hd ex_published_spans))) =
     Some (payload_of (hd ex_published_spans))"
proof -
  have "\<forall>sp \<in> set ex_published_spans. validate_span ex_coercions (span_to_dict (to_proto_span sp)) = Some (payload_of sp)"
    unfolding ex_published_spans_def
    by (rule simulated_spans_accepted [OF ex_coercion_law])
       (simp_all add: emission_ok_def ex_emission_def hex_of_def ex_service_config_def)
  with ex_span_published show ?thesis by simp
qed

end
