(* ===== verification/Topology.thy ===== *)
theory Topology
  imports Simulator
begin

section \<open>The service graph in Neo4j\<close>

text \<open>
  \<open>correlation/graph/neo4j_client.py\<close> and its use in \<open>simulator/main.py\<close>: the simulator writes its
  registry and its dependency map as \<open>(:Service)-[:CALLS]->(:Service)\<close>, and the correlation engine reads
  neighbourhoods of that graph. The database is a parameter: its three Cypher statements, the managed
  transaction, and two views of what is committed or pending, the nodes and the edges.
\<close>

record node_attrs =
  na_name :: string
  na_tier :: string
  na_team :: string

record 'w graph_api =
  merge_service :: "string \<Rightarrow> node_attrs \<Rightarrow> ('w, unit) prog"
  merge_call :: "string \<Rightarrow> string \<Rightarrow> real \<Rightarrow> real \<Rightarrow> ('w, unit) prog"
  match_related :: "string \<Rightarrow> nat \<Rightarrow> ('w, string list) prog"
  execute_write :: "('w, unit) prog \<Rightarrow> ('w, unit) prog"
  close_driver :: "('w, unit) prog"

fun run_all :: "('w, unit) prog list \<Rightarrow> ('w, unit) prog" where
  "run_all [] = ret ()"
| "run_all (p # ps) = bnd p (\<lambda>_. run_all ps)"

definition merge_node :: "'w graph_api \<Rightarrow> string \<times> service \<Rightarrow> ('w, unit) prog" where
  "merge_node api entry =
     (let cfg = fst (snd entry)
      in merge_service api (fst entry) \<lparr>na_name = cf_name cfg, na_tier = cf_tier cfg, na_team = cf_team cfg\<rparr>)"

text \<open>One edge; nothing is run when either end is not in the registry.\<close>

definition merge_edge :: "'w graph_api \<Rightarrow> (string \<times> service) list \<Rightarrow> string \<times> string \<Rightarrow> ('w, unit) prog" where
  "merge_edge api registry edge =
     (case (map_of registry (fst edge), map_of registry (snd edge)) of
        (Some caller, Some callee) \<Rightarrow>
          merge_call api (fst edge) (snd edge) (cf_latency (fst callee)) (cf_requests (fst caller))
      | _ \<Rightarrow> ret ())"

definition edges_of :: "cascade_map \<Rightarrow> (string \<times> string) list" where
  "edges_of cm = concat (map (\<lambda>(caller, callees). map (Pair caller) callees) cm)"

definition merge_topology :: "'w graph_api \<Rightarrow> (string \<times> service) list \<Rightarrow> cascade_map \<Rightarrow> ('w, unit) prog" where
  "merge_topology api registry cm =
     bnd (run_all (map (merge_node api) registry)) (\<lambda>_. run_all (map (merge_edge api registry) (edges_of cm)))"

definition load_topology :: "'w graph_api \<Rightarrow> (string \<times> service) list \<Rightarrow> cascade_map \<Rightarrow> ('w, unit) prog" where
  "load_topology api registry cm = execute_write api (merge_topology api registry cm)"

definition neo_related_services :: "'w graph_api \<Rightarrow> string \<Rightarrow> ('w, string list) prog" where
  "neo_related_services api sid = match_related api sid 2"

text \<open>
  The start of the simulator: build the registry and the map, push them, and close the driver whatever
  happened; a \<open>close\<close> that raises replaces the error.
\<close>

definition push_topology ::
  "'w graph_api \<Rightarrow> (string \<Rightarrow> string) \<Rightarrow> registry_draws \<Rightarrow> rng \<Rightarrow> ('w, (string \<times> service) list \<times> cascade_map) prog" where
  "push_topology api md5 dr g w =
     (let registry = build_registry md5 dr; cm = build_cascade_map g (map fst registry)
      in case load_topology api registry cm w of
           (r, w1) \<Rightarrow>
             (case close_driver api w1 of
                (Inl e, w2) \<Rightarrow> (Inl e, w2)
              | (Inr _, w2) \<Rightarrow> (map_sum id (\<lambda>_. (registry, cm)) r, w2)))"

subsection \<open>The graph the statements describe\<close>

type_synonym graph_view = "(string \<Rightarrow> node_attrs option) \<times> (string \<times> string \<Rightarrow> (real \<times> real) option)"

definition with_node :: "string \<times> service \<Rightarrow> graph_view \<Rightarrow> graph_view" where
  "with_node entry g =
     (let cfg = fst (snd entry)
      in ((fst g)(fst entry \<mapsto> \<lparr>na_name = cf_name cfg, na_tier = cf_tier cfg, na_team = cf_team cfg\<rparr>), snd g))"

text \<open>
  The ends of the undirected paths of at most \<open>n\<close> relationships that start in \<open>i\<close>; no relationship is used twice
  in one path.
\<close>

fun trails :: "(string \<times> string) list \<Rightarrow> nat \<Rightarrow> string \<Rightarrow> string list" where
  "trails es 0 i = []"
| "trails es (Suc n) i =
     concat (map (\<lambda>e. if fst e = i then snd e # trails (removeAll e es) n (snd e)
                     else if snd e = i then fst e # trails (removeAll e es) n (fst e) else []) es)"

text \<open>
  What Neo4j documents: \<open>MERGE\<close> creates or updates one node or edge, a \<open>MATCH\<close> that finds nothing makes
  the statement do nothing, a managed transaction keeps all the effects of the function (of its last
  attempt, when the driver repeats it) or none, closing and reading leave the graph as it is.
\<close>

definition graph_law :: "'w graph_api \<Rightarrow> ('w \<Rightarrow> graph_view) \<Rightarrow> bool" where
  "graph_law api view \<longleftrightarrow>
     (\<forall>i a w w'. merge_service api i a w = (Inr (), w') \<longrightarrow>
        view w' = ((fst (view w))(i \<mapsto> a), snd (view w))) \<and>
     (\<forall>i j l v w w'. merge_call api i j l v w = (Inr (), w') \<longrightarrow>
        view w' = (fst (view w),
          if fst (view w) i \<noteq> None \<and> fst (view w) j \<noteq> None then (snd (view w))((i, j) \<mapsto> (l, v)) else snd (view w))) \<and>
     (\<forall>p w w'. execute_write api p w = (Inr (), w') \<longrightarrow>
        (\<exists>w0 w1. view w0 = view w \<and> p w0 = (Inr (), w1) \<and> view w' = view w1)) \<and>
     (\<forall>p w e w'. execute_write api p w = (Inl e, w') \<longrightarrow> view w' = view w) \<and>
     (\<forall>w. view (snd (close_driver api w)) = view w) \<and> (\<forall>w. finite (dom (snd (view w)))) \<and>
     (\<forall>i n w js w'. match_related api i n w = (Inr js, w') \<longrightarrow>
        (\<forall>es. set es = dom (snd (view w)) \<longrightarrow> set js = set (trails es n i)))"

text \<open>The graph after loading, as one update: the registry's nodes, and the map's edges between them.\<close>

definition loaded_graph :: "(string \<times> service) list \<Rightarrow> cascade_map \<Rightarrow> graph_view \<Rightarrow> graph_view" where
  "loaded_graph registry cm g =
     (\<lambda>i. case map_of registry i of
            None \<Rightarrow> fst g i
          | Some s \<Rightarrow> Some \<lparr>na_name = cf_name (fst s), na_tier = cf_tier (fst s), na_team = cf_team (fst s)\<rparr>,
      \<lambda>(i, j). case (map_of registry i, map_of registry j) of
            (Some s, Some t) \<Rightarrow>
              if (i, j) \<in> set (edges_of cm) then Some (cf_latency (fst t), cf_requests (fst s)) else snd g (i, j)
          | _ \<Rightarrow> snd g (i, j))"

lemma merge_node_view:
  assumes "graph_law api view" and "merge_node api entry w = (Inr (), w')"
  shows "view w' = with_node entry (view w)"
  using assms by (auto simp: graph_law_def merge_node_def with_node_def Let_def)

lemma merge_nodes_view:
  assumes "graph_law api view" and "run_all (map (merge_node api) es) w = (Inr (), w')"
  shows "view w' = fold with_node es (view w)"
  using assms(2)
proof (induction es arbitrary: w)
  case (Cons e es)
  then obtain w1 where "merge_node api e w = (Inr (), w1)" "run_all (map (merge_node api) es) w1 = (Inr (), w')"
    by (auto simp: bnd_def split: prod.splits sum.splits)
  with Cons.IH merge_node_view [OF assms(1)] show ?case by fastforce
qed (simp add: ret_def)

lemma fold_with_node:
  assumes "distinct (map fst es)"
  shows "fst (fold with_node es g) i =
     (case map_of es i of None \<Rightarrow> fst g i
      | Some s \<Rightarrow> Some \<lparr>na_name = cf_name (fst s), na_tier = cf_tier (fst s), na_team = cf_team (fst s)\<rparr>)"
    and "snd (fold with_node es g) = snd g"
  using assms
  by (induction es arbitrary: g)
     (auto simp: with_node_def Let_def map_of_eq_None_iff [THEN iffD2] split: option.splits)

lemma merge_edges_view:
  assumes law: "graph_law api view" and "\<forall>i \<in> dom (map_of registry). fst (view w) i \<noteq> None"
    and "run_all (map (merge_edge api registry) es) w = (Inr (), w')"
  shows "fst (view w') = fst (view w) \<and>
         (\<forall>i j. snd (view w') (i, j) =
            (case (map_of registry i, map_of registry j) of
               (Some s, Some t) \<Rightarrow>
                 if (i, j) \<in> set es then Some (cf_latency (fst t), cf_requests (fst s)) else snd (view w) (i, j)
             | _ \<Rightarrow> snd (view w) (i, j)))"
  using assms(2,3)
proof (induction es arbitrary: w)
  case (Cons e es)
  obtain a b where e: "e = (a, b)" by (cases e)
  from Cons.prems(2) obtain w1 where one: "merge_edge api registry (a, b) w = (Inr (), w1)"
    and rest: "run_all (map (merge_edge api registry) es) w1 = (Inr (), w')"
    by (auto simp: bnd_def e split: prod.splits sum.splits)
  have step: "fst (view w1) = fst (view w)" "snd (view w1) = (case (map_of registry a, map_of registry b) of
      (Some s, Some t) \<Rightarrow> (snd (view w))((a, b) \<mapsto> (cf_latency (fst t), cf_requests (fst s)))
    | _ \<Rightarrow> snd (view w))"
    using one law Cons.prems(1)
    by (auto simp: merge_edge_def graph_law_def ret_def domIff split: option.splits)
  from Cons.IH [OF _ rest] Cons.prems(1) step show ?case
    by (auto simp: e split: option.splits)
qed (auto simp: ret_def split: option.splits)
lemma graph_lawD:
  assumes "graph_law api view"
  shows "execute_write api p w = (Inr (), w') \<Longrightarrow> \<exists>w0 w1. view w0 = view w \<and> p w0 = (Inr (), w1) \<and> view w' = view w1"
    and "execute_write api p w = (Inl e, w') \<Longrightarrow> view w' = view w"
    and "view (snd (close_driver api w)) = view w" and "finite (dom (snd (view w)))"
    and "match_related api i n w = (Inr js, w') \<Longrightarrow> set es = dom (snd (view w)) \<Longrightarrow> set js = set (trails es n i)"
  using assms unfolding graph_law_def by blast+

lemma merge_topology_view:
  assumes "graph_law api view" and keys: "distinct (map fst registry)"
    and "merge_topology api registry cm w = (Inr (), w')"
  shows "view w' = loaded_graph registry cm (view w)"
proof -
  from assms(3) obtain w1 where nodes: "run_all (map (merge_node api) registry) w = (Inr (), w1)"
    and edges: "run_all (map (merge_edge api registry) (edges_of cm)) w1 = (Inr (), w')"
    by (auto simp: merge_topology_def bnd_def split: prod.splits sum.splits)
  note view1 = merge_nodes_view [OF assms(1) nodes]
  note n1 = fold_with_node [OF keys, of "view w", folded view1]
  have "\<forall>i \<in> dom (map_of registry). fst (view w1) i \<noteq> None" by (auto simp: n1(1))
  from merge_edges_view [OF assms(1) this edges] n1 show ?thesis
    by (auto simp: loaded_graph_def prod_eq_iff fun_eq_iff split: option.splits)
qed

lemma loaded_graph_again: "loaded_graph registry cm (loaded_graph registry cm g) = loaded_graph registry cm g"
  by (auto simp: loaded_graph_def fun_eq_iff split: option.splits)

lemma load_topology_view:
  assumes "graph_law api view" and "distinct (map fst registry)"
    and "load_topology api registry cm w = (r, w')"
  shows "view w' = (case r of Inl e \<Rightarrow> view w | Inr _ \<Rightarrow> loaded_graph registry cm (view w))"
proof (cases r)
  case (Inl e)
  with graph_lawD(2) [OF assms(1)] assms(3) show ?thesis by (simp add: load_topology_def)
next
  case (Inr u)
  with assms(3) have "execute_write api (merge_topology api registry cm) w = (Inr (), w')"
    by (simp add: load_topology_def)
  from graph_lawD(1) [OF assms(1) this] obtain w0 w1 where "view w0 = view w"
    "merge_topology api registry cm w0 = (Inr (), w1)" "view w' = view w1" by blast
  with merge_topology_view [OF assms(1,2), of cm w0 w1] Inr show ?thesis by simp
qed

text \<open>
  C21. Loading the topology is one update of the graph: the transaction either leaves exactly the registry's
  services and the map's edges between them merged into what was there, or nothing changed; doing it
  again at the next start changes nothing, so no node or edge is ever duplicated.
\<close>

theorem topology_loaded:
  assumes "graph_law api view" and "distinct (map fst registry)"
    and "load_topology api registry cm w = (r, w')" and "load_topology api registry cm w' = (Inr (), w'')"
  shows "view w' = (case r of Inl e \<Rightarrow> view w | Inr _ \<Rightarrow> loaded_graph registry cm (view w)) \<and>
         view w'' = loaded_graph registry cm (view w)"
  using load_topology_view [OF assms(1,2,3)] load_topology_view [OF assms(1,2,4)]
  by (simp add: loaded_graph_again split: sum.splits)

subsection \<open>The same graph on both sides\<close>

lemma registry_keys_distinct: "distinct (map fst (build_registry md5 dr))"
  unfolding build_registry_def
  by (rule fold_invariant [where Q = "\<lambda>_. True"]) (simp_all add: case_prod_beta distinct_update)

lemma cascade_keys_distinct: "distinct (map fst (build_cascade_map g ids))"
  unfolding build_cascade_map_def
  by (rule fold_invariant [where Q = "\<lambda>_. True"]) (simp_all add: add_dependents_def case_prod_beta distinct_update)

lemma cascade_keys: "fst ` set (build_cascade_map g ids) \<subseteq> set ids"
  unfolding build_cascade_map_def
proof (rule fold_invariant [where Q = "\<lambda>e. snd e \<in> set ids"])
  show "snd e \<in> set ids" if "e \<in> set (zip [0..<length ids] ids)" for e
    using that set_zip_rightD [of "fst e" "snd e"] by simp
qed (simp_all add: add_dependents_def case_prod_beta dom_update)

lemma edges_of_downstream:
  assumes "distinct (map fst cm)"
  shows "(i, j) \<in> set (edges_of cm) \<longleftrightarrow> j \<in> set (downstream cm i)"
  using assms
proof (induction cm)
  case (Cons e cm)
  have "map_of cm i = None" if "fst e = i" using Cons.prems that by (auto simp: map_of_eq_None_iff)
  with Cons show ?case by (cases e) (auto simp: edges_of_def downstream_def)
qed (simp add: edges_of_def downstream_def)

lemma cascade_within_services:
  assumes "rng_law g" and "distinct ids" and "j \<in> set (downstream (build_cascade_map g ids) i)"
  shows "i \<in> set ids \<and> j \<in> set ids \<and> i \<noteq> j"
proof (cases "2 \<le> length ids")
  case True
  have "i \<in> set ids"
    using cascade_keys [of g ids] assms(3) downstream_none [of i "build_cascade_map g ids"] by force
  with built_dependents_ok [OF assms(1,2) True] assms(3) show ?thesis by (auto simp: dependents_ok_def)
next
  case False
  then consider "ids = []" | s where "ids = [s]" by (cases ids) (auto simp: not_le less_Suc_eq Suc_le_eq)
  moreover from assms(1) have "rng_sample g 0 [] 0 = []" by (metis le0 length_0_conv list.size(3) rng_law_def)
  ultimately show ?thesis
    using assms(3)
    by cases (auto simp: build_cascade_map_def add_dependents_def downstream_def split: if_splits)
qed

lemma trails_first:
  assumes "(i, x) \<in> set es"
  shows "insert x (set (trails (removeAll (i, x) es) n x)) \<subseteq> set (trails es (Suc n) i)"
proof -
  let ?f = "\<lambda>e. if fst e = i then snd e # trails (removeAll e es) n (snd e)
                     else if snd e = i then fst e # trails (removeAll e es) n (fst e) else []"
  have "set (?f (i, x)) \<subseteq> (\<Union>e \<in> set es. set (?f e))" using assms by (rule UN_upper)
  then show ?thesis by (simp only: trails.simps set_concat set_map image_image fst_conv snd_conv if_True simp_thms list.set)
qed

lemma trails_two:
  assumes "(i, x) \<in> set es"
  shows "x \<in> set (trails es (Suc n) i)"
    and "(x, j) \<in> set es \<Longrightarrow> i \<noteq> x \<Longrightarrow> j \<in> set (trails es (Suc (Suc n)) i)"
proof -
  show "x \<in> set (trails es (Suc n) i)" using trails_first [OF assms] by blast
  assume "(x, j) \<in> set es" and "i \<noteq> x"
  then have "(x, j) \<in> set (removeAll (i, x) es)" by simp
  with trails_first [OF assms, of "Suc n"] trails_first [of x j "removeAll (i, x) es" n]
  show "j \<in> set (trails es (Suc (Suc n)) i)" by blast
qed

lemma push_topology_returns:
  assumes "push_topology api md5 dr g w = (Inr out, w')"
  shows "\<exists>w1. load_topology api (build_registry md5 dr)
             (build_cascade_map g (map fst (build_registry md5 dr))) w = (Inr (), w1) \<and>
           snd (close_driver api w1) = w' \<and>
           out = (build_registry md5 dr, build_cascade_map g (map fst (build_registry md5 dr)))"
proof -
  define reg where "reg = build_registry md5 dr"
  obtain r w1 where load: "load_topology api reg (build_cascade_map g (map fst reg)) w = (r, w1)" by fastforce
  obtain q w2 where close: "close_driver api w1 = (q, w2)" by fastforce
  from assms load close show ?thesis
    unfolding push_topology_def reg_def [symmetric] by (cases q; cases r) simp_all
qed

lemma pushed_graph:
  assumes "graph_law api view" and "push_topology api md5 dr g w = (Inr (registry, cm), w')"
  shows "registry = build_registry md5 dr \<and> cm = build_cascade_map g (map fst registry) \<and>
         view w' = loaded_graph registry cm (view w)"
proof -
  from push_topology_returns [OF assms(2)] obtain w1 where
    load: "load_topology api (build_registry md5 dr) (build_cascade_map g (map fst (build_registry md5 dr))) w =
      (Inr (), w1)" and close: "snd (close_driver api w1) = w'"
    and out: "registry = build_registry md5 dr" "cm = build_cascade_map g (map fst (build_registry md5 dr))"
    by (elim exE conjE) simp
  from load_topology_view [OF assms(1) registry_keys_distinct load] graph_lawD(3) [OF assms(1), of w1]
  show ?thesis by (simp add: out close)
qed

lemma pushed_edge:
  assumes "rng_law g" and "distinct (map fst registry)" and "cm = build_cascade_map g (map fst registry)"
    and "j \<in> set (downstream cm i)"
  shows "(i, j) \<in> dom (snd (loaded_graph registry cm v)) \<and> i \<noteq> j"
proof -
  from cascade_within_services [OF assms(1,2) assms(4) [unfolded assms(3)]]
  have ends: "i \<in> set (map fst registry)" "j \<in> set (map fst registry)" "i \<noteq> j" by blast+
  then obtain s t where "map_of registry i = Some s" "map_of registry j = Some t"
    by (metis list.set_map map_of_eq_None_iff not_None_eq)
  moreover have "(i, j) \<in> set (edges_of cm)"
    using edges_of_downstream [OF cascade_keys_distinct] assms(3,4) by simp
  ultimately show ?thesis using ends(3) by (simp add: loaded_graph_def dom_def)
qed

text \<open>
  C22. A cascade stays within the reach of the correlation engine: after the simulator has pushed its
  topology, every service that a failure can take down with it, over two dependencies, is among the
  services Neo4j relates to the failed one, so its anomalies can join the incident.
\<close>

theorem cascade_within_reach:
  assumes "graph_law api view" and "rng_law g"
    and "push_topology api md5 dr g w = (Inr (registry, cm), w')"
    and "view w2 = view w'" and "neo_related_services api origin w2 = (Inr related_ids, w3)"
  shows "set (get_affected_services origin cm 2) \<subseteq> set related_ids"
proof
  fix j assume "j \<in> set (get_affected_services origin cm 2)"
  then have "j \<in> (\<Union>n \<le> 2. hops cm origin n) - {origin}" using affected_reached by blast
  then have "j \<in> hops cm origin 0 \<union> hops cm origin 1 \<union> hops cm origin 2 - {origin}"
    by (auto simp: atMost_nat_numeral numeral_2_eq_2 le_Suc_eq)
  then have near: "j \<in> set (downstream cm origin) \<or>
      (\<exists>x \<in> set (downstream cm origin). j \<in> set (downstream cm x))"
    by (auto simp: numeral_2_eq_2)
  from pushed_graph [OF assms(1,3)] have g: "registry = build_registry md5 dr"
    "cm = build_cascade_map g (map fst registry)" "view w' = loaded_graph registry cm (view w)" by blast+
  have keys: "distinct (map fst registry)" unfolding g(1) by (rule registry_keys_distinct)
  have edge: "(a, b) \<in> dom (snd (view w2)) \<and> a \<noteq> b" if "b \<in> set (downstream cm a)" for a b
    unfolding assms(4) g(3) using that by (rule pushed_edge [OF assms(2) keys g(2)])
  obtain es where es: "set es = dom (snd (view w2))"
    using finite_list [OF graph_lawD(4) [OF assms(1)]] by blast
  from graph_lawD(5) [OF assms(1) assms(5) [unfolded neo_related_services_def] es]
  have rel: "set related_ids = set (trails es 2 origin)" .
  from near show "j \<in> set related_ids"
  proof
    assume "j \<in> set (downstream cm origin)"
    then have "(origin, j) \<in> set es" using edge es by blast
    then show ?thesis unfolding rel numeral_2_eq_2 by (rule trails_two(1))
  next
    assume "\<exists>x \<in> set (downstream cm origin). j \<in> set (downstream cm x)"
    then obtain x where "(origin, x) \<in> set es" "(x, j) \<in> set es" "origin \<noteq> x" using edge es by blast
    then show ?thesis unfolding rel numeral_2_eq_2 by (rule trails_two(2))
  qed
qed

subsection \<open>A concrete graph store\<close>

type_synonym ex_graph_store = "(string \<times> node_attrs) list \<times> ((string \<times> string) \<times> (real \<times> real)) list"

definition ex_graph :: "ex_graph_store graph_api" where
  "ex_graph =
     \<lparr>merge_service = (\<lambda>i a (ns, cs). (Inr (), (AList.update i a ns, cs))),
      merge_call = (\<lambda>i j l v (ns, cs).
        (Inr (), (ns, if map_of ns i \<noteq> None \<and> map_of ns j \<noteq> None then AList.update (i, j) (l, v) cs else cs))),
      match_related = (\<lambda>i n (ns, cs). (Inr (trails (map fst cs) n i), (ns, cs))),
      execute_write = (\<lambda>p w. case p w of (Inl e, w1) \<Rightarrow> (Inl e, w) | (Inr u, w1) \<Rightarrow> (Inr u, w1)),
      close_driver = (\<lambda>w. (Inr (), w))\<rparr>"

definition ex_view :: "ex_graph_store \<Rightarrow> graph_view" where
  "ex_view w = (map_of (fst w), map_of (snd w))"

lemma trails_cong: "set es = set fs \<Longrightarrow> set (trails es n i) = set (trails fs n i)"
proof (induction n arbitrary: es fs i)
  case (Suc n)
  have "set (trails (removeAll e es) n j) = set (trails (removeAll e fs) n j)" for e j
    by (rule Suc.IH) (simp add: Suc.prems)
  then show ?case using Suc.prems by (simp add: if_distrib [of set] cong: if_cong)
qed simp

lemma ex_graph_law: "graph_law ex_graph ex_view"
  unfolding graph_law_def
proof (intro conjI allI impI)
  fix i n w js w' es
  assume "match_related ex_graph i n w = (Inr js, w')" and "set es = dom (snd (ex_view w))"
  then show "set js = set (trails es n i)"
    using trails_cong [of es "map fst (snd w)" n i]
    by (cases w) (auto simp: ex_graph_def ex_view_def dom_map_of_conv_image_fst)
next
  fix p w w' assume "execute_write ex_graph p w = (Inr (), w')"
  then show "\<exists>w0 w1. ex_view w0 = ex_view w \<and> p w0 = (Inr (), w1) \<and> ex_view w' = ex_view w1"
    by (intro exI [of _ w] exI [of _ w']) (auto simp: ex_graph_def split: prod.splits sum.splits)
next
  fix p w e w' assume "execute_write ex_graph p w = (Inl e, w')"
  then show "ex_view w' = ex_view w" by (auto simp: ex_graph_def split: prod.splits sum.splits)
qed (auto simp: ex_graph_def ex_view_def update_conv' finite_dom_map_of)

lemma run_all_returns: "\<forall>p \<in> set ps. \<forall>w. \<exists>w'. p w = (Inr (), w') \<Longrightarrow> \<exists>w'. run_all ps w = (Inr (), w')"
proof (induction ps arbitrary: w)
  case (Cons p ps)
  then obtain w1 where "p w = (Inr (), w1)" by fastforce
  with Cons show ?case by (simp add: bnd_def)
qed (simp add: ret_def)

lemma ex_merges_return:
  "\<exists>w'. merge_node ex_graph e w = (Inr (), w')" "\<exists>w'. merge_edge ex_graph reg ed w = (Inr (), w')"
  by (cases w; auto simp: merge_node_def merge_edge_def ex_graph_def Let_def ret_def split: option.splits)+

lemma ex_load_returns: "\<exists>w'. load_topology ex_graph registry cm w = (Inr (), w')"
proof -
  obtain w1 where "run_all (map (merge_node ex_graph) registry) w = (Inr (), w1)"
    using run_all_returns [of "map (merge_node ex_graph) registry" w] ex_merges_return(1) by auto
  moreover obtain w2 where "run_all (map (merge_edge ex_graph registry) (edges_of cm)) w1 = (Inr (), w2)"
    using run_all_returns [of "map (merge_edge ex_graph registry) (edges_of cm)" w1] ex_merges_return(2) by auto
  ultimately have "merge_topology ex_graph registry cm w = (Inr (), w2)"
    by (simp add: merge_topology_def bnd_def)
  then show ?thesis by (simp add: load_topology_def ex_graph_def)
qed

lemma ex_push_returns: "\<exists>registry cm w'. push_topology ex_graph md5 dr g w = (Inr (registry, cm), w')"
proof -
  obtain w1 where "load_topology ex_graph (build_registry md5 dr)
      (build_cascade_map g (map fst (build_registry md5 dr))) w = (Inr (), w1)" using ex_load_returns by blast
  moreover have "close_driver ex_graph w1 = (Inr (), w1)" by (simp add: ex_graph_def)
  ultimately show ?thesis by (simp add: push_topology_def Let_def)
qed

theorem topology_loaded_witness:
  "\<exists>w' w''. load_topology ex_graph [(''a'', ex_service_config, None)] [] ([], []) = (Inr (), w') \<and>
     load_topology ex_graph [(''a'', ex_service_config, None)] [] w' = (Inr (), w'') \<and> ex_view w'' = ex_view w'"
proof -
  let ?r = "[(''a'', ex_service_config, None)] :: (string \<times> service) list"
  obtain w' w'' where "load_topology ex_graph ?r [] ([], []) = (Inr (), w')"
    "load_topology ex_graph ?r [] w' = (Inr (), w'')" using ex_load_returns by blast
  moreover from topology_loaded [OF ex_graph_law _ this] have "ex_view w'' = ex_view w'" by simp
  ultimately show ?thesis by blast
qed

theorem cascade_within_reach_witness:
  "\<exists>registry cm w' js. push_topology ex_graph (\<lambda>n. n) \<lparr>rd_tier = \<lambda>_. 0, rd_team = \<lambda>_. 0, rd_unit = \<lambda>_ _. 0\<rparr> ex_rng ([], [])
       = (Inr (registry, cm), w') \<and>
     neo_related_services ex_graph ''svc-api-gate'' w' = (Inr js, w') \<and>
     set (get_affected_services ''svc-api-gate'' cm 2) \<subseteq> set js"
proof -
  let ?d = "\<lparr>rd_tier = \<lambda>_. 0, rd_team = \<lambda>_. 0, rd_unit = \<lambda>_ _. 0\<rparr>"
  obtain registry cm w' where push: "push_topology ex_graph (\<lambda>n. n) ?d ex_rng ([], []) = (Inr (registry, cm), w')"
    using ex_push_returns by blast
  obtain js where js: "neo_related_services ex_graph ''svc-api-gate'' w' = (Inr js, w')"
    by (cases w') (simp add: neo_related_services_def ex_graph_def)
  from cascade_within_reach [OF ex_graph_law ex_rng_law push refl js] push js show ?thesis by blast
qed

end
