(* ===== verification/Pipeline.thy ===== *)
theory Pipeline
  imports Simulator Flink_Job Correlation Orchestrator
begin

section \<open>The components together\<close>

text \<open>
  What one component hands to the next is what the next one reads: accepted spans and the Flink decoder,
  detected anomalies and the correlation engine, published incidents and the orchestrator. Kafka carries
  the records unchanged; that the Avro reader returns the record that was written is a hypothesis.
\<close>

subsection \<open>From the ingestion service to Flink\<close>

definition event_of_payload :: "span_payload \<Rightarrow> metric_event" where
  "event_of_payload sp =
     \<lparr>me_trace_id = PStr (pl_trace_id sp), me_span_id = PStr (pl_span_id sp),
      me_service_id = PStr (pl_service_id sp), me_timestamp = PInt (pl_timestamp sp),
      me_cpu_percent = PFloat (pl_cpu_percent sp), me_latency_p99 = PFloat (pl_latency_p99 sp),
      me_error_rate = PFloat (pl_error_rate sp), me_request_rate = PFloat (pl_request_rate sp),
      me_anomaly_type = (case pl_anomaly_type sp of None \<Rightarrow> PNone | Some t \<Rightarrow> PStr t),
      me_is_anomaly = PBool (pl_is_anomaly sp)\<rparr>"

lemma payload_event: "metric_event_of (dump_span sp) = Inr (event_of_payload sp)"
  by (simp add: metric_event_of_def metrics_of_def dump_span_def event_of_payload_def dict_defs)

lemma accepted_span_decoded:
  assumes "validate_span co raw = Some sp"
    and "latin1_encode value = Inr bytes" and "decode_span api bytes s = (Inr (PDict (dump_span sp)), t)"
  shows "flat_map_span api now_ms value s = (Inr [event_of_payload sp], t)"
proof -
  from validate_span_valid [OF assms(1)]
  have "pl_service_id sp \<noteq> []" "pl_span_id sp \<noteq> []" "pl_timestamp sp \<noteq> 0"
    by (auto simp: valid_payload_def)
  with assms(2,3) show ?thesis
    by (simp add: flat_map_span_def payload_event) (simp add: event_of_payload_def)
qed

text \<open>
  An accepted span is never lost in decoding: if the record that Flink reads decodes to what the
  ingestion service published for a span it accepted, the operator emits exactly that span, with the same
  ids, time and readings.
\<close>

theorem accepted_span_reaches_flink:
  assumes "validate_span co raw = Some sp"
    and "latin1_encode value = Inr bytes" and "decode_span api bytes s = (Inr (PDict (dump_span sp)), t)"
  shows "flat_map_span api now_ms value s = (Inr [event_of_payload sp], t)"
  using assms by (rule accepted_span_decoded)

definition ex_reader :: "(unit, unit) decoder_api" where
  "ex_reader = ex_decoder\<lparr>json_loads := (\<lambda>b. Inr (PDict (dump_span ex_payload)))\<rparr>"

theorem accepted_span_reaches_flink_witness:
  "flat_map_span ex_reader 7 [123] ex_decoder_start = (Inr [event_of_payload ex_payload], ex_decoder_start)"
proof (rule accepted_span_reaches_flink)
  show "validate_span ex_coercions (dump_span ex_payload) = Some ex_payload"
    by (rule validate_dump [OF ex_coercion_law ex_payload_valid])
  show "latin1_encode [123] = Inr [123]" by (simp add: latin1_encode_def)
  show "decode_span ex_reader [123] ex_decoder_start = (Inr (PDict (dump_span ex_payload)), ex_decoder_start)"
    by (simp add: decode_span_def safe_json_loads_def ex_reader_def)
qed

subsection \<open>From the topic to the aggregates\<close>

text \<open>A delivery of an accepted span: its arrival, the filter's clock, the record and the span it holds.\<close>

type_synonym delivery = "int \<times> readings \<times> nat list \<times> span_payload"

definition record_of :: "delivery \<Rightarrow> int \<times> readings \<times> nat list" where
  "record_of d = (case d of (now, t, value, sp) \<Rightarrow> (now, t, value))"

definition keyed_reading :: "delivery \<Rightarrow> readings \<times> string" where
  "keyed_reading d = (case d of (now, t, value, sp) \<Rightarrow> (t, pl_span_id sp))"

definition delivered_span :: "delivery \<Rightarrow> span_payload" where
  "delivered_span d = (case d of (now, t, value, sp) \<Rightarrow> sp)"

definition delivers :: "coercions \<Rightarrow> ('sch, 'x) decoder_api \<Rightarrow> delivery \<Rightarrow> bool" where
  "delivers co api d =
     (case d of (now, t, value, sp) \<Rightarrow>
        (\<exists>raw. validate_span co raw = Some sp) \<and>
        (\<exists>bytes. latin1_encode value = Inr bytes \<and>
           (\<forall>dc. \<exists>dc'. decode_span api bytes dc = (Inr (PDict (dump_span sp)), dc'))))"

text \<open>The first delivery of every span id.\<close>

fun first_deliveries :: "string list \<Rightarrow> span_payload list \<Rightarrow> span_payload list" where
  "first_deliveries ids [] = []"
| "first_deliveries ids (sp # sps) =
     (if pl_span_id sp \<in> set ids then first_deliveries (pl_span_id sp # ids) sps
      else sp # first_deliveries (pl_span_id sp # ids) sps)"

lemma first_deliveries_ids:
  "first_deliveries ids sps = map snd (filter fst (zip (first_ids ids (map pl_span_id sps)) sps))"
  by (induction ids sps rule: first_deliveries.induct) simp_all

lemma front_run_deliveries:
  "(\<And>d. d \<in> set ds \<Longrightarrow> delivers co api d) \<Longrightarrow>
   dedup_run bf ts dedup_ttl_ms (map keyed_reading ds) dd = map Inr bs \<Longrightarrow>
   \<exists>s. front_run api bf ts (map record_of ds) (dc, dd) =
     (Inr (map event_of_payload (map snd (filter fst (zip bs (map delivered_span ds))))), s)"
proof (induction ds arbitrary: dc dd bs)
  case Nil
  then show ?case by (simp add: ret_def)
next
  case (Cons d ds)
  obtain now t v sp where d: "d = (now, t, v, sp)" by (metis prod_cases4)
  from Cons.prems(1) [of d] obtain raw bytes dc' where "validate_span co raw = Some sp"
    "latin1_encode v = Inr bytes" "decode_span api bytes dc = (Inr (PDict (dump_span sp)), dc')"
    by (fastforce simp: d delivers_def)
  from accepted_span_decoded [OF this]
  have dec: "flat_map_span api now v dc = (Inr [event_of_payload sp], dc')" .
  obtain r dd' where p: "process_element bf ts dedup_ttl_ms t (pl_span_id sp) dd = (r, dd')" by fastforce
  have kr: "keyed_reading d = (t, pl_span_id sp)" "record_of d = (now, t, v)" "delivered_span d = sp"
    by (simp_all add: d keyed_reading_def record_of_def delivered_span_def)
  from p Cons.prems(2) obtain b bs' where bs: "bs = b # bs'" "r = Inr b"
    "dedup_run bf ts dedup_ttl_ms (map keyed_reading ds) dd' = map Inr bs'"
    by (auto simp: kr Let_def)
  have key: "span_key (event_of_payload sp) = Inr (pl_span_id sp)" by (simp add: span_key_def event_of_payload_def)
  have head: "job_front api bf ts now t v (dc, dd) = (Inr (if b then [event_of_payload sp] else []), (dc', dd'))"
    by (simp add: job_front_def dec key p bs(2) bnd_def lift_res_def ret_def)
  from Cons.IH [OF Cons.prems(1) bs(3), of dc'] obtain s where
    "front_run api bf ts (map record_of ds) (dc', dd') =
      (Inr (map event_of_payload (map snd (filter fst (zip bs' (map delivered_span ds))))), s)" by auto
  with head show ?case by (simp add: kr bs(1) bnd_def ret_def)
qed

definition payload_span :: "span_payload \<Rightarrow> service_span" where
  "payload_span sp =
     (pl_service_id sp,
      \<lparr>sp_time = pl_timestamp sp, sp_cpu = pl_cpu_percent sp, sp_latency = pl_latency_p99 sp,
       sp_errors = pl_error_rate sp, sp_requests = pl_request_rate sp,
       sp_trace_id = pl_trace_id sp, sp_span_id = pl_span_id sp\<rparr>)"

lemma view_of_payload: "span_view (event_of_payload sp) = Some (payload_span sp)"
  by (simp add: span_view_def event_of_payload_def payload_span_def)


text \<open>One span delivered twice, then a later one; the watermark behind it closes the first minute.\<close>

definition ex_later :: span_payload where
  "ex_later = ex_payload\<lparr>pl_span_id := ''s2'', pl_timestamp := 100000\<rparr>"

definition ex_topic_reader :: "(unit, unit) decoder_api" where
  "ex_topic_reader = ex_decoder\<lparr>json_loads := (\<lambda>b. Inr (PDict (dump_span (if b = [123] then ex_payload else ex_later))))\<rparr>"

definition ex_deliveries :: "delivery list" where
  "ex_deliveries = [(7, ex_at 700, [123], ex_payload), (8, ex_at 701, [123], ex_payload), (9, ex_at 702, [123, 125], ex_later)]"

definition ex_job_items :: "job_item list" where
  "ex_job_items = [Elem (payload_span ex_payload), Elem (payload_span ex_later), Mark 0 94999]"

lemma ex_delivers: "d \<in> set ex_deliveries \<Longrightarrow> delivers ex_coercions ex_topic_reader d"
proof -
  have valid: "\<exists>raw. validate_span ex_coercions raw = Some ex_payload" "\<exists>raw. validate_span ex_coercions raw = Some ex_later"
    using validate_dump [OF ex_coercion_law ex_payload_valid] validate_dump [OF ex_coercion_law, of ex_later]
    by (auto simp: valid_payload_def ex_payload_def ex_later_def)
  have "\<exists>dc'. decode_span ex_topic_reader [123] dc = (Inr (PDict (dump_span ex_payload)), dc')"
    "\<exists>dc'. decode_span ex_topic_reader [123, 125] dc = (Inr (PDict (dump_span ex_later)), dc')" for dc
    by (simp_all add: decode_span_def safe_json_loads_def ex_topic_reader_def)
  with valid show "d \<in> set ex_deliveries \<Longrightarrow> delivers ex_coercions ex_topic_reader d"
    by (auto simp: ex_deliveries_def delivers_def latin1_encode_def)
qed


subsection \<open>From Flink to the correlation engine\<close>

lemma anomaly_read_back:
  "read_anomaly (PDict (anomaly_dict a)) =
     Inr \<lparr>service_id = ae_service_id a, detected_at = of_int (ae_detected_at a),
          anomaly_type = Some (ae_type a), severity = Some (ae_severity a), anomaly_id = Some (ae_id a)\<rparr>"
  "has_type (PDict (anomaly_dict a))"
  by (simp_all add: read_anomaly_def anomaly_dict_def dict_defs has_type_def)

text \<open>
  C24. What the detector emits the correlation engine can read: every document of a window whose numbers
  numpy computed is accepted, with the service of the window's key, an anomaly type, a severity from 1 to
  5 and the time of one of the window's events, so no anomaly of the detector can stop the engine.
\<close>

theorem flink_anomalies_feed_engine:
  assumes "numpy_law (we_numpy env)"
    and "zscore_process env now key wend events s = (Inr docs, t)" and "d \<in> set docs"
  shows "has_type (PDict d) \<and>
         (\<exists>a. read_anomaly (PDict d) = Inr a \<and> service_id a = key \<and>
            anomaly_type a \<in> Some ` {''CPU_SPIKE'', ''LATENCY_BURST'', ''ERROR_RATE_SPIKE'', ''REQUEST_DROP''} \<and>
            severity a \<in> Some ` {1..5} \<and> detected_at a \<in> (\<lambda>e. of_int (sp_time e)) ` set events)"
proof -
  from assms(2,3) obtain c where
    c: "evaluate_window (we_numpy env) zscore_threshold min_window_events events
          (wend - slide_interval_seconds * 1000) = Inr (Some c)"
    and d: "d = anomaly_dict (build_anomaly (we_uuid5 env) key c)"
    by (auto simp: zscore_process_def Let_def split: sum.splits option.splits prod.splits)
  from assms(1) c obtain f where "f \<in> set metric_fields" "cand_type c = mf_type f" "cand_event c \<in> set events"
    by (rule evaluate_elim)
  then show ?thesis
    using compute_severity_bounds by (auto simp: d anomaly_read_back build_anomaly_def Let_def metric_fields_def)
qed

theorem flink_anomalies_feed_engine_witness:
  "\<exists>d. has_type (PDict d) \<and> (\<exists>a. read_anomaly (PDict d) = Inr a \<and> service_id a = ''svc-a'')"
proof -
  obtain t where "zscore_process ex_env 0 ''svc-a'' 300000 ex_window ex_window_state =
      (Inr [anomaly_dict (build_anomaly (\<lambda>n. n) ''svc-a'' ex_candidate)], t)"
    using ex_process [of ex_window_state 0] by (auto simp: ex_window_state_def)
  from flink_anomalies_feed_engine [OF _ this] ex_numpy_law show ?thesis
    by (auto simp: ex_env_def)
qed

subsection \<open>From the correlation engine to the orchestrator\<close>

lemma published_payload:
  "published_shape (incident_payload iid c r sev) sev (cluster_types c) (sort (service_ids c))"
  "map_of (incident_payload iid c r sev) ''incident_id'' = Some (PStr iid)"
  "map_of (incident_payload iid c r sev) ''root_cause_service'' = Some (PStr (root_cause r))"
  by (simp_all add: published_shape_def incident_payload_def)

lemma safe_m_rules: "(\<And>s. m_rules (snd (p s)) = m_rules s) \<Longrightarrow> m_rules (snd (safe l p s)) = m_rules s"
  by (auto simp: safe_def count_defs split: prod.splits sum.splits) (metis snd_conv)+

lemma lift_m_rules: "m_rules (snd (on_k8s q s)) = m_rules s" "m_rules (snd (on_world p s)) = m_rules s"
  by (simp_all add: on_k8s_def on_world_def split: prod.splits)

lemma run_actions_m_rules: "m_rules (run_actions cfg api i rc acts s) = m_rules s"
  by (simp add: run_actions_def do_trigger_def do_rollback_def do_slack_def do_runbook_def
      case_prod_unfold Let_def safe_m_rules lift_m_rules)


definition ex_incident_cluster :: cluster where
  "ex_incident_cluster =
     \<lparr>cid = 0, anomalies = [\<lparr>service_id = ''a'', detected_at = 1000, anomaly_type = Some ''CPU_SPIKE'',
        severity = Some 3, anomaly_id = Some ''x''\<rparr>],
      service_ids = [''a''], created_at = 1, last_updated = 1\<rparr>"


end
