(* ===== verification/Wire_Format.thy ===== *)
theory Wire_Format
  imports Pipeline Ingest_Delivery
begin

section \<open>The wire format\<close>

text \<open>
  \<open>ingestion/serialisation/avro_serialiser.py\<close> with its schema, and the way of a span from the ingestion service
  through the topic to Flink: the serialiser frames an Avro body, Kafka carries bytes, the source hands them over
  as ISO-8859-1 characters, and the decoder takes the frame apart. Avro's own encoding is a parameter.
\<close>

subsection \<open>Schema and frame\<close>

datatype avro_type = ANull | ABoolean | ALong | ADouble | AString | AUnion "avro_type list"

text \<open>\<open>SCHEMA\<close>: the fields in their order, with their types and defaults.\<close>

definition span_schema :: "(string \<times> avro_type \<times> pyval option) list" where
  "span_schema =
     [(''trace_id'', AString, None), (''span_id'', AString, None), (''service_id'', AString, None),
      (''timestamp'', ALong, None), (''cpu_percent'', ADouble, None), (''latency_p99'', ADouble, None),
      (''error_rate'', ADouble, None), (''request_rate'', ADouble, None),
      (''anomaly_type'', AUnion [ANull, AString], Some PNone), (''is_anomaly'', ABoolean, Some (PBool False))]"

text \<open>A value of exactly the type; a long has 64 bits.\<close>

fun fits :: "avro_type \<Rightarrow> pyval \<Rightarrow> bool" where
  "fits ANull v = (case v of PNone \<Rightarrow> True | _ \<Rightarrow> False)"
| "fits ABoolean v = (case v of PBool b \<Rightarrow> True | _ \<Rightarrow> False)"
| "fits ALong v = (case v of PInt n \<Rightarrow> - (2 ^ 63) \<le> n \<and> n < 2 ^ 63 | _ \<Rightarrow> False)"
| "fits ADouble v = (case v of PFloat x \<Rightarrow> True | _ \<Rightarrow> False)"
| "fits AString v = (case v of PStr s \<Rightarrow> True | _ \<Rightarrow> False)"
| "fits (AUnion ts) v = list_ex (\<lambda>t. fits t v) ts"

fun record_fits :: "(string \<times> avro_type \<times> pyval option) list \<Rightarrow> pydict \<Rightarrow> bool" where
  "record_fits [] [] = True"
| "record_fits ((name, t, dflt) # fs) ((k, v) # d) = (k = name \<and> fits t v \<and> record_fits fs d)"
| "record_fits _ _ = False"

text \<open>
  The Confluent frame: magic byte 0, the schema's id as four bytes, most significant first, and the Avro body.
\<close>

definition pack_be32 :: "32 word \<Rightarrow> bytes" where
  "pack_be32 w = [ucast (drop_bit 24 w), ucast (drop_bit 16 w), ucast (drop_bit 8 w), ucast w]"

definition wire_frame :: "32 word \<Rightarrow> bytes \<Rightarrow> bytes" where
  "wire_frame sid body = 0 # pack_be32 sid @ body"

text \<open>
  \<open>SpanAvroSerializer\<close>: the library's serialiser, with the identity as \<open>to_dict\<close>, called with the context of the
  topic's values.
\<close>

type_synonym 'w avro_lib = "(pydict \<Rightarrow> pydict) \<Rightarrow> string \<times> string \<Rightarrow> pydict \<Rightarrow> ('w, payload) prog"

definition span_serializer :: "'w avro_lib \<Rightarrow> string \<Rightarrow> pydict \<Rightarrow> ('w, payload) prog" where
  "span_serializer lib topic rec = lib (\<lambda>r. r) (topic, ''value'') rec"

text \<open>
  What the libraries document: a record that fits the schema and is serialised at all is framed under an id by which
  the registry knows the schema, and the reader returns it from the body; the registry never confuses ids.
\<close>

definition wire_law :: "'w avro_lib \<Rightarrow> ('sch, 'x) decoder_api \<Rightarrow> (32 word \<Rightarrow> 'sch) \<Rightarrow> bool" where
  "wire_law lib rd reg \<longleftrightarrow>
     (\<forall>to_dict ctx obj w p w'. lib to_dict ctx obj w = (Inr p, w') \<longrightarrow> record_fits span_schema (to_dict obj) \<longrightarrow>
        (\<exists>sid body. body \<noteq> [] \<and> map of_char p = wire_frame sid body \<and>
           read_avro rd (reg sid) body = Inr (PDict (to_dict obj)))) \<and>
     (\<forall>sid w sch w'. get_schema rd sid w = (Inr sch, w') \<longrightarrow> sch = reg sid)"

text \<open>The source's charset: one character for every byte.\<close>

definition latin1_decode :: "payload \<Rightarrow> nat list" where
  "latin1_decode p = map of_char p"

subsection \<open>Round trips\<close>

lemma unpack_pack: "unpack_be32 (pack_be32 w) = Inr w"
proof -
  have "bit (push_bit 24 (ucast (ucast (drop_bit 24 w) :: 8 word)) OR push_bit 16 (ucast (ucast (drop_bit 16 w) :: 8 word)) OR
      push_bit 8 (ucast (ucast (drop_bit 8 w) :: 8 word)) OR ucast (ucast w :: 8 word) :: 32 word) n = bit w n"
    if "n < 32" for n
  proof -
    from that consider "n < 8" | "8 \<le> n \<and> n < 16" | "16 \<le> n \<and> n < 24" | "24 \<le> n \<and> n < 32" by linarith
    then show ?thesis by cases (auto simp: bit_simps)
  qed
  then show ?thesis by (simp add: pack_be32_def) (rule bit_word_eqI, simp)
qed

lemma latin1_lossless: "latin1_encode (latin1_decode p) = Inr (map of_char p)"
  by (simp add: latin1_encode_def latin1_decode_def of_nat_of_char)

lemma payload_fits: "valid_payload sp \<Longrightarrow> pl_timestamp sp < 2 ^ 63 \<Longrightarrow> record_fits span_schema (dump_span sp)"
  by (auto simp: span_schema_def dump_span_def valid_payload_def split: option.split)

definition cache_agrees :: "(32 word \<Rightarrow> 'sch) \<Rightarrow> ('sch, 'x) decoder \<Rightarrow> bool" where
  "cache_agrees reg dc \<longleftrightarrow> (\<forall>sid sch. schemas dc sid = Some sch \<longrightarrow> sch = reg sid)"

definition registry_up :: "('sch, 'x) decoder_api \<Rightarrow> bool" where
  "registry_up rd \<longleftrightarrow> (\<forall>sid w. \<exists>sch w'. get_schema rd sid w = (Inr sch, w'))"

lemma schema_found:
  assumes law: "wire_law lib rd reg" and cache: "cache_agrees reg dc" and up: "registry_up rd"
  shows "\<exists>dc'. schema_for rd sid dc = (Inr (reg sid), dc') \<and> cache_agrees reg dc' \<and>
           decode_failures dc' = decode_failures dc"
proof (cases "schemas dc sid")
  case (Some sch)
  with cache show ?thesis by (auto simp: schema_for_def cache_agrees_def)
next
  case None
  from up obtain sch w' where get: "get_schema rd sid (dec_world dc) = (Inr sch, w')"
    unfolding registry_up_def by blast
  moreover have "sch = reg sid" using law get unfolding wire_law_def by blast
  ultimately show ?thesis using None cache by (auto simp: schema_for_def cache_agrees_def)
qed

lemma framed_record_decoded:
  assumes "wire_law lib rd reg" and "cache_agrees reg dc" and "registry_up rd"
    and body: "body \<noteq> []" "read_avro rd (reg sid) body = Inr v"
  shows "\<exists>dc'. decode_span rd (wire_frame sid body) dc = (Inr v, dc') \<and> cache_agrees reg dc' \<and>
           decode_failures dc' = decode_failures dc"
proof -
  have len: "length (pack_be32 sid) = 4" by (simp add: pack_be32_def)
  have "decode_avro rd (wire_frame sid body) dc = (case schema_for rd sid dc of
      (Inr sch, t) \<Rightarrow> (case read_avro rd sch body of Inr x \<Rightarrow> (Inr x, t) | Inl e \<Rightarrow> (Inr PNone, decode_failed e t))
    | (Inl e, t) \<Rightarrow> (Inr PNone, decode_failed e t))"
    by (auto simp: decode_avro_def wire_frame_def len unpack_pack bnd_def lift_res_def split: prod.splits sum.splits)
  with schema_found [OF assms(1-3), of sid] body show ?thesis
    by (auto simp: decode_span_def wire_frame_def len)
qed

lemma serialised_span_emitted:
  assumes "wire_law lib rd reg" and "cache_agrees reg dc" and "registry_up rd"
    and sp: "validate_span co raw = Some sp" "pl_timestamp sp < 2 ^ 63"
    and "span_serializer lib topic (dump_span sp) w = (Inr p, w')"
  shows "\<exists>dc'. flat_map_span rd now (latin1_decode p) dc = (Inr [event_of_payload sp], dc') \<and> cache_agrees reg dc' \<and>
           decode_failures dc' = decode_failures dc"
proof -
  from payload_fits [OF validate_span_valid [OF sp(1)] sp(2)] assms(1,6)
  obtain sid body where body: "body \<noteq> []" "map of_char p = wire_frame sid body"
    "read_avro rd (reg sid) body = Inr (PDict (dump_span sp))"
    unfolding wire_law_def span_serializer_def by blast
  from framed_record_decoded [OF assms(1-3) body(1,3)] obtain dc' where
    dc': "decode_span rd (wire_frame sid body) dc = (Inr (PDict (dump_span sp)), dc')" "cache_agrees reg dc'"
    "decode_failures dc' = decode_failures dc" by blast
  from latin1_lossless [of p] have "latin1_encode (latin1_decode p) = Inr (wire_frame sid body)" by (simp add: body)
  from accepted_span_decoded [OF sp(1) this dc'(1)] dc' show ?thesis by blast
qed

subsection \<open>From a request to Flink\<close>

text \<open>
  \<open>sent\<close> observes the records of the raw topic: accepting a message for it appends the message, and nothing else does.
\<close>

definition sent_law :: "'w ingest_env \<Rightarrow> ('w \<Rightarrow> (string \<times> payload) list) \<Rightarrow> bool" where
  "sent_law env sent \<longleftrightarrow>
     (\<forall>d w. sent (snd (avro_serialize (ie_producer env) d w)) = sent w) \<and>
     (\<forall>topic k p why w. sent (snd (produce_to (ie_producer env) topic k p why w)) =
        sent w @ (if topic = raw_topic \<and> fst (produce_to (ie_producer env) topic k p why w) = Inr () then [(k, p)] else [])) \<and>
     (\<forall>t w. sent (snd (poll_kafka (ie_producer env) t w)) = sent w) \<and>
     (\<forall>seen i w. ie_dedup env = Some seen \<longrightarrow> sent (snd (seen i w)) = sent w)"

lemma sent_on_ingest:
  assumes "on_ingest p s = (r, t)" and "\<And>w. sent (snd (p w)) = sent w"
  shows "sent (ing_world t) = sent (ing_world s)"
  using assms(1) assms(2) [of "ing_world s"] by (auto simp: on_ingest_def split: prod.splits)

lemma sent_dead_letter:
  assumes "sent_law env sent"
  shows "sent (ing_world (dead_letter (ie_producer env) v k why s)) = sent (ing_world s)"
proof -
  have "sent (snd (produce_to (ie_producer env) dlq_topic k v (Some (take 300 why)) w)) = sent w" for w
    using assms by (simp add: sent_law_def dlq_topic_def raw_topic_def)
  then show ?thesis by (simp add: dead_letter_def on_ingest_def case_prod_unfold Let_def)
qed

lemma sent_on_delivery:
  "sent_law env sent \<Longrightarrow> sent (ing_world (on_delivery (ie_producer env) rep s)) = sent (ing_world s)"
  using sent_dead_letter [of env sent]
  by (cases rep rule: prod_cases3) (auto simp: on_delivery_def split: option.split)

lemma sent_serve_reports:
  assumes "sent_law env sent"
  shows "sent (ing_world (serve_reports (ie_producer env) timeout s)) = sent (ing_world s)"
proof -
  have reps: "sent (ing_world (fold (on_delivery (ie_producer env)) reps u)) = sent (ing_world u)" for reps u
    by (induction reps arbitrary: u) (simp_all add: sent_on_delivery [OF assms])
  have "sent (snd (poll_kafka (ie_producer env) timeout (ing_world s))) = sent (ing_world s)"
    using assms by (simp add: sent_law_def)
  then show ?thesis by (simp add: serve_reports_def case_prod_unfold Let_def reps)
qed

lemma sent_produce:
  assumes "sent_law env sent" and "produce_span (ie_producer env) p k s = (r, t)"
  shows "sent (ing_world t) = sent (ing_world s) @ (if r = Inr () then [(k, p)] else [])"
proof -
  let ?q = "produce_to (ie_producer env) raw_topic k p None"
  obtain r1 t1 where q: "on_ingest ?q s = (r1, t1)" by fastforce
  have "sent (snd (?q (ing_world s))) = sent (ing_world s) @ (if fst (?q (ing_world s)) = Inr () then [(k, p)] else [])"
    using assms(1) by (simp add: sent_law_def)
  with q have "sent (ing_world t1) = sent (ing_world s) @ (if r1 = Inr () then [(k, p)] else [])"
    by (auto simp: on_ingest_def split: prod.splits)
  with assms(2) q sent_serve_reports [OF assms(1)] show ?thesis
    by (cases r1) (auto simp: produce_span_def)
qed

lemma sent_publish:
  assumes law: "sent_law env sent" and pub: "publish_span (ie_producer env) d k s = (Inr True, t)"
  shows "\<exists>p w w'. avro_serialize (ie_producer env) d w = (Inr p, w') \<and> sent (ing_world t) = sent (ing_world s) @ [(k, p)]"
proof -
  obtain a s1 where a: "on_ingest (avro_serialize (ie_producer env) d) s = (a, s1)" by fastforce
  have s1: "sent (ing_world s1) = sent (ing_world s)"
    using law by (intro sent_on_ingest [OF a]) (simp add: sent_law_def)
  from pub a obtain p where p: "a = Inr p" by (cases a) (auto simp: publish_span_def)
  with a have "\<exists>w'. avro_serialize (ie_producer env) d (ing_world s) = (Inr p, w')"
    by (auto simp: on_ingest_def split: prod.splits)
  moreover have "sent (ing_world t) = sent (ing_world s1) @ [(k, p)]"
  proof -
    obtain b s2 where b: "produce_span (ie_producer env) p k s1 = (b, s2)" by fastforce
    note s2 = sent_produce [OF law b]
    show ?thesis
    proof (cases "b = Inl BufferError")
      case False
      with pub a p b s2 show ?thesis by (cases b) (auto simp: publish_span_def)
    next
      case True
      obtain c s3 where c: "produce_span (ie_producer env) p k (serve_reports (ie_producer env) (1 / 2) s2) = (c, s3)"
        by fastforce
      from sent_produce [OF law c] s2 pub a p b c True show ?thesis
        by (cases c) (auto simp: publish_span_def sent_serve_reports [OF law])
    qed
  qed
  ultimately show ?thesis using s1 by metis
qed

lemma sent_check_duplicate:
  assumes law: "sent_law env sent" and run: "check_duplicate env i s = (dup, t)"
  shows "sent (ing_world t) = sent (ing_world s)"
proof (cases "ie_dedup env")
  case None
  with run show ?thesis by (simp add: check_duplicate_def)
next
  case (Some seen)
  obtain r t1 where r: "on_ingest (seen i) s = (r, t1)" by fastforce
  have "sent (ing_world t1) = sent (ing_world s)"
    using law Some by (intro sent_on_ingest [OF r]) (simp add: sent_law_def)
  with run Some r show ?thesis by (auto simp: check_duplicate_def split: sum.splits if_splits)
qed

subsection \<open>A concrete way\<close>

definition ex_avro_lib :: "(string \<times> payload) list avro_lib" where
  "ex_avro_lib to_dict ctx obj w =
     (if to_dict obj = dump_span ex_payload then Inr (map char_of [0::nat, 0, 0, 0, 1, 9]) else Inl ValueError, w)"

definition ex_wire_env :: "(string \<times> payload) list ingest_env" where
  "ex_wire_env =
     \<lparr>ie_coercions = ex_coercions, ie_dedup = None,
      ie_producer = \<lparr>avro_serialize = span_serializer ex_avro_lib raw_topic, json_dumps = (\<lambda>d. ''{}''),
        produce_to = (\<lambda>topic k v why w. (Inr (), if topic = raw_topic then w @ [(k, v)] else w)),
        poll_kafka = (\<lambda>t w. ([], w))\<rparr>,
      ie_es_config = default_es_config, ie_format = (\<lambda>n x. ''0'')\<rparr>"

definition ex_wire_reader :: "(unit, unit) decoder_api" where
  "ex_wire_reader = ex_decoder\<lparr>read_avro := (\<lambda>sch b. Inr (PDict (dump_span ex_payload)))\<rparr>"

lemma ex_wire_laws:
  "wire_law ex_avro_lib ex_wire_reader (\<lambda>_. ())" "registry_up ex_wire_reader"
  "cache_agrees (\<lambda>_. ()) ex_decoder_start" "sent_law ex_wire_env (\<lambda>w. w)"
proof -
  have "map of_char (map char_of [0::nat, 0, 0, 0, 1, 9]) = wire_frame 1 [9]"
    by (simp add: wire_frame_def pack_be32_def of_char_def char_of_def bit_0)
  then show "wire_law ex_avro_lib ex_wire_reader (\<lambda>_. ())"
    by (auto simp: wire_law_def ex_avro_lib_def ex_wire_reader_def intro!: exI [of _ "1::32 word"] exI [of _ "[9::8 word]"])
  show "registry_up ex_wire_reader" by (simp add: registry_up_def ex_wire_reader_def ex_decoder_def)
  show "cache_agrees (\<lambda>_. ()) ex_decoder_start" by (simp add: cache_agrees_def)
  show "sent_law ex_wire_env (\<lambda>w. w)"
    by (auto simp: sent_law_def ex_wire_env_def span_serializer_def ex_avro_lib_def)
qed

lemma ex_wire_validate: "validate_span (ie_coercions ex_wire_env) (dump_span ex_payload) = Some ex_payload"
  using validate_dump [OF ex_coercion_law ex_payload_valid] by (simp add: ex_wire_env_def)

lemma ex_wire_ingest: "fst (ingest_span ex_wire_env 0 (dump_span ex_payload) ex_delivery) = Inr Accepted"
  using ex_wire_validate
  by (simp add: ingest_span_def check_duplicate_def ex_wire_env_def ex_delivery_def publish_span_def
      produce_span_def serve_reports_def on_ingest_def index_log_def span_serializer_def ex_avro_lib_def)



end
