(* ===== verification/Services.thy ===== *)
theory Services
  imports Orchestrator Correlation Ingestion Flink_Runtime "HOL-Library.Sublist"
begin

section \<open>Starting, running and stopping the services\<close>

text \<open>
  The entry points \<open>orchestrator/main.py\<close>, \<open>correlation/main.py\<close> and \<open>ingestion/main.py\<close>, with the choice
  of the LLM in \<open>orchestrator/config.py\<close> and the provider calls of \<open>integrations/llm_runbook.py\<close>: what a service does
  when something is missing at its start, and what is left when it stops. Constructors, clients and the network are
  parameters.
\<close>

subsection \<open>The LLM of the runbooks\<close>

text \<open>\<open>os.getenv(k) or d\<close>, and \<open>str.lower\<close> on ASCII text.\<close>

definition env_or :: "(string \<rightharpoonup> string) \<Rightarrow> string \<Rightarrow> string \<Rightarrow> string" where
  "env_or env k d = (case env k of None \<Rightarrow> d | Some v \<Rightarrow> if v = [] then d else v)"

definition lower_char :: "char \<Rightarrow> char" where
  "lower_char c = (if 65 \<le> (of_char c :: nat) \<and> (of_char c :: nat) \<le> 90 then char_of (of_char c + 32 :: nat) else c)"

definition llm_api_key :: "(string \<rightharpoonup> string) \<Rightarrow> string" where
  "llm_api_key env = env_or env ''LLM_API_KEY'' []"

definition llm_provider :: "(string \<rightharpoonup> string) \<Rightarrow> string" where
  "llm_provider env =
     map lower_char (env_or env ''LLM_PROVIDER''
       (if prefix ''xai-'' (llm_api_key env) then ''xai'' else ''gemini''))"

definition llm_model :: "(string \<rightharpoonup> string) \<Rightarrow> string" where
  "llm_model env = env_or env ''LLM_MODEL'' (if llm_provider env = ''xai'' then ''grok-4'' else ''gemini-flash-lite-latest'')"

definition placeholder_keys :: "string list" where
  "placeholder_keys = [[], ''your-key-here'']"

definition runbook_configured :: "(string \<rightharpoonup> string) \<Rightarrow> bool" where
  "runbook_configured env \<longleftrightarrow>
     llm_api_key env \<notin> set placeholder_keys \<and> (llm_provider env = ''gemini'' \<or> llm_provider env = ''xai'')"

text \<open>The answers of the two services; \<open>strip\<close> removes white space at both ends.\<close>

definition is_space :: "char \<Rightarrow> bool" where
  "is_space c \<longleftrightarrow> (of_char c :: nat) \<in> {9, 10, 11, 12, 13, 28, 29, 30, 31, 32, 133, 160}"

definition py_strip :: "string \<Rightarrow> string" where
  "py_strip s = rev (dropWhile is_space (rev (dropWhile is_space s)))"

record http_answer =
  ha_ok :: bool
  ha_status :: nat
  ha_text :: string
  ha_json :: "exn + pyval"

fun index_item :: "pyval \<Rightarrow> nat \<Rightarrow> exn + pyval" where
  "index_item (PList xs) i = (if i < length xs then Inr (xs ! i) else Inl IndexError)"
| "index_item (PDict d) i = Inl KeyError"
| "index_item v i = Inl TypeError"

fun key_item :: "pyval \<Rightarrow> string \<Rightarrow> exn + pyval" where
  "key_item (PDict d) k = dict_item d k"
| "key_item v k = Inl TypeError"

fun stripped :: "pyval \<Rightarrow> exn + string" where
  "stripped (PStr s) = Inr (py_strip s)"
| "stripped v = Inl AttributeError"

definition xai_answer :: "http_answer \<Rightarrow> exn + string" where
  "xai_answer r =
     (if \<not> ha_ok r then Inl (RuntimeError (''HTTP '' @ nat_str (ha_status r) @ '': '' @ take 300 (ha_text r)))
      else rbind (ha_json r) (\<lambda>j.
           rbind (key_item j ''choices'') (\<lambda>cs.
           rbind (index_item cs 0) (\<lambda>c.
           rbind (key_item c ''message'') (\<lambda>m.
           rbind (key_item m ''content'') stripped)))))"

text \<open>
  The call of \<open>generate\<close>: \<open>post\<close> is \<open>requests.post\<close> to xAI with key, model and prompt, \<open>gemini\<close> the SDK, whose
  answer has a text or \<open>None\<close>.
\<close>

definition runbook_call ::
  "(string \<rightharpoonup> string) \<Rightarrow> (string \<Rightarrow> string \<Rightarrow> string \<Rightarrow> ('w, http_answer) prog) \<Rightarrow>
     (string \<Rightarrow> string \<Rightarrow> string \<Rightarrow> ('w, pyval) prog) \<Rightarrow> string \<Rightarrow> ('w, string) prog" where
  "runbook_call env post gemini prompt =
     (if llm_provider env = ''xai''
      then bnd (post (llm_api_key env) (llm_model env) prompt) (\<lambda>r. lift_res (xai_answer r))
      else bnd (gemini (llm_api_key env) (llm_model env) prompt) (\<lambda>v. lift_res (stripped v)))"

subsection \<open>The key never reaches the log\<close>

text \<open>\<open>s.replace(old, new)\<close>; an empty \<open>old\<close> matches around every character.\<close>

function py_replace :: "string \<Rightarrow> string \<Rightarrow> string \<Rightarrow> string" where
  "py_replace old new s =
     (if old = [] then new @ concat (map (\<lambda>c. c # new) s)
      else if s = [] then []
      else if prefix old s then new @ py_replace old new (drop (length old) s)
      else hd s # py_replace old new (tl s))"
  by pat_completeness auto
termination by (relation "measure (\<lambda>(old, new, s). length s)") (auto simp: neq_Nil_conv)

declare py_replace.simps [simp del]

definition failure_message :: "string \<Rightarrow> string \<Rightarrow> string" where
  "failure_message key err = py_replace key ''<redacted>'' err"

lemma sublist_apart:
  assumes "sublist k (xs @ c # ys)" and "c \<notin> set k"
  shows "sublist k xs \<or> sublist k ys"
proof -
  from assms(1) obtain us vs where eq: "xs @ c # ys = us @ k @ vs" by (auto simp: sublist_def)
  then consider zs where "xs = us @ k @ zs" | zs where "us = xs @ c # zs" | "c \<in> set k"
    by (auto simp: append_eq_append_conv2 Cons_eq_append_conv append_eq_Cons_conv)
  then show ?thesis
  proof cases
    case (1 zs)
    then show ?thesis by (auto simp: sublist_def)
  next
    case (2 zs)
    with eq have "ys = zs @ k @ vs" by simp
    then show ?thesis by (auto simp: sublist_def)
  next
    case 3
    with assms(2) show ?thesis by simp
  qed
qed

lemma prefix_of_replaced:
  "key \<noteq> [] \<Longrightarrow> c \<notin> set k \<Longrightarrow> prefix k (py_replace key (c # new) s) \<Longrightarrow> prefix k s"
proof (induction key "c # new" s arbitrary: k rule: py_replace.induct)
  case (1 key s)
  show ?case
  proof (cases "s = [] \<or> prefix key s")
    case True
    with 1(3-5) show ?thesis
      by (cases k) (auto simp: py_replace.simps [of key _ s] split: if_splits)
  next
    case False
    with 1(3) have r: "py_replace key (c # new) s = hd s # py_replace key (c # new) (tl s)"
      by (simp add: py_replace.simps [of key _ s])
    show ?thesis
    proof (cases k)
      case (Cons a as)
      with 1(5) r have "a = hd s" "prefix as (py_replace key (c # new) (tl s))" by auto
      moreover from Cons 1(4) have "c \<notin> set as" by simp
      ultimately have "prefix as (tl s)" using 1(2) False 1(3) by blast
      with \<open>a = hd s\<close> Cons False show ?thesis by (cases s) auto
    qed simp
  qed
qed

text \<open>
  C37. A logged failure never shows the API key: whatever the error text contains, however often, the
  redacted message does not contain the key, for every key without angle brackets that is not a part of
  the word that replaces it.
\<close>

theorem redaction_hides_key:
  assumes "key \<noteq> []" and "CHR ''<'' \<notin> set key" and "CHR ''>'' \<notin> set key" and "\<not> sublist key ''redacted''"
  shows "\<not> sublist key (failure_message key err)"
  unfolding failure_message_def
proof (induction err rule: length_induct)
  case (1 s)
  show ?case
  proof (cases "s = [] \<or> prefix key s")
    case True
    show ?thesis
    proof
      assume sub: "sublist key (py_replace key ''<redacted>'' s)"
      show False
      proof (cases "s = []")
        case True
        with sub assms(1) show False by (simp add: py_replace.simps [of key _ "[]"])
      next
        case False
        let ?rest = "py_replace key ''<redacted>'' (drop (length key) s)"
        from sub True False assms(1) have "sublist key ([] @ CHR ''<'' # ''redacted'' @ CHR ''>'' # ?rest)"
          by (simp add: py_replace.simps [of key _ s])
        from sublist_apart [OF this assms(2)] assms(1) have "sublist key (''redacted'' @ CHR ''>'' # ?rest)" by simp
        from sublist_apart [OF this assms(3)] assms(4) have "sublist key ?rest" by blast
        with 1 False assms(1) show False by simp
      qed
    qed
  next
    case False
    then obtain c cs where s: "s = c # cs" by (cases s) auto
    let ?rest = "py_replace key ''<redacted>'' cs"
    have r: "py_replace key ''<redacted>'' s = c # ?rest"
      using False assms(1) unfolding s by (subst py_replace.simps) simp
    have "\<not> prefix key (c # ?rest)"
    proof
      assume p: "prefix key (c # ?rest)"
      then obtain as where key: "key = c # as" "prefix as ?rest" using assms(1) by (cases key) auto
      with prefix_of_replaced [OF assms(1), of "CHR ''<''" as "''redacted>''" cs] assms(2) have "prefix as cs" by simp
      with key s False show False by simp
    qed
    moreover from 1 s have "\<not> sublist key ?rest" by simp
    ultimately show ?thesis unfolding r by (simp add: sublist_Cons_right)
  qed
qed

theorem redaction_hides_key_witness:
  "\<not> sublist ''xai-1'' (failure_message ''xai-1'' ''401 for xai-1 (xai-1)'')"
  by (rule redaction_hides_key) (simp_all add: sublist_code)
subsection \<open>A service loop and its end\<close>

text \<open>
  What a poll of a blocking loop gives: something to handle, Ctrl-C, or an exception of the client. The loop ends
  with the last two or with an exception of the handler; \<open>None\<close> is a loop that is still listening.
\<close>

datatype 'a poll = Polled 'a | Interrupted | PollFailed exn

fun serve_polls :: "('a \<Rightarrow> ('s, unit) prog) \<Rightarrow> 'a poll list \<Rightarrow> 's \<Rightarrow> (exn + unit) option \<times> 's" where
  "serve_polls turn [] s = (None, s)"
| "serve_polls turn (Interrupted # ps) s = (Some (Inr ()), s)"
| "serve_polls turn (PollFailed e # ps) s = (Some (Inl e), s)"
| "serve_polls turn (Polled x # ps) s =
     (case turn x s of (Inl e, t) \<Rightarrow> (Some (Inl e), t) | (Inr _, t) \<Rightarrow> serve_polls turn ps t)"

text \<open>Statements one after the other, up to the first that raises; in a \<open>finally\<close> block its exception replaces the one under way.\<close>

fun run_each :: "('w, unit) prog list \<Rightarrow> ('w, unit) prog" where
  "run_each [] w = (Inr (), w)"
| "run_each (c # cs) w = (case c w of (Inl e, v) \<Rightarrow> (Inl e, v) | (Inr _, v) \<Rightarrow> run_each cs v)"

definition finally_close ::
  "('s, unit) prog \<Rightarrow> (exn + unit) option \<times> 's \<Rightarrow> (exn + unit) option \<times> 's" where
  "finally_close closing r =
     (case r of
        (None, s) \<Rightarrow> (None, s)
      | (Some res, s) \<Rightarrow>
          (case closing s of (Inl e, t) \<Rightarrow> (Some (Inl e), t) | (Inr _, t) \<Rightarrow> (Some res, t)))"

lemma serve_polls_inv:
  assumes "I s" and "\<And>x t. I t \<Longrightarrow> I (snd (turn x t))"
  shows "I (snd (serve_polls turn ps s))"
  using assms(1)
proof (induction ps arbitrary: s)
  case (Cons p ps)
  then show ?case
    using assms(2) by (cases p) (auto split: prod.splits sum.splits, (metis snd_conv)+)
qed simp

lemma finally_close_inv:
  assumes "I (snd r)" and "\<And>t. I t \<Longrightarrow> I (snd (closing t))"
  shows "I (snd (finally_close closing r))"
proof (cases r)
  case (Pair o1 s)
  with assms(1) assms(2) [of s] show ?thesis
    by (auto simp: finally_close_def split: option.splits prod.splits sum.splits)
qed

lemma run_each_keeps:
  "(\<And>c w. c \<in> set cs \<Longrightarrow> obs (snd (c w)) = obs w) \<Longrightarrow> obs (snd (run_each cs w)) = obs w"
proof (induction cs arbitrary: w)
  case (Cons c cs)
  obtain r v where c: "c w = (r, v)" by fastforce
  with Cons.prems [of c w] have "obs v = obs w" by simp
  moreover have "obs (snd (run_each cs v)) = obs v" using Cons by simp
  ultimately show ?case by (simp add: c split: sum.split)
qed simp

subsection \<open>The orchestrator process\<close>

text \<open>
  \<open>orchestrator.main.run\<close>. The constructors in their order: metrics server, rule engine, Kubernetes client (whose
  failure leaves a \<open>DisabledK8sClient\<close>), Slack, runbooks, Neo4j, consumer. The filter, the HPA holds and the
  counters start empty.
\<close>

record 'w start_api =
  sa_http :: "int \<Rightarrow> ('w, unit) prog"
  sa_rules :: "('w, rule list) prog"
  sa_kube :: "('w, unit) prog"
  sa_clients :: "('w, unit) prog list"
  sa_closers :: "('w, unit) prog list"

record orch_settings =
  os_port :: int
  os_revert_after :: int
  os_cooldown :: int
  os_max_age :: int

definition orch_config_of :: "(string \<rightharpoonup> string) \<Rightarrow> orch_settings \<Rightarrow> rule list \<Rightarrow> bool \<Rightarrow> orch_config" where
  "orch_config_of env st rs k8s =
     \<lparr>filter_cfg = \<lparr>cooldown_seconds = os_cooldown st, max_age_seconds = os_max_age st, max_seen = 2000\<rparr>,
      k8s_cfg = \<lparr>k8s_enabled = k8s, revert_after = os_revert_after st\<rparr>,
      notify_cfg = \<lparr>slack_configured = (env ''SLACK_BOT_TOKEN'' \<noteq> None \<and> env ''SLACK_BOT_TOKEN'' \<noteq> Some []),
                    llm_configured = runbook_configured env\<rparr>,
      rules = rs\<rparr>"

definition orch_boot :: "'w start_api \<Rightarrow> (string \<rightharpoonup> string) \<Rightarrow> orch_settings \<Rightarrow> ('w, orch_config) prog" where
  "orch_boot sa env st =
     bnd (start_metrics_server (sa_http sa) (os_port st)) (\<lambda>_.
     bnd (sa_rules sa) (\<lambda>rs.
     bnd (catch (bnd (sa_kube sa) (\<lambda>_. ret True)) (\<lambda>e. ret False)) (\<lambda>k8s.
     bnd (run_each (sa_clients sa)) (\<lambda>_. ret (orch_config_of env st rs k8s)))))"

definition orch_fresh :: "'w \<Rightarrow> 'w orch" where
  "orch_fresh w =
     \<lparr>filter_st = init_filter, holds = [], m_incidents = (\<lambda>_. 0), m_rules = (\<lambda>_. 0), m_actions = (\<lambda>_. 0),
      committed = 0, world = w\<rparr>"

text \<open>The left result is a start that failed.\<close>

definition orchestrator_run ::
  "'w start_api \<Rightarrow> 'w orch_api \<Rightarrow> (string \<rightharpoonup> string) \<Rightarrow> orch_settings \<Rightarrow> pyval list poll list \<Rightarrow> 'w \<Rightarrow>
     (exn \<times> 'w) + ((exn + unit) option \<times> 'w orch)" where
  "orchestrator_run sa api env st polls w =
     (case orch_boot sa env st w of
        (Inl e, w1) \<Rightarrow> Inl (e, w1)
      | (Inr cfg, w1) \<Rightarrow>
          Inr (finally_close (on_world (run_each (sa_closers sa)))
                 (serve_polls (\<lambda>ms s. (Inr (), orch_turn cfg api ms s)) polls (orch_fresh w1))))"

text \<open>Starting and closing clients scales nothing.\<close>

definition start_keeps :: "'w start_api \<Rightarrow> ('w \<Rightarrow> 'v) \<Rightarrow> bool" where
  "start_keeps sa obs \<longleftrightarrow>
     (\<forall>p w. obs (snd (sa_http sa p w)) = obs w) \<and> (\<forall>w. obs (snd (sa_rules sa w)) = obs w) \<and>
     (\<forall>w. obs (snd (sa_kube sa w)) = obs w) \<and>
     (\<forall>c \<in> set (sa_clients sa @ sa_closers sa). \<forall>w. obs (snd (c w)) = obs w)"

lemma bnd_keeps:
  assumes "\<And>w. obs (snd (m w)) = obs w" and "\<And>x w. obs (snd (f x w)) = obs w"
  shows "obs (snd (bnd m f w)) = obs w"
proof (cases "m w")
  case (Pair r v)
  with assms(1) [of w] assms(2) show ?thesis by (cases r) (simp_all add: bnd_def)
qed

lemma start_metrics_keeps:
  assumes "\<And>p w. obs (snd (http p w)) = obs w"
  shows "obs (snd (start_metrics_server http port w)) = obs w"
proof (cases "http port w")
  case (Pair r v)
  with assms [of port w] show ?thesis by (cases r) (simp_all add: start_metrics_server_def)
qed

lemma orch_boot_keeps:
  assumes "start_keeps sa obs"
  shows "obs (snd (orch_boot sa env st w)) = obs w"
proof -
  have kube: "obs (snd (catch (bnd (sa_kube sa) (\<lambda>_. ret True)) (\<lambda>e. ret False) w)) = obs w" for w
  proof (cases "sa_kube sa w")
    case (Pair r v)
    moreover have "obs (snd (sa_kube sa w)) = obs w" using assms by (simp add: start_keeps_def)
    ultimately show ?thesis by (cases r) (simp_all add: prog_defs)
  qed
  from assms show ?thesis unfolding orch_boot_def
    by (intro bnd_keeps kube start_metrics_keeps run_each_keeps) (simp_all add: start_keeps_def ret_def)
qed
lemma orchestrator_run_holds:
  assumes "only_k8s_scales api obs" and "start_keeps sa obs"
    and "orchestrator_run sa api env st polls w = Inr (r, t)"
  shows "hold_ok (obs w n) hpa_scale_up_min_replicas (map_of (holds t) n) (obs (world t) n)"
proof -
  obtain cfg w1 where boot: "orch_boot sa env st w = (Inr cfg, w1)"
    using assms(3) by (cases "orch_boot sa env st w") (auto simp: orchestrator_run_def split: sum.splits)
  let ?I = "orch_holds_inv obs (obs w)"
  from orch_boot_keeps [OF assms(2), of env st w] boot have "obs w1 = obs w" by simp
  then have "?I (orch_fresh w1)" by (simp add: orch_holds_inv_def orch_fresh_def hold_inv_def holds_ok_def)
  then have "?I (snd (serve_polls (\<lambda>ms s. (Inr (), orch_turn cfg api ms s)) polls (orch_fresh w1)))"
    by (rule serve_polls_inv) (simp add: orch_turn_holds [OF assms(1)])
  then have "?I (snd (finally_close (on_world (run_each (sa_closers sa)))
      (serve_polls (\<lambda>ms s. (Inr (), orch_turn cfg api ms s)) polls (orch_fresh w1))))"
    by (rule finally_close_inv)
      (rule orch_holds_on_world, assumption, rule run_each_keeps, use assms(2) in \<open>simp add: start_keeps_def\<close>)
  moreover from assms(3) boot have "finally_close (on_world (run_each (sa_closers sa)))
      (serve_polls (\<lambda>ms s. (Inr (), orch_turn cfg api ms s)) polls (orch_fresh w1)) = (r, t)"
    by (simp add: orchestrator_run_def)
  ultimately have "?I t" by simp
  then show ?thesis by (simp add: orch_holds_inv_def hold_inv_def holds_ok_def)
qed

text \<open>
  C27. A restart during a hold pins the service: when a run of the orchestrator ends, for whatever reason, while it
  holds an HPA, the HPA is at the target at that moment and stays there during every later run, whatever is polled
  and however long it lasts; no later run knows the original size. (Within one run every hold is put back.)
\<close>

theorem restart_pins_hpas:
  assumes "only_k8s_scales api obs" and "start_keeps sa obs"
    and "orchestrator_run sa api env st polls w = Inr (r, t)" and "map_of (holds t) n = Some h"
    and "orchestrator_run sa api env' st' polls' (world t) = Inr (r', u)"
  shows "obs (world t) n = Some hpa_scale_up_min_replicas \<and> obs (world u) n = Some hpa_scale_up_min_replicas"
proof -
  from orchestrator_run_holds [OF assms(1-3), of n] assms(4)
  have raised: "obs (world t) n = Some hpa_scale_up_min_replicas" by (cases h) simp
  from orchestrator_run_holds [OF assms(1,2,5), of n]
  have "hold_ok (Some hpa_scale_up_min_replicas) hpa_scale_up_min_replicas (map_of (holds u) n) (obs (world u) n)"
    unfolding raised .
  then have "obs (world u) n = Some hpa_scale_up_min_replicas"
    by (cases "map_of (holds u) n")
      (auto simp: effective_min_def hpa_scale_up_min_replicas_def split: option.splits if_splits)
  with raised show ?thesis ..
qed

definition ex_scale_rules :: "rule list" where
  "ex_scale_rules = [\<lparr>rule_name = ''scale'', rule_condition = no_condition, rule_actions = [''trigger_hpa'']\<rparr>]"

definition ex_start_api :: "ex_world start_api" where
  "ex_start_api =
     \<lparr>sa_http = (\<lambda>p w. (Inl os_error, w)), sa_rules = (\<lambda>w. (Inr ex_scale_rules, w)), sa_kube = ret (),
      sa_clients = [ret (), ret (), ret (), ret ()], sa_closers = [ret (), ret ()]\<rparr>"

definition ex_settings :: orch_settings where
  "ex_settings = \<lparr>os_port = 9103, os_revert_after = 900, os_cooldown = 300, os_max_age = 3600\<rparr>"

lemma ex_start_keeps: "start_keeps ex_start_api snd"
  by (simp add: start_keeps_def ex_start_api_def ret_def)
lemma ex_boot: "orch_boot ex_start_api env ex_settings w = (Inr (orch_config_of env ex_settings ex_scale_rules True), w)"
  by (simp add: orch_boot_def ex_start_api_def prog_defs start_metrics_server_def os_error_def)

lemma ex_closers: "run_each (sa_closers ex_start_api) w = (Inr (), w)"
  by (simp add: ex_start_api_def ret_def)

lemma ex_run_ends: "\<exists>r u. orchestrator_run ex_start_api ex_api env ex_settings polls w = Inr (r, u)"
  by (simp add: orchestrator_run_def ex_boot)

lemma ex_scaled:
  "holds (orch_turn (orch_config_of env ex_settings ex_scale_rules True) ex_api [PDict (ex_published 3 [''a''])]
     (orch_fresh (1000, [''payment-service'' \<mapsto> 2]))) = [(''payment-service'', (2, 1900))]"
  by (simp add: orch_turn_def process_message_def dispatch_def dispatch_dict_def filter_check_def evict_eq
      take_last_def stale_age_def severity_of_def py_or_def in_cooldown_def num_minus_def dict_defs init_filter_def
      Let_def handle_incident_def matches_def below_severity_def lacks_types_def below_members_def no_condition_def
      orch_config_of_def ex_scale_rules_def orch_fresh_def ex_api_def on_k8s_def revert_expired_def ok_api_def
      safe_def run_actions_def do_trigger_def do_rollback_def do_runbook_def do_slack_def ex_settings_def count_defs
      trigger_hpa_def rollout_name_for_def service_id_to_rollout_def hpa_scale_up_min_replicas_def
      effective_min_def short_id_def ex_published_def)

theorem restart_pins_hpas_witness:
  "\<exists>r t r' u. orchestrator_run ex_start_api ex_api Map.empty ex_settings
       [Polled [PDict (ex_published 3 [''a''])], Interrupted] (1000, [''payment-service'' \<mapsto> 2]) = Inr (r, t) \<and>
     orchestrator_run ex_start_api ex_api Map.empty ex_settings [Polled [], Polled [], Interrupted] (world t) = Inr (r', u) \<and>
     snd (world u) ''payment-service'' = Some 4"
proof -
  from ex_run_ends obtain r t where t: "orchestrator_run ex_start_api ex_api Map.empty ex_settings
       [Polled [PDict (ex_published 3 [''a''])], Interrupted] (1000, [''payment-service'' \<mapsto> 2]) = Inr (r, t)" by blast
  then have "map_of (holds t) ''payment-service'' = Some (2, 1900)"
    by (auto simp: orchestrator_run_def ex_boot finally_close_def on_world_def ex_closers ex_scaled)
  moreover from ex_run_ends obtain r' u where u: "orchestrator_run ex_start_api ex_api Map.empty ex_settings
       [Polled [], Polled [], Interrupted] (world t) = Inr (r', u)" by blast
  ultimately have "snd (world u) ''payment-service'' = Some hpa_scale_up_min_replicas"
    using restart_pins_hpas [OF ex_only_k8s_scales ex_start_keeps t _ u] by blast
  with t u show ?thesis by (auto simp: hpa_scale_up_min_replicas_def)
qed

text \<open>What a run took from the topic before it ended.\<close>

fun taken :: "'a poll list \<Rightarrow> 'a list" where
  "taken (Polled x # ps) = x # taken ps"
| "taken _ = []"

lemma serve_polls_total:
  "snd (serve_polls (\<lambda>x s. (Inr (), f x s)) ps s) = fold f (taken ps) s"
proof (induction ps arbitrary: s)
  case (Cons p ps)
  then show ?case by (cases p) simp_all
qed simp

lemma orch_turn_counts:
  "outcomes (orch_turn cfg api msgs s) = outcomes s + length msgs \<and>
   committed (orch_turn cfg api msgs s) = committed s + length msgs"
  by (simp add: orch_turn_def outcome_meter.run_total commit_meter.run_total) (simp add: outcomes_def)

lemma orch_turns_count:
  "outcomes (fold (orch_turn cfg api) turns s) = outcomes s + length (concat turns) \<and>
   committed (fold (orch_turn cfg api) turns s) = committed s + length (concat turns)"
  by (induction turns arbitrary: s) (simp_all add: orch_turn_counts)

text \<open>Without a cluster no HPA is ever held.\<close>

lemma no_cluster_holds:
  assumes "\<not> k8s_enabled (k8s_cfg cfg)"
  shows "holds (orch_turn cfg api msgs s) = holds s"
proof -
  have k: "holds (snd (safe l (on_k8s p) s)) = holds s" if "\<And>k. raised (snd (p k)) = raised k"
    for l s and p :: "('a k8s, 'b) prog"
    using that [of "\<lparr>raised = holds s, kworld = world s\<rparr>"]
    by (auto simp: safe_def on_k8s_def case_prod_unfold Let_def split: sum.splits)
  have w: "holds (snd (safe l (on_world p) s)) = holds s" for l s and p :: "('a, 'b) prog"
    by (auto simp: safe_def on_world_def case_prod_unfold Let_def split: sum.splits)
  note off = assms rollout_name_for_def trigger_hpa_def rollback_canary_def revert_expired_def
  have acts: "holds (run_actions cfg api i rc acts s) = holds s" for i rc acts s
    by (simp add: run_actions_def do_slack_def do_runbook_def do_rollback_def do_trigger_def case_prod_unfold
        Let_def w k off)
  have hd: "holds (snd (handle_incident cfg api i s)) = holds s" for i s
    by (auto simp: handle_incident_def Let_def acts split: sum.splits option.splits)
  have dd: "holds (dispatch_dict cfg api i s) = holds s" for i s
    using hd by (auto simp: dispatch_dict_def case_prod_unfold Let_def split: sum.splits verdict.splits)
  have "holds (process_message cfg api v s) = holds s" for v s
    by (auto simp: process_message_def Let_def dispatch_def dd split: pyval.splits)
  then have "holds (fold (process_message cfg api) vs s) = holds s" for vs s
    by (induction vs arbitrary: s) simp_all
  then show ?thesis by (simp add: orch_turn_def k off)
qed
text \<open>Everything but the Kubernetes client starts; the metrics port may be taken.\<close>

definition others_start :: "'w start_api \<Rightarrow> bool" where
  "others_start sa \<longleftrightarrow>
     (\<forall>p v. fst (sa_http sa p v) \<in> {Inr (), Inl os_error}) \<and> (\<forall>v. \<exists>rs. fst (sa_rules sa v) = Inr rs) \<and>
     (\<forall>c \<in> set (sa_clients sa). \<forall>v. fst (c v) = Inr ())"

lemma bnd_result:
  "fst (m w) = Inr x \<Longrightarrow> bnd m f w = f x (snd (m w))"
  by (cases "m w") (auto simp: bnd_def)

lemma run_each_result: "(\<And>c v. c \<in> set cs \<Longrightarrow> fst (c v) = Inr ()) \<Longrightarrow> fst (run_each cs w) = Inr ()"
proof (induction cs arbitrary: w)
  case (Cons c cs)
  obtain r v where c: "c w = (r, v)" by fastforce
  with Cons.prems [of c w] have "r = Inr ()" by simp
  with c Cons show ?case by simp
qed simp

lemma boot_without_cluster:
  assumes "others_start sa" and "\<And>v. \<exists>e. fst (sa_kube sa v) = Inl e"
  shows "\<exists>rs w1. orch_boot sa env st w = (Inr (orch_config_of env st rs False), w1)"
proof -
  have http: "\<exists>b. fst (start_metrics_server (sa_http sa) p v) = Inr b" for p v
  proof (cases "sa_http sa p v")
    case (Pair r u)
    moreover have "fst (sa_http sa p v) \<in> {Inr (), Inl os_error}" using assms(1) unfolding others_start_def by blast
    ultimately show ?thesis by (auto simp: start_metrics_server_def)
  qed
  then obtain b where b: "fst (start_metrics_server (sa_http sa) (os_port st) w) = Inr b" by blast
  have rules: "\<exists>rs. fst (sa_rules sa v) = Inr rs" for v using assms(1) unfolding others_start_def by blast
  have kube: "fst (catch (bnd (sa_kube sa) (\<lambda>_. ret True)) (\<lambda>e. ret False) v) = Inr False" for v
    using assms(2) [of v] by (auto simp: prog_defs split: prod.splits sum.splits)
  have clients: "fst (run_each (sa_clients sa) v) = Inr ()" for v
    using assms(1) by (intro run_each_result) (simp add: others_start_def)
  let ?m1 = "start_metrics_server (sa_http sa) (os_port st)"
  from rules obtain rs where rs: "fst (sa_rules sa (snd (?m1 w))) = Inr rs" by blast
  have "orch_boot sa env st w = ret (orch_config_of env st rs False)
      (snd (run_each (sa_clients sa) (snd (catch (bnd (sa_kube sa) (\<lambda>_. ret True)) (\<lambda>e. ret False)
        (snd (sa_rules sa (snd (?m1 w))))))))"
    unfolding orch_boot_def
    by (simp add: bnd_result [where m = ?m1, OF b] bnd_result [where m = "sa_rules sa", OF rs]
        bnd_result [where m = "catch (bnd (sa_kube sa) (\<lambda>_. ret True)) (\<lambda>e. ret False)", OF kube]
        bnd_result [where m = "run_each (sa_clients sa)", OF clients])
  then show ?thesis by (auto simp: ret_def)
qed

text \<open>
  C28. The orchestrator works without a cluster: when the Kubernetes client cannot be made but everything else starts,
  the service starts and serves all the same; every message polled before the end of the run is counted under exactly one
  outcome and committed, no hold is kept, and every HPA has the \<open>minReplicas\<close> it had before.
\<close>

theorem no_cluster_still_serves:
  assumes "others_start sa" and "\<And>v. \<exists>e. fst (sa_kube sa v) = Inl e"
    and "only_k8s_scales api obs" and "start_keeps sa obs"
  shows "\<exists>r t. orchestrator_run sa api env st polls w = Inr (r, t) \<and>
           outcomes t = length (concat (taken polls)) \<and> committed t = length (concat (taken polls)) \<and>
           holds t = [] \<and> (\<forall>n. effective_min (obs (world t) n) = effective_min (obs w n))"
proof -
  obtain rs w1 where boot: "orch_boot sa env st w = (Inr (orch_config_of env st rs False), w1)"
    using boot_without_cluster [OF assms(1,2)] by blast
  let ?cfg = "orch_config_of env st rs False"
  have cfg: "\<not> k8s_enabled (k8s_cfg ?cfg)" by (simp add: orch_config_of_def)
  let ?t = "fold (orch_turn ?cfg api) (taken polls) (orch_fresh w1)"
  obtain r t where stop: "finally_close (on_world (run_each (sa_closers sa)))
      (serve_polls (\<lambda>ms s. (Inr (), orch_turn ?cfg api ms s)) polls (orch_fresh w1)) = (r, t)" by fastforce
  then have run: "orchestrator_run sa api env st polls w = Inr (r, t)" using boot by (simp add: orchestrator_run_def)
  have closing: "outcomes (snd (on_world q s)) = outcomes s \<and> committed (snd (on_world q s)) = committed s \<and>
      holds (snd (on_world q s)) = holds s" for q :: "('a, unit) prog" and s
    by (simp add: outcomes_def)
  have "outcomes (snd (r, t)) = outcomes ?t \<and> committed (snd (r, t)) = committed ?t \<and> holds (snd (r, t)) = holds ?t"
    unfolding stop [symmetric] by (rule finally_close_inv) (simp_all add: serve_polls_total closing)
  moreover have "holds (fold (orch_turn ?cfg api) turns s) = holds s" for turns s
    by (induction turns arbitrary: s) (simp_all add: no_cluster_holds [OF cfg])
  ultimately have "outcomes t = length (concat (taken polls))" "committed t = length (concat (taken polls))"
    and free: "holds t = []"
    using orch_turns_count [of ?cfg api "taken polls" "orch_fresh w1"]
    by (simp_all add: orch_fresh_def outcomes_def outcome_labels_def)
  moreover have "effective_min (obs (world t) n) = effective_min (obs w n)" for n
    using orchestrator_run_holds [OF assms(3,4) run, of n] free by simp
  ultimately show ?thesis using run by blast
qed

definition ex_no_cluster :: "ex_world start_api" where
  "ex_no_cluster = ex_start_api\<lparr>sa_kube := raise (ExternalError ''ConfigException'')\<rparr>"

theorem no_cluster_still_serves_witness:
  "\<exists>r t. orchestrator_run ex_no_cluster ex_api Map.empty ex_settings
       [Polled [PDict (ex_published 3 [''a''])], Polled [], Interrupted] (1000, [''payment-service'' \<mapsto> 2]) = Inr (r, t) \<and>
     committed t = 1 \<and> holds t = []"
proof -
  have "others_start ex_no_cluster" "\<And>v. \<exists>e. fst (sa_kube ex_no_cluster v) = Inl e" "start_keeps ex_no_cluster snd"
    by (simp_all add: others_start_def start_keeps_def ex_no_cluster_def ex_start_api_def ret_def raise_def)
  from no_cluster_still_serves [OF this(1,2) ex_only_k8s_scales this(3), of Map.empty ex_settings
      "[Polled [PDict (ex_published 3 [''a''])], Polled [], Interrupted]" "(1000, [''payment-service'' \<mapsto> 2])"]
  show ?thesis by auto
qed

subsection \<open>The correlation process\<close>

text \<open>
  \<open>correlation.main.run\<close>: \<open>ea_clients\<close> are Neo4j, the Granger engine's and the store's database connections, the
  publisher and the consumer, \<open>ea_closers\<close> the five closes of the \<open>finally\<close> block, both in the order of the code. The
  metrics server comes last; the engine's memory starts empty.
\<close>

record 'w engine_start =
  ea_http :: "int \<Rightarrow> ('w, unit) prog"
  ea_clients :: "('w, unit) prog list"
  ea_closers :: "('w, unit) prog list"

definition on_engine :: "('w, 'a) prog \<Rightarrow> ('w engine, 'a) prog" where
  "on_engine p s = (let (r, w) = p (engine_world s) in (r, s\<lparr>engine_world := w\<rparr>))"

definition engine_fresh :: "real \<Rightarrow> 'w \<Rightarrow> 'w engine" where
  "engine_fresh now w =
     \<lparr>clusters = init_clusterer, last_check = now, ingested_total = 0, incidents_total = (\<lambda>_. 0),
      failures_total = (\<lambda>_. 0), publisher_log = init_log, engine_world = w\<rparr>"

definition correlation_run ::
  "'w engine_start \<Rightarrow> 'w engine_api \<Rightarrow> int \<Rightarrow> pyval option poll list \<Rightarrow> 'w \<Rightarrow>
     (exn \<times> 'w) + ((exn + unit) option \<times> 'w engine)" where
  "correlation_run ea api port polls w =
     (case bnd (run_each (ea_clients ea)) (\<lambda>_. start_metrics_server (ea_http ea) port) w of
        (Inl e, w1) \<Rightarrow> Inl (e, w1)
      | (Inr _, w1) \<Rightarrow>
          (let (now, w2) = wall_clock api w1
           in Inr (finally_close (on_engine (run_each (ea_closers ea)))
                     (serve_polls (engine_turn api) polls (engine_fresh now w2)))))"

lemma serve_polls_engine:
  assumes "\<And>x w. \<exists>xs w1. graph api x w = (Inr xs, w1)"
    and "\<forall>v. Some v \<in> set (taken ps) \<longrightarrow> well_formed_anomaly v"
  shows "\<exists>t. serve_polls (engine_turn api) (ps @ Interrupted # qs) s = (Some (Inr ()), t) \<and>
             ingested_total t = ingested_total s + length (filter (\<lambda>p. p \<noteq> None) (taken ps))
         \<or> (\<exists>e. PollFailed e \<in> set ps \<and> serve_polls (engine_turn api) (ps @ Interrupted # qs) s = (Some (Inl e), t) \<and>
             ingested_total t = ingested_total s + length (filter (\<lambda>p. p \<noteq> None) (taken ps)))"
  using assms(2)
proof (induction ps arbitrary: s)
  case (Cons p ps)
  show ?case
  proof (cases p)
    case (Polled x)
    with engine_turn_survives [of api x s] assms(1) Cons.prems obtain u where
      u: "engine_turn api x s = (Inr (), u)" "ingested_total u = ingested_total s + (if x = None then 0 else 1)" by auto
    from Cons.IH [of u] Cons.prems Polled obtain t where
      "serve_polls (engine_turn api) (ps @ Interrupted # qs) u = (Some (Inr ()), t) \<and>
         ingested_total t = ingested_total u + length (filter (\<lambda>p. p \<noteq> None) (taken ps)) \<or>
       (\<exists>e. PollFailed e \<in> set ps \<and> serve_polls (engine_turn api) (ps @ Interrupted # qs) u = (Some (Inl e), t) \<and>
         ingested_total t = ingested_total u + length (filter (\<lambda>p. p \<noteq> None) (taken ps)))" by auto
    with u Polled show ?thesis by (intro exI [of _ t]) (cases x; auto)
  qed auto
qed simp


definition ex_engine_boot :: "ex_db engine_start" where
  "ex_engine_boot =
     \<lparr>ea_http = (\<lambda>p w. (Inl os_error, w)), ea_clients = replicate 5 (ret ()),
      ea_closers = [ret (), raise (ExternalError ''ServiceUnavailable''), ret (), ret (), ret ()]\<rparr>"

subsection \<open>The ingestion process\<close>

text \<open>
  \<open>build_pipeline\<close>: the producer, the Bloom filter behind a \<open>ping\<close> (\<open>it_seen\<close> is its \<open>seen_or_add\<close>), the log indexer,
  whose \<open>start\<close> installs a template if it can.
\<close>

record 'w ingest_start =
  it_producer :: "('w, unit) prog"
  it_ping :: "('w, unit) prog"
  it_seen :: "string \<Rightarrow> ('w, bool) prog"
  it_template :: "('w, unit) prog"
  it_close_indexer :: "('w, unit) prog"
  it_close_producer :: "('w, unit) prog"

record ingest_settings =
  dedup_enabled :: bool
  es_logs_enabled :: bool

definition es_start :: "('w, unit) prog \<Rightarrow> ('w, unit es_indexer) prog" where
  "es_start template =
     bnd (catch template (\<lambda>e. ret ())) (\<lambda>_. ret
       \<lparr>es_queue = [], es_indexed = 0, es_failed = 0, es_dropped = 0, es_log = init_log, es_world = ()\<rparr>)"

definition ingest_fresh :: "unit es_indexer option \<Rightarrow> 'w \<Rightarrow> 'w ingest" where
  "ingest_fresh ix w =
     \<lparr>n_received = 0, n_accepted = 0, n_rejected = 0, n_duplicate = 0, n_published = 0, n_failed = 0,
      n_dlq = 0, n_dedup_errors = 0, last_reject_log = 0, reject_lines = 0, indexer = ix, ing_world = w\<rparr>"

definition connect_dedup :: "'w ingest_start \<Rightarrow> ingest_settings \<Rightarrow> ('w, (string \<Rightarrow> ('w, bool) prog) option) prog" where
  "connect_dedup it st =
     (if dedup_enabled st
      then catch (bnd (it_ping it) (\<lambda>_. ret (Some (it_seen it)))) (\<lambda>e. ret None) else ret None)"

definition build_pipeline ::
  "'w ingest_start \<Rightarrow> ingest_settings \<Rightarrow> 'w ingest_env \<Rightarrow> ('w, 'w ingest_env \<times> unit es_indexer option) prog" where
  "build_pipeline it st env =
     bnd (it_producer it) (\<lambda>_.
     bnd (connect_dedup it st) (\<lambda>dedup.
     bnd (if es_logs_enabled st then bnd (es_start (it_template it)) (\<lambda>ix. ret (Some ix)) else ret None) (\<lambda>ix.
     ret (env\<lparr>ie_dedup := dedup\<rparr>, ix))))"

text \<open>The end of \<open>lifespan\<close>: the indexer is drained before the producer.\<close>

definition lifespan_end :: "'w ingest_start \<Rightarrow> unit es_indexer option \<Rightarrow> ('w, unit) prog" where
  "lifespan_end it ix = run_each ((if ix = None then [] else [it_close_indexer it]) @ [it_close_producer it])"

text \<open>The process up to the spans it serves.\<close>

definition ingestion_run ::
  "'w ingest_start \<Rightarrow> ingest_settings \<Rightarrow> 'w ingest_env \<Rightarrow> (real \<times> pydict) list \<Rightarrow> 'w \<Rightarrow>
     (exn \<times> 'w) + ((exn + outcome list) \<times> 'w ingest)" where
  "ingestion_run it st env rs w =
     (case build_pipeline it st env w of
        (Inl e, w1) \<Rightarrow> Inl (e, w1)
      | (Inr (env1, ix), w1) \<Rightarrow> Inr (ingest_all env1 rs (ingest_fresh ix w1)))"

lemma es_start_total: "\<exists>w1. es_start template w =
  (Inr \<lparr>es_queue = [], es_indexed = 0, es_failed = 0, es_dropped = 0, es_log = init_log, es_world = ()\<rparr>, w1)"
  by (cases "template w") (auto simp: es_start_def prog_defs split: sum.splits)

lemma ingest_span_not_duplicate:
  assumes "ie_dedup env = None"
  shows "fst (ingest_span env now raw s) \<noteq> Inr Duplicate"
proof (cases "validate_span (ie_coercions env) raw")
  case (Some sp)
  obtain r t where "publish_span (ie_producer env) (dump_span sp) (pl_service_id sp)
      (s\<lparr>n_received := Suc (n_received s)\<rparr>) = (r, t)" by fastforce
  with Some assms show ?thesis
    by (cases r) (simp_all add: ingest_span_def check_duplicate_def Let_def split: bool.split)
qed (simp add: ingest_span_def Let_def)

lemma ingest_all_not_duplicate:
  "ie_dedup env = None \<Longrightarrow> ingest_all env rs s = (Inr os, t) \<Longrightarrow> Duplicate \<notin> set os"
proof (induction env rs s arbitrary: os t rule: ingest_all.induct)
  case (2 env now r rs s)
  obtain o1 u os1 where u: "ingest_span env now r s = (Inr o1, u)"
    and os1: "ingest_all env rs u = (Inr os1, t)" and os: "os = o1 # os1"
    using "2.prems"(2) by (auto split: prod.splits sum.splits)
  from "2.IH" [OF u [symmetric] refl "2.prems"(1) os1] ingest_span_not_duplicate [OF "2.prems"(1), of now r s] u os
  show ?case by auto
qed simp

text \<open>
  Redis and Elasticsearch are optional at the start of ingestion: when the producer starts but Redis does not
  answer the ping, the service starts whatever Elasticsearch does, and serves without recognising duplicates: no
  span is ever answered "duplicate", and every span of the batch is counted as accepted, rejected or failed.
\<close>

theorem ingestion_starts_degraded:
  assumes "\<exists>w1. it_producer it w = (Inr (), w1)" and "\<And>v. \<exists>e. fst (it_ping it v) = Inl e"
  shows "\<exists>r t. ingestion_run it st env rs w = Inr (r, t) \<and>
           (\<forall>os. r = Inr os \<longrightarrow> Duplicate \<notin> set os \<and> n_duplicate t = 0 \<and> n_received t = length rs \<and>
              length rs = n_accepted t + n_rejected t + count_list os Failed)"
proof -
  from assms(1) obtain w1 where p: "it_producer it w = (Inr (), w1)" by blast
  have d: "\<exists>w2. connect_dedup it st w1 = (Inr None, w2)"
    using assms(2) [of w1] by (cases "it_ping it w1") (auto simp: connect_dedup_def prog_defs)
  then obtain w2 where d: "connect_dedup it st w1 = (Inr None, w2)" by blast
  obtain w3 where es: "es_start (it_template it) w2 =
      (Inr \<lparr>es_queue = [], es_indexed = 0, es_failed = 0, es_dropped = 0, es_log = init_log, es_world = ()\<rparr>, w3)"
    using es_start_total [of "it_template it" w2] by (elim exE)
  have "fst (build_pipeline it st env w) = Inr (env\<lparr>ie_dedup := None\<rparr>, if es_logs_enabled st then Some
      \<lparr>es_queue = [], es_indexed = 0, es_failed = 0, es_dropped = 0, es_log = init_log, es_world = ()\<rparr> else None)"
    using p d es by (simp add: build_pipeline_def bnd_def ret_def)
  then obtain ix w4 where "build_pipeline it st env w = (Inr (env\<lparr>ie_dedup := None\<rparr>, ix), w4)"
    by (metis prod.collapse)
  moreover obtain r t where run: "ingest_all (env\<lparr>ie_dedup := None\<rparr>) rs (ingest_fresh ix w4) = (r, t)" by fastforce
  moreover have "Duplicate \<notin> set os \<and> n_duplicate t = 0 \<and> n_received t = length rs \<and>
      length rs = n_accepted t + n_rejected t + count_list os Failed" if "r = Inr os" for os
  proof -
    from run that have all: "ingest_all (env\<lparr>ie_dedup := None\<rparr>) rs (ingest_fresh ix w4) = (Inr os, t)" by simp
    from ingest_all_not_duplicate [OF _ all] have "Duplicate \<notin> set os" by simp
    with ingest_all_decisions [OF all] outcomes_length [of os] show ?thesis
      by (simp add: decisions_def ingest_fresh_def)
  qed
  ultimately show ?thesis by (intro exI [of _ r] exI [of _ t]) (simp add: ingestion_run_def)
qed

definition ex_ingest_start :: "ex_net ingest_start" where
  "ex_ingest_start =
     \<lparr>it_producer = ret (), it_ping = raise (ExternalError ''ConnectionError''), it_seen = (\<lambda>i. ret True),
      it_template = raise (ExternalError ''ConnectionError''), it_close_indexer = ret (), it_close_producer = ret ()\<rparr>"

theorem ingestion_starts_degraded_witness:
  "\<exists>r t. ingestion_run ex_ingest_start \<lparr>dedup_enabled = True, es_logs_enabled = True\<rparr> (ex_ingest_env 5)
     [(0, dump_span ex_payload), (0, dump_span ex_payload), (0, [])] (\<lambda>_. False, False, []) = Inr (r, t)"
proof -
  have "\<exists>w1. it_producer ex_ingest_start (\<lambda>_. False, False, []) = (Inr (), w1)" and
    "\<And>v. \<exists>e. fst (it_ping ex_ingest_start v) = Inl e"
    by (simp_all add: ex_ingest_start_def ret_def raise_def)
  from ingestion_starts_degraded [OF this] show ?thesis by blast
qed

end
