(* ===== verification/Config.thy ===== *)
theory Config
  imports Services Dashboard_Api Dashboard_Hub Simulator Sim_Publisher Flink_Job Granger
begin

section \<open>Configuration\<close>

text \<open>
  The \<open>config.py\<close> of every service as a function of the environment: a module that raises while it is imported is a
  left value. The literal constants that the components use are definitions of these, repeated here beside the values read from
  the environment, so that it can be stated that the services meet.
\<close>

subsection \<open>Reading the environment\<close>

type_synonym environ = "string \<rightharpoonup> string"

definition getenv :: "environ \<Rightarrow> string \<Rightarrow> string \<Rightarrow> string" where
  "getenv env k d = (case env k of None \<Rightarrow> d | Some v \<Rightarrow> v)"

text \<open>
  \<open>int(text)\<close>: white space around, a sign, digits with single underscores between them. The flag says that the
  previous character was a digit.
\<close>

fun int_digits :: "bool \<Rightarrow> nat \<Rightarrow> string \<Rightarrow> nat option" where
  "int_digits after n [] = (if after then Some n else None)"
| "int_digits after n (c # cs) =
     (if is_digit c then int_digits True (10 * n + (of_char c - 48)) cs
      else if c = CHR ''_'' \<and> after then int_digits False n cs
      else None)"

definition parse_int :: "string \<Rightarrow> int option" where
  "parse_int s =
     (case py_strip s of
        [] \<Rightarrow> None
      | c # cs \<Rightarrow>
          if c = CHR ''-'' then map_option (\<lambda>n. - int n) (int_digits False 0 cs)
          else if c = CHR ''+'' then map_option int (int_digits False 0 cs)
          else map_option int (int_digits False 0 (c # cs)))"

text \<open>\<open>int(os.getenv(k, d))\<close>.\<close>

definition env_int :: "environ \<Rightarrow> string \<Rightarrow> string \<Rightarrow> exn + int" where
  "env_int env k d = (case parse_int (getenv env k d) of None \<Rightarrow> Inl ValueError | Some n \<Rightarrow> Inr n)"

text \<open>\<open>os.getenv(k, d).lower()\<close>.\<close>

definition env_lower :: "environ \<Rightarrow> string \<Rightarrow> string \<Rightarrow> string" where
  "env_lower env k d = map lower_char (getenv env k d)"

lemma int_digits_value:
  "list_all is_digit cs \<Longrightarrow> int_digits after n cs =
     (if cs = [] \<and> \<not> after then None else Some (foldl (\<lambda>a c. 10 * a + (of_char c - 48)) n cs))"
  by (induction cs arbitrary: after n) auto

lemma is_digit_no_space: "is_digit c \<Longrightarrow> \<not> is_space c"
  by (auto simp: is_digit_def is_space_def)

lemma strip_nothing: "cs \<noteq> [] \<Longrightarrow> \<not> is_space (hd cs) \<Longrightarrow> \<not> is_space (last cs) \<Longrightarrow> py_strip cs = cs"
  by (simp add: py_strip_def dropWhile_eq_self_iff [THEN iffD2] hd_rev)

text \<open>What \<open>str\<close> writes of a number, \<open>int\<close> reads.\<close>

lemma int_of_digits:
  assumes d: "list_all is_digit d" "d \<noteq> []"
  shows "parse_int d = Some (int (dec_nat d))"
proof -
  from d have "is_digit (hd d)" "is_digit (last d)" by (auto simp: list_all_iff)
  then have "py_strip d = d" using d(2) by (intro strip_nothing) (auto dest: is_digit_no_space)
  moreover obtain c cs where c: "d = c # cs" using d(2) by (cases d) auto
  moreover have "c \<noteq> CHR ''-''" "c \<noteq> CHR ''+''" using d(1) c by (auto simp: is_digit_def)
  ultimately show ?thesis using int_digits_value [OF d(1), of False 0] by (simp add: parse_int_def dec_nat_def)
qed

lemma int_of_nat_str: "parse_int (nat_str n) = Some (int n)"
  using nat_str_digits [of n] by (simp add: int_of_digits)

lemma int_of_int_str: "parse_int (int_str i) = Some i"
proof (cases "i < 0")
  case True
  from nat_str_digits [of "nat (- i)"] have d: "nat_str (nat (- i)) \<noteq> []" "list_all is_digit (nat_str (nat (- i)))"
    "dec_nat (nat_str (nat (- i))) = nat (- i)" by simp_all
  then have "is_digit (last (nat_str (nat (- i))))" by (auto simp: list_all_iff)
  with d(1) have "py_strip (int_str i) = int_str i"
    by (intro strip_nothing) (auto simp: int_str_def True is_space_def dest: is_digit_no_space)
  with int_digits_value [OF d(2), of False 0] d(1,3) True show ?thesis
    by (simp add: parse_int_def int_str_def dec_nat_def)
next
  case False
  then show ?thesis by (simp add: int_str_def int_of_nat_str)
qed
subsection \<open>Paths\<close>

text \<open>
  \<open>Path(text)\<close> as its text: empty and \<open>.\<close> components vanish (a path of exactly two leading slashes is not treated
  apart). \<open>as_uri\<close> raises for a relative path; it quotes what is neither unreserved nor a slash.
\<close>

definition py_path :: "string \<Rightarrow> string" where
  "py_path s =
     (let cs = filter (\<lambda>c. c \<noteq> [] \<and> c \<noteq> ''.'') (py_split CHR ''/'' s); rel = join_strs ''/'' cs
      in if prefix ''/'' s then ''/'' @ rel else if cs = [] then ''.'' else rel)"

definition path_join :: "string \<Rightarrow> string \<Rightarrow> string" where
  "path_join p q = py_path (p @ ''/'' @ q)"

definition unreserved :: "char \<Rightarrow> bool" where
  "unreserved c \<longleftrightarrow>
     (let n = of_char c :: nat
      in n \<in> {48..57} \<or> n \<in> {65..90} \<or> n \<in> {97..122} \<or> c \<in> {CHR ''_'', CHR ''.'', CHR ''-'', CHR ''~'', CHR ''/''})"

definition quote_char :: "char \<Rightarrow> string" where
  "quote_char c =
     (if unreserved c then [c]
      else [CHR ''%'', ''0123456789ABCDEF'' ! (of_char c div 16), ''0123456789ABCDEF'' ! (of_char c mod 16)])"

definition path_as_uri :: "string \<Rightarrow> exn + string" where
  "path_as_uri p = (if prefix ''/'' p then Inr (''file://'' @ concat (map quote_char p)) else Inl ValueError)"

subsection \<open>What several services read\<close>

record db_settings =
  db_host :: string
  db_port :: int
  db_name :: string
  db_user :: string
  db_password :: string

definition timescale_settings :: "environ \<Rightarrow> exn + db_settings" where
  "timescale_settings env =
     rbind (env_int env ''TIMESCALE_PORT'' ''5432'') (\<lambda>port. Inr
       \<lparr>db_host = getenv env ''TIMESCALE_HOST'' ''localhost'', db_port = port,
        db_name = getenv env ''TIMESCALE_DB'' ''distrosense'', db_user = getenv env ''TIMESCALE_USER'' ''postgres'',
        db_password = getenv env ''TIMESCALE_PASSWORD'' ''postgres''\<rparr>)"

definition redis_settings :: "environ \<Rightarrow> exn + string \<times> int" where
  "redis_settings env =
     rbind (env_int env ''REDIS_PORT'' ''6379'') (\<lambda>port. Inr (getenv env ''REDIS_HOST'' ''localhost'', port))"

definition neo4j_settings :: "environ \<Rightarrow> string \<times> string \<times> string" where
  "neo4j_settings env =
     (getenv env ''NEO4J_URI'' ''bolt://localhost:7687'', getenv env ''NEO4J_USER'' ''neo4j'',
      getenv env ''NEO4J_PASSWORD'' ''distrosense'')"

definition bootstrap_servers :: "environ \<Rightarrow> string" where
  "bootstrap_servers env = getenv env ''KAFKA_BOOTSTRAP_SERVERS'' ''localhost:9092''"

definition schema_registry_url :: "environ \<Rightarrow> string" where
  "schema_registry_url env = getenv env ''KAFKA_SCHEMA_REGISTRY_URL'' ''http://localhost:8081''"

subsection \<open>The simulator and the ingestion service\<close>

record sim_settings =
  ss_bootstrap :: string
  ss_registry :: string
  ss_topic :: string
  ss_mode :: string
  ss_ingestion :: "string \<times> int"
  ss_metrics_port :: int
  ss_cascade_seed :: int
  ss_neo4j :: "string \<times> string \<times> string"
  ss_batch_max :: nat
  ss_linger_seconds :: real
  ss_services :: nat
  ss_interval_seconds :: real
  ss_probabilities :: "real \<times> real"
  ss_tiers :: "string list"
  ss_teams :: "string list"
  ss_metric_names :: "string list"

definition sim_settings_of :: "environ \<Rightarrow> exn + sim_settings" where
  "sim_settings_of env =
     rbind (env_int env ''GRPC_PORT'' ''50051'') (\<lambda>port.
     rbind (env_int env ''SIM_METRICS_PORT'' ''9100'') (\<lambda>metrics.
     rbind (env_int env ''CASCADE_SEED'' ''42'') (\<lambda>seed. Inr
       \<lparr>ss_bootstrap = bootstrap_servers env, ss_registry = schema_registry_url env, ss_topic = ''raw-telemetry'',
        ss_mode = env_lower env ''SIM_PUBLISH_MODE'' ''grpc'',
        ss_ingestion = (getenv env ''INGESTION_GRPC_HOST'' ''localhost'', port), ss_metrics_port = metrics,
        ss_cascade_seed = seed, ss_neo4j = neo4j_settings env, ss_batch_max = grpc_batch_max,
        ss_linger_seconds = 1 / 10, ss_services = num_services, ss_interval_seconds = 1,
        ss_probabilities = (anomaly_probability, cascade_probability), ss_tiers = service_tiers,
        ss_teams = service_teams,
        ss_metric_names = [''cpu_percent'', ''latency_p99'', ''error_rate'', ''request_rate'']\<rparr>)))"

record ingestion_settings =
  is_bootstrap :: string
  is_registry :: string
  is_topic :: string
  is_grpc :: "string \<times> int"
  is_rest :: "string \<times> int"
  is_redis :: "string \<times> int"
  is_es_host :: string
  is_switches :: ingest_settings

definition ingestion_settings_of :: "environ \<Rightarrow> exn + ingestion_settings" where
  "ingestion_settings_of env =
     rbind (env_int env ''GRPC_PORT'' ''50051'') (\<lambda>grpc.
     rbind (env_int env ''REST_PORT'' ''8000'') (\<lambda>rest.
     rbind (redis_settings env) (\<lambda>redis. Inr
       \<lparr>is_bootstrap = bootstrap_servers env, is_registry = schema_registry_url env, is_topic = raw_topic,
        is_grpc = (getenv env ''GRPC_HOST'' ''0.0.0.0'', grpc), is_rest = (getenv env ''REST_HOST'' ''0.0.0.0'', rest),
        is_redis = redis, is_es_host = getenv env ''ES_HOST'' ''http://localhost:9200'',
        is_switches =
          \<lparr>dedup_enabled = (env_lower env ''INGEST_DEDUP_ENABLED'' ''true'' = ''true''),
           es_logs_enabled = (env_lower env ''INGEST_ES_LOGS_ENABLED'' ''true'' = ''true'')\<rparr>\<rparr>)))"

text \<open>\<open>KAFKA_PRODUCER_CONFIG\<close>.\<close>

definition producer_settings :: "environ \<Rightarrow> pydict" where
  "producer_settings env =
     [(''bootstrap.servers'', PStr (bootstrap_servers env)), (''acks'', PStr ''all''),
      (''enable.idempotence'', PBool True), (''compression.type'', PStr ''gzip''), (''linger.ms'', PInt 5),
      (''batch.size'', PInt 65536), (''message.timeout.ms'', PInt 30000)]"
subsection \<open>Flink\<close>

record flink_settings =
  fk_bootstrap :: string
  fk_group :: string
  fk_raw :: string
  fk_aggregated :: string
  fk_anomalies :: string
  fk_registry :: string
  fk_reset :: string
  fk_redis :: "string \<times> int"
  fk_topk :: "string \<times> int"
  fk_metrics_port :: int
  fk_db :: db_settings
  fk_checkpoint_ms :: int
  fk_parallelism :: int
  fk_idleness_seconds :: int
  fk_state_dir :: string
  fk_checkpoint_dir :: string
  fk_rocksdb_dir :: string
  fk_txn_timeout_ms :: int
  fk_txn_prefixes :: "string \<times> string"
  fk_restart :: "int \<times> int"
  fk_bloom_capacity :: int
  fk_web_ui_port :: int
  fk_jars_dir :: string
  fk_ml :: "string \<times> int"
  fk_tumbling_seconds :: int
  fk_sliding_seconds :: int
  fk_slide_seconds :: int
  fk_lag_seconds :: int
  fk_dedup_ttl_minutes :: int
  fk_zscore :: real
  fk_min_events :: nat
  fk_bloom_error :: real

text \<open>
  \<open>repo\<close> is the directory of the repository. The default of the checkpoint directory is computed whether or not it
  is used, so a relative state directory raises.
\<close>

definition flink_dirs :: "string \<Rightarrow> environ \<Rightarrow> exn + string \<times> string \<times> string" where
  "flink_dirs repo env =
     (let state = py_path (getenv env ''FLINK_STATE_DIR'' (path_join repo ''.flink-state''))
      in rbind (path_as_uri (path_join state ''checkpoints'')) (\<lambda>uri. Inr
           (state, getenv env ''FLINK_CHECKPOINT_DIR'' uri, getenv env ''FLINK_ROCKSDB_DIR'' (path_join state ''rocksdb''))))"

definition flink_settings_of :: "string \<Rightarrow> environ \<Rightarrow> exn + flink_settings" where
  "flink_settings_of repo env =
     rbind (redis_settings env) (\<lambda>redis.
     rbind (env_int env ''FLINK_METRICS_PORT'' ''9101'') (\<lambda>metrics.
     rbind (timescale_settings env) (\<lambda>db.
     rbind (env_int env ''FLINK_CHECKPOINT_INTERVAL_MS'' ''30000'') (\<lambda>checkpoint.
     rbind (env_int env ''FLINK_PARALLELISM'' ''1'') (\<lambda>parallelism.
     rbind (env_int env ''FLINK_SOURCE_IDLENESS_SECONDS'' ''30'') (\<lambda>idle.
     rbind (flink_dirs repo env) (\<lambda>dirs.
     rbind (env_int env ''FLINK_KAFKA_TXN_TIMEOUT_MS'' ''600000'') (\<lambda>txn.
     rbind (env_int env ''FLINK_RESTART_ATTEMPTS'' ''1000'') (\<lambda>attempts.
     rbind (env_int env ''FLINK_RESTART_DELAY_MS'' ''10000'') (\<lambda>delay.
     rbind (env_int env ''FLINK_DEDUP_BLOOM_CAPACITY'' ''200000'') (\<lambda>capacity.
     rbind (env_int env ''FLINK_WEB_UI_PORT'' ''8082'') (\<lambda>ui.
     rbind (env_int env ''ML_SERVICE_PORT'' ''50051'') (\<lambda>ml. Inr
       \<lparr>fk_bootstrap = bootstrap_servers env, fk_group = ''flink-anomaly-detector'', fk_raw = ''raw-telemetry'',
        fk_aggregated = ''aggregated-metrics'', fk_anomalies = ''anomaly-events'',
        fk_registry = schema_registry_url env, fk_reset = getenv env ''FLINK_AUTO_OFFSET_RESET'' ''latest'',
        fk_redis = redis, fk_topk = (topk_key, topk_size), fk_metrics_port = metrics, fk_db = db,
        fk_checkpoint_ms = checkpoint, fk_parallelism = parallelism, fk_idleness_seconds = idle,
        fk_state_dir = fst dirs, fk_checkpoint_dir = fst (snd dirs), fk_rocksdb_dir = snd (snd dirs),
        fk_txn_timeout_ms = txn, fk_txn_prefixes = (''distrosense-flink-aggregated'', ''distrosense-flink-anomalies''),
        fk_restart = (attempts, delay), fk_bloom_capacity = capacity, fk_web_ui_port = ui,
        fk_jars_dir = py_path (getenv env ''FLINK_JARS_DIR'' (path_join (path_join repo ''flink_jobs'') ''lib'')),
        fk_ml = (getenv env ''ML_SERVICE_HOST'' ''localhost'', ml),
        fk_tumbling_seconds = tumbling_window_seconds, fk_sliding_seconds = sliding_window_seconds,
        fk_slide_seconds = slide_interval_seconds, fk_lag_seconds = watermark_lag_seconds, fk_dedup_ttl_minutes = 10,
        fk_zscore = zscore_threshold, fk_min_events = min_window_events, fk_bloom_error = 1 / 1000\<rparr>)))))))))))))"

text \<open>What \<open>build_environment\<close> takes from it, with \<open>sys.executable\<close>.\<close>

definition runtime_config :: "string \<Rightarrow> flink_settings \<Rightarrow> flink_config" where
  "runtime_config python f =
     \<lparr>fc_rocksdb_dir = fk_rocksdb_dir f, fc_web_ui_port = fk_web_ui_port f, fc_parallelism = fk_parallelism f,
      fc_checkpoint_interval_ms = fk_checkpoint_ms f, fc_checkpoint_dir = fk_checkpoint_dir f,
      fc_restart_attempts = fst (fk_restart f), fc_restart_delay_ms = snd (fk_restart f), fc_python = python\<rparr>"

subsection \<open>Correlation, orchestrator, dashboard and machine learning\<close>

record correlation_settings =
  cs_bootstrap :: string
  cs_group :: string
  cs_reset :: string
  cs_metrics_port :: int
  cs_anomalies :: string
  cs_incidents :: string
  cs_neo4j :: "string \<times> string \<times> string"
  cs_db :: db_settings
  cs_hops :: nat
  cs_maxlag :: nat
  cs_lookback_seconds :: int
  cs_window_seconds :: real
  cs_max_age_seconds :: real
  cs_pvalue :: real
  cs_min_points :: nat
  cs_metrics :: "(string \<times> string) list"

definition correlation_settings_of :: "environ \<Rightarrow> exn + correlation_settings" where
  "correlation_settings_of env =
     rbind (env_int env ''CORRELATION_METRICS_PORT'' ''9102'') (\<lambda>metrics.
     rbind (timescale_settings env) (\<lambda>db. Inr
       \<lparr>cs_bootstrap = bootstrap_servers env, cs_group = ''correlation-engine'',
        cs_reset = getenv env ''CORRELATION_AUTO_OFFSET_RESET'' ''earliest'', cs_metrics_port = metrics,
        cs_anomalies = ''anomaly-events'', cs_incidents = ''incident-alerts'', cs_neo4j = neo4j_settings env,
        cs_db = db, cs_hops = 2, cs_maxlag = 5, cs_lookback_seconds = 1800,
        cs_window_seconds = window_seconds, cs_max_age_seconds = max_age_secs, cs_pvalue = granger_pvalue_threshold,
        cs_min_points = granger_min_points, cs_metrics = anomaly_type_to_metric\<rparr>))"

record orchestrator_settings =
  or_bootstrap :: string
  or_group :: string
  or_incidents :: string
  or_namespace :: string
  or_context :: "string option"
  or_scale_up :: int
  or_request_timeout :: int
  or_run :: orch_settings
  or_slack :: "string \<times> string"
  or_llm :: "string \<times> string \<times> string"
  or_db :: db_settings
  or_neo4j :: "string \<times> string \<times> string"

definition orchestrator_settings_of :: "environ \<Rightarrow> exn + orchestrator_settings" where
  "orchestrator_settings_of env =
     rbind (env_int env ''HPA_REVERT_AFTER_SECONDS'' ''900'') (\<lambda>revert.
     rbind (env_int env ''ORCH_METRICS_PORT'' ''9103'') (\<lambda>metrics.
     rbind (env_int env ''ORCH_COOLDOWN_SECONDS'' ''300'') (\<lambda>cooldown.
     rbind (env_int env ''ORCH_MAX_INCIDENT_AGE_SECONDS'' ''3600'') (\<lambda>age.
     rbind (timescale_settings env) (\<lambda>db. Inr
       \<lparr>or_bootstrap = bootstrap_servers env, or_group = ''response-orchestrator'',
        or_incidents = ''incident-alerts'', or_namespace = getenv env ''K8S_NAMESPACE'' ''default'',
        or_context = (if env_or env ''K8S_CONTEXT'' [] = [] then None else env ''K8S_CONTEXT''),
        or_scale_up = hpa_scale_up_min_replicas, or_request_timeout = 10,
        or_run = \<lparr>os_port = metrics, os_revert_after = revert, os_cooldown = cooldown, os_max_age = age\<rparr>,
        or_slack = (getenv env ''SLACK_BOT_TOKEN'' [], getenv env ''SLACK_CHANNEL'' ''#incidents''),
        or_llm = (llm_api_key env, llm_provider env, llm_model env), or_db = db, or_neo4j = neo4j_settings env\<rparr>)))))"

record dashboard_settings =
  ds_bootstrap :: string
  ds_topics :: "(string \<times> string) list"
  ds_redis :: "string \<times> int"
  ds_topk_key :: string
  ds_es_host :: string
  ds_db :: db_settings
  ds_neo4j :: "string \<times> string \<times> string"
  ds_listen :: "string \<times> int"
  ds_cors :: "string list"
  ds_backfill :: nat

definition dashboard_settings_of :: "environ \<Rightarrow> exn + dashboard_settings" where
  "dashboard_settings_of env =
     rbind (redis_settings env) (\<lambda>redis.
     rbind (timescale_settings env) (\<lambda>db.
     rbind (env_int env ''DASHBOARD_PORT'' ''8090'') (\<lambda>port. Inr
       \<lparr>ds_bootstrap = bootstrap_servers env, ds_topics = live_topics, ds_redis = redis,
        ds_topk_key = ''anomaly_scores'', ds_es_host = getenv env ''ES_HOST'' ''http://localhost:9200'', ds_db = db,
        ds_neo4j = neo4j_settings env, ds_listen = (getenv env ''DASHBOARD_HOST'' ''0.0.0.0'', port),
        ds_cors = py_split CHR '','' (getenv env ''DASHBOARD_CORS_ORIGINS'' ''http://localhost:5173,http://127.0.0.1:5173''),
        ds_backfill = ws_backfill\<rparr>)))"

record ml_settings =
  ms_listen :: "string \<times> int"
  ms_torchserve_url :: string
  ms_torchserve_timeout :: real

definition ml_settings_of :: "environ \<Rightarrow> exn + ml_settings" where
  "ml_settings_of env =
     rbind (env_int env ''ML_GRPC_PORT'' ''50052'') (\<lambda>port.
     rbind (env_int env ''TORCHSERVE_PORT'' ''8080'') (\<lambda>torch. Inr
       \<lparr>ms_listen = (getenv env ''ML_GRPC_HOST'' ''0.0.0.0'', port),
        ms_torchserve_url =
          ''http://'' @ getenv env ''TORCHSERVE_HOST'' ''localhost'' @ '':'' @ int_str torch @ ''/predictions/lstm'',
        ms_torchserve_timeout = 5 / 100\<rparr>))"
subsection \<open>The services meet\<close>

lemmas settings_defs =
  sim_settings_of_def ingestion_settings_of_def flink_settings_of_def correlation_settings_of_def
  orchestrator_settings_of_def dashboard_settings_of_def ml_settings_of_def

lemma rbind_Inr: "rbind r f = Inr y \<longleftrightarrow> (\<exists>x. r = Inr x \<and> f x = Inr y)"
  by (cases r) simp_all

lemma sim_loaded:
  assumes "sim_settings_of env = Inr s"
  shows "ss_topic s = ''raw-telemetry''" "ss_bootstrap s = bootstrap_servers env" "ss_registry s = schema_registry_url env"
    "env_int env ''GRPC_PORT'' ''50051'' = Inr (snd (ss_ingestion s))" "ss_neo4j s = neo4j_settings env"
  using assms by (auto simp: sim_settings_of_def rbind_Inr)

lemma ingestion_loaded:
  assumes "ingestion_settings_of env = Inr s"
  shows "is_topic s = ''raw-telemetry''" "is_bootstrap s = bootstrap_servers env" "is_registry s = schema_registry_url env"
    "env_int env ''GRPC_PORT'' ''50051'' = Inr (snd (is_grpc s))" "redis_settings env = Inr (is_redis s)"
    "is_es_host s = getenv env ''ES_HOST'' ''http://localhost:9200''"
  using assms by (auto simp: ingestion_settings_of_def rbind_Inr raw_topic_def)

lemma flink_loaded:
  assumes "flink_settings_of repo env = Inr s"
  shows "fk_raw s = ''raw-telemetry''" "fk_anomalies s = ''anomaly-events''" "fk_bootstrap s = bootstrap_servers env"
    "fk_registry s = schema_registry_url env" "redis_settings env = Inr (fk_redis s)"
    "timescale_settings env = Inr (fk_db s)" "fst (fk_topk s) = ''anomaly_scores''" "fk_group s = ''flink-anomaly-detector''"
    "fk_txn_prefixes s = (''distrosense-flink-aggregated'', ''distrosense-flink-anomalies'')"
  using assms by (auto simp: flink_settings_of_def rbind_Inr topk_key_def)

lemma correlation_loaded:
  assumes "correlation_settings_of env = Inr s"
  shows "cs_anomalies s = ''anomaly-events''" "cs_incidents s = ''incident-alerts''" "cs_bootstrap s = bootstrap_servers env"
    "timescale_settings env = Inr (cs_db s)" "cs_neo4j s = neo4j_settings env" "cs_group s = ''correlation-engine''"
  using assms by (auto simp: correlation_settings_of_def rbind_Inr)

lemma orchestrator_loaded:
  assumes "orchestrator_settings_of env = Inr s"
  shows "or_incidents s = ''incident-alerts''" "or_bootstrap s = bootstrap_servers env"
    "timescale_settings env = Inr (or_db s)" "or_neo4j s = neo4j_settings env" "or_group s = ''response-orchestrator''"
  using assms by (auto simp: orchestrator_settings_of_def rbind_Inr)

lemma dashboard_loaded:
  assumes "dashboard_settings_of env = Inr s"
  shows "map fst (ds_topics s) = [''anomaly-events'', ''incident-alerts'']" "ds_bootstrap s = bootstrap_servers env"
    "timescale_settings env = Inr (ds_db s)" "ds_neo4j s = neo4j_settings env" "redis_settings env = Inr (ds_redis s)"
    "ds_topk_key s = ''anomaly_scores''" "ds_es_host s = getenv env ''ES_HOST'' ''http://localhost:9200''"
  using assms by (auto simp: dashboard_settings_of_def rbind_Inr live_topics_def)

text \<open>
  In every environment in which the services load, they meet: each topic that one writes is the topic the next one
  reads, at the same brokers and with the same schema registry; the simulator dials the port the ingestion service
  listens on; Flink, the correlation engine, the orchestrator and the dashboard use one TimescaleDB; ingestion, Flink and
  the dashboard one Redis and one key of the worst anomalies; the simulator's graph is the one the correlation engine,
  the orchestrator and the dashboard read; ingestion and the dashboard use one Elasticsearch. The consumer groups are distinct.
\<close>

theorem services_meet:
  assumes "sim_settings_of env = Inr sim" and "ingestion_settings_of env = Inr ing"
    and "flink_settings_of repo env = Inr fl" and "correlation_settings_of env = Inr co"
    and "orchestrator_settings_of env = Inr oc" and "dashboard_settings_of env = Inr da"
  shows "ss_topic sim = fk_raw fl \<and> is_topic ing = fk_raw fl \<and> cs_anomalies co = fk_anomalies fl \<and>
         or_incidents oc = cs_incidents co \<and> map fst (ds_topics da) = [fk_anomalies fl, cs_incidents co] \<and>
         {ss_bootstrap sim, is_bootstrap ing, cs_bootstrap co, or_bootstrap oc, ds_bootstrap da} = {fk_bootstrap fl} \<and>
         {ss_registry sim, is_registry ing} = {fk_registry fl} \<and> snd (ss_ingestion sim) = snd (is_grpc ing) \<and>
         {cs_db co, or_db oc, ds_db da} = {fk_db fl} \<and> {is_redis ing, ds_redis da} = {fk_redis fl} \<and>
         ds_topk_key da = fst (fk_topk fl) \<and> {cs_neo4j co, or_neo4j oc, ds_neo4j da} = {ss_neo4j sim} \<and>
         ds_es_host da = is_es_host ing \<and> distinct [fk_group fl, cs_group co, or_group oc]"
  using sim_loaded [OF assms(1)] ingestion_loaded [OF assms(2)] flink_loaded [OF assms(3)]
    correlation_loaded [OF assms(4)] orchestrator_loaded [OF assms(5)] dashboard_loaded [OF assms(6)] by simp_all
subsection \<open>When the configuration loads\<close>

definition readable :: "environ \<Rightarrow> string \<Rightarrow> bool" where
  "readable env k \<longleftrightarrow> (\<forall>v. env k = Some v \<longrightarrow> parse_int v \<noteq> None)"

lemma env_int_loads:
  "list_all is_digit d \<Longrightarrow> d \<noteq> [] \<Longrightarrow> (\<exists>n. env_int env k d = Inr n) \<longleftrightarrow> readable env k"
  by (auto simp: env_int_def getenv_def readable_def int_of_digits split: option.splits)

lemma split_no_sep: "c \<in> set (py_split x s) \<Longrightarrow> x \<notin> set c"
  by (induction x s arbitrary: c rule: py_split.induct) (auto split: list.splits if_splits)

lemma path_absolute: "prefix ''/'' (py_path s) \<longleftrightarrow> prefix ''/'' s"
proof (cases "prefix ''/'' s")
  case False
  define cs where "cs = filter (\<lambda>c. c \<noteq> [] \<and> c \<noteq> ''.'') (py_split CHR ''/'' s)"
  have "\<not> prefix ''/'' (join_strs ''/'' cs)"
  proof (cases cs)
    case (Cons c ds)
    then have "c \<in> set cs" by simp
    then have "c \<noteq> []" "CHR ''/'' \<notin> set c" using split_no_sep by (auto simp: cs_def)
    then show ?thesis using Cons by (cases c; cases ds) auto
  qed simp
  with False show ?thesis by (simp add: py_path_def Let_def cs_def)
qed (simp add: py_path_def Let_def)

lemma path_join_absolute: "prefix ''/'' (path_join p q) \<longleftrightarrow> p = [] \<or> prefix ''/'' p"
  unfolding path_join_def path_absolute by (cases p) auto

lemma path_nonempty: "py_path s \<noteq> []"
proof (cases "prefix ''/'' s")
  case False
  define cs where "cs = filter (\<lambda>c. c \<noteq> [] \<and> c \<noteq> ''.'') (py_split CHR ''/'' s)"
  have "cs = [] \<or> join_strs ''/'' cs \<noteq> []"
  proof (cases cs)
    case (Cons c ds)
    then have "c \<in> set cs" by simp
    then have "c \<noteq> []" by (auto simp: cs_def)
    then show ?thesis using Cons by (cases ds) auto
  qed simp
  with False show ?thesis by (auto simp: py_path_def Let_def cs_def)
qed (simp add: py_path_def Let_def)

definition flink_int_vars :: "string list" where
  "flink_int_vars =
     [''REDIS_PORT'', ''FLINK_METRICS_PORT'', ''TIMESCALE_PORT'', ''FLINK_CHECKPOINT_INTERVAL_MS'', ''FLINK_PARALLELISM'',
      ''FLINK_SOURCE_IDLENESS_SECONDS'', ''FLINK_KAFKA_TXN_TIMEOUT_MS'', ''FLINK_RESTART_ATTEMPTS'',
      ''FLINK_RESTART_DELAY_MS'', ''FLINK_DEDUP_BLOOM_CAPACITY'', ''FLINK_WEB_UI_PORT'', ''ML_SERVICE_PORT'']"

lemma flink_dirs_load:
  assumes "prefix ''/'' repo"
  shows "(\<exists>d. flink_dirs repo env = Inr d) \<longleftrightarrow>
    (case env ''FLINK_STATE_DIR'' of None \<Rightarrow> True | Some d \<Rightarrow> prefix ''/'' d)"
  using assms
  by (auto simp: flink_dirs_def Let_def path_as_uri_def rbind_Inr path_join_absolute path_absolute path_nonempty
      getenv_def split: option.split)

lemma rbind_Inl: "rbind r f = Inl e \<longleftrightarrow> r = Inl e \<or> (\<exists>x. r = Inr x \<and> f x = Inl e)"
  by (cases r) simp_all

lemma ex_rbind: "(\<exists>y. rbind r f = Inr y) \<longleftrightarrow> (\<exists>x. r = Inr x \<and> (\<exists>y. f x = Inr y))"
  by (cases r) simp_all

text \<open>
  C36. The configuration of the Flink job loads exactly when every number in the environment reads as an integer and
  the state directory, if it is given, is absolute. Naming a checkpoint directory does not help: its default
  is computed from the state directory in any case, and \<open>as_uri\<close> raises for a relative path. Otherwise the module
  raises \<open>ValueError\<close> while it is imported.
\<close>

theorem flink_config_loads:
  assumes "prefix ''/'' repo"
  shows "((\<exists>f. flink_settings_of repo env = Inr f) \<longleftrightarrow>
           (\<forall>k \<in> set flink_int_vars. readable env k) \<and>
           (case env ''FLINK_STATE_DIR'' of None \<Rightarrow> True | Some d \<Rightarrow> prefix ''/'' d)) \<and>
         (\<forall>e. flink_settings_of repo env = Inl e \<longrightarrow> e = ValueError)"
proof
  have "(\<exists>f. flink_settings_of repo env = Inr f) \<longleftrightarrow>
      (\<forall>k \<in> set flink_int_vars. readable env k) \<and> (\<exists>d. flink_dirs repo env = Inr d)"
    by (simp add: flink_settings_of_def ex_rbind redis_settings_def timescale_settings_def env_int_loads is_digit_def
        flink_int_vars_def del: split_paired_Ex) blast
  then show "(\<exists>f. flink_settings_of repo env = Inr f) \<longleftrightarrow> (\<forall>k \<in> set flink_int_vars. readable env k) \<and>
      (case env ''FLINK_STATE_DIR'' of None \<Rightarrow> True | Some d \<Rightarrow> prefix ''/'' d)"
    unfolding flink_dirs_load [OF assms] .
  show "\<forall>e. flink_settings_of repo env = Inl e \<longrightarrow> e = ValueError"
    by (auto simp: flink_settings_of_def rbind_Inl redis_settings_def timescale_settings_def flink_dirs_def Let_def
        env_int_def path_as_uri_def split: option.splits if_splits)
qed
subsection \<open>The defaults\<close>

lemma env_int_default: "env k = None \<Longrightarrow> list_all is_digit d \<Longrightarrow> d \<noteq> [] \<Longrightarrow> env_int env k d = Inr (int (dec_nat d))"
  by (simp add: env_int_def getenv_def int_of_digits)

lemma flink_defaults:
  assumes "prefix ''/'' repo"
  shows "\<exists>fl. flink_settings_of repo Map.empty = Inr fl \<and> fk_checkpoint_ms fl = 30000 \<and> snd (fk_restart fl) = 10000 \<and>
    fk_txn_timeout_ms fl = 600000 \<and> fk_metrics_port fl = 9101 \<and> fk_web_ui_port fl = 8082 \<and> snd (fk_ml fl) = 50051 \<and>
    fk_idleness_seconds fl = 30"
proof -
  obtain dirs where "flink_dirs repo Map.empty = Inr dirs" using flink_dirs_load [OF assms, of Map.empty] by auto
  then show ?thesis
    by (simp add: flink_settings_of_def redis_settings_def timescale_settings_def env_int_default is_digit_def dec_nat_def)
qed

lemma service_defaults:
  "\<exists>s. sim_settings_of Map.empty = Inr s \<and> ss_metrics_port s = 9100"
  "\<exists>s. ingestion_settings_of Map.empty = Inr s \<and> snd (is_grpc s) = 50051 \<and> snd (is_rest s) = 8000"
  "\<exists>s. correlation_settings_of Map.empty = Inr s \<and> cs_metrics_port s = 9102"
  "\<exists>s. orchestrator_settings_of Map.empty = Inr s \<and> os_port (or_run s) = 9103"
  "\<exists>s. dashboard_settings_of Map.empty = Inr s \<and> snd (ds_listen s) = 8090"
  "\<exists>s. ml_settings_of Map.empty = Inr s \<and> snd (ms_listen s) = 50052 \<and>
     ms_torchserve_url s = ''http://localhost:8080/predictions/lstm''"
  by (simp_all add: settings_defs redis_settings_def timescale_settings_def env_int_default is_digit_def dec_nat_def
      getenv_def int_str_def nat_str.simps char_of_def bit_0)

text \<open>
  With nothing set, every module loads and the values fit each other: a Kafka transaction outlives a checkpoint
  interval and a restart, and stays below the broker's limit of 15 minutes; the ports the services listen on are
  distinct. But the ML service Flink is configured for is at the port of the ingestion service, not at the one the ML gateway
  listens on.
\<close>

theorem defaults_fit:
  assumes "prefix ''/'' repo"
  shows "\<exists>sim ing fl co oc da ml. sim_settings_of Map.empty = Inr sim \<and> ingestion_settings_of Map.empty = Inr ing \<and>
     flink_settings_of repo Map.empty = Inr fl \<and> correlation_settings_of Map.empty = Inr co \<and>
     orchestrator_settings_of Map.empty = Inr oc \<and> dashboard_settings_of Map.empty = Inr da \<and>
     ml_settings_of Map.empty = Inr ml \<and>
     fk_checkpoint_ms fl + snd (fk_restart fl) < fk_txn_timeout_ms fl \<and> fk_txn_timeout_ms fl < 15 * 60 * 1000 \<and>
     distinct [ss_metrics_port sim, snd (is_grpc ing), snd (is_rest ing), fk_metrics_port fl, fk_web_ui_port fl,
       cs_metrics_port co, os_port (or_run oc), snd (ds_listen da), snd (ms_listen ml)] \<and>
     snd (fk_ml fl) = snd (is_grpc ing) \<and> snd (fk_ml fl) \<noteq> snd (ms_listen ml)"
proof -
  obtain fl where "flink_settings_of repo Map.empty = Inr fl" "fk_checkpoint_ms fl = 30000" "snd (fk_restart fl) = 10000"
    "fk_txn_timeout_ms fl = 600000" "fk_metrics_port fl = 9101" "fk_web_ui_port fl = 8082" "snd (fk_ml fl) = 50051"
    using flink_defaults [OF assms] by (elim exE conjE)
  moreover obtain sim where "sim_settings_of Map.empty = Inr sim" "ss_metrics_port sim = 9100"
    using service_defaults(1) by (elim exE conjE)
  moreover obtain ing where "ingestion_settings_of Map.empty = Inr ing" "snd (is_grpc ing) = 50051" "snd (is_rest ing) = 8000"
    using service_defaults(2) by (elim exE conjE)
  moreover obtain co where "correlation_settings_of Map.empty = Inr co" "cs_metrics_port co = 9102"
    using service_defaults(3) by (elim exE conjE)
  moreover obtain oc where "orchestrator_settings_of Map.empty = Inr oc" "os_port (or_run oc) = 9103"
    using service_defaults(4) by (elim exE conjE)
  moreover obtain da where "dashboard_settings_of Map.empty = Inr da" "snd (ds_listen da) = 8090"
    using service_defaults(5) by (elim exE conjE)
  moreover obtain ml where "ml_settings_of Map.empty = Inr ml" "snd (ms_listen ml) = 50052"
    using service_defaults(6) by (elim exE conjE)
  ultimately show ?thesis
    by (intro exI [of _ sim] exI [of _ ing] exI [of _ fl] exI [of _ co] exI [of _ oc] exI [of _ da] exI [of _ ml]) simp
qed

theorem defaults_fit_witness:
  "\<exists>fl ml. flink_settings_of ''/app'' Map.empty = Inr fl \<and> ml_settings_of Map.empty = Inr ml \<and>
     snd (fk_ml fl) \<noteq> snd (ms_listen ml)"
proof -
  have "prefix ''/'' ''/app''" by simp
  from defaults_fit [OF this] show ?thesis by (elim exE conjE) (intro exI conjI)
qed

theorem flink_config_loads_witness:
  "\<nexists>f. flink_settings_of ''/app'' [''FLINK_STATE_DIR'' \<mapsto> ''state'', ''FLINK_CHECKPOINT_DIR'' \<mapsto> ''file:///c''] = Inr f"
proof -
  have "prefix ''/'' ''/app''" by simp
  from flink_config_loads [OF this, of "[''FLINK_STATE_DIR'' \<mapsto> ''state'', ''FLINK_CHECKPOINT_DIR'' \<mapsto> ''file:///c'']"]
  show ?thesis by simp
qed

theorem services_meet_witness:
  "\<exists>fl co. flink_settings_of ''/app'' Map.empty = Inr fl \<and> correlation_settings_of Map.empty = Inr co \<and>
     cs_anomalies co = fk_anomalies fl \<and> cs_db co = fk_db fl"
proof -
  have "prefix ''/'' ''/app''" by simp
  from flink_defaults [OF this] obtain fl where fl: "flink_settings_of ''/app'' Map.empty = Inr fl" by (elim exE conjE)
  from service_defaults(1) obtain sim where "sim_settings_of Map.empty = Inr sim" by (elim exE conjE)
  moreover from service_defaults(2) obtain ing where "ingestion_settings_of Map.empty = Inr ing" by (elim exE conjE)
  moreover from service_defaults(3) obtain co where co: "correlation_settings_of Map.empty = Inr co" by (elim exE conjE)
  moreover from service_defaults(4) obtain oc where "orchestrator_settings_of Map.empty = Inr oc" by (elim exE conjE)
  moreover from service_defaults(5) obtain da where "dashboard_settings_of Map.empty = Inr da" by (elim exE conjE)
  ultimately have "cs_anomalies co = fk_anomalies fl \<and> cs_db co = fk_db fl"
    using services_meet [of Map.empty sim ing "''/app''" fl co oc da] fl by simp
  with fl co show ?thesis by (intro exI [of _ fl] exI [of _ co]) simp
qed


end
