(* ===== verification/Flink_Graph.thy ===== *)
theory Flink_Graph
  imports Config Flink_Job
begin

section \<open>The job graph and the Kafka clients\<close>

text \<open>
  What \<open>build\<close> of \<open>flink_jobs/jobs/anomaly_detection_job.py\<close> hands to Flink: the operators with their inputs, keys,
  windows and uids, the source and the transactional sinks (\<open>sinks/kafka_sink.py\<close>); and the settings of the other
  Kafka clients, so that it can be stated who sees what a sink has written. What the operators do is in the theories
  of their own.
\<close>

subsection \<open>Source and sinks\<close>

datatype offset_reset = Earliest | Latest

record kafka_source =
  so_servers :: string
  so_topic :: string
  so_group :: string
  so_reset :: offset_reset
  so_charset :: string
  so_properties :: "(string \<times> string) list"

definition build_source :: "flink_settings \<Rightarrow> kafka_source" where
  "build_source f =
     \<lparr>so_servers = fk_bootstrap f, so_topic = fk_raw f, so_group = fk_group f,
      so_reset = (if fk_reset f = ''earliest'' then Earliest else Latest), so_charset = ''ISO-8859-1'',
      so_properties = [(''partition.discovery.interval.ms'', ''30000'')]\<rparr>"

datatype delivery_guarantee = NoGuarantee | AtLeastOnce | ExactlyOnce

record kafka_sink =
  ks_servers :: string
  ks_topic :: string
  ks_guarantee :: delivery_guarantee
  ks_prefix :: string
  ks_properties :: "(string \<times> string) list"

definition build_kafka_sink :: "flink_settings \<Rightarrow> string \<Rightarrow> string \<Rightarrow> kafka_sink" where
  "build_kafka_sink f topic txn_prefix =
     \<lparr>ks_servers = fk_bootstrap f, ks_topic = topic, ks_guarantee = ExactlyOnce, ks_prefix = txn_prefix,
      ks_properties =
        [(''transaction.timeout.ms'', int_str (fk_txn_timeout_ms f)), (''compression.type'', ''gzip''),
         (''linger.ms'', ''5'')]\<rparr>"

subsection \<open>The graph\<close>

text \<open>A stream is the output of an operator, or its side output for late events; a window is given in seconds.\<close>

datatype stream = Main nat | LateOf nat string

fun stream_node :: "stream \<Rightarrow> nat" where
  "stream_node (Main i) = i"
| "stream_node (LateOf i tag) = i"

datatype assigner = Tumbling int | Sliding int int

datatype stage =
    Source kafka_source
  | Decode
  | Dedup "metric_event \<Rightarrow> pyval"
  | Watermarks int int
  | Aggregate "metric_event \<Rightarrow> pyval" assigner string
  | ZScore "metric_event \<Rightarrow> pyval" assigner string
  | Sink kafka_sink
  | CountLate
  | Print

record graph_node =
  gn_stage :: stage
  gn_inputs :: "stream list"
  gn_uid :: "string option"

definition add_stage :: "stage \<Rightarrow> stream list \<Rightarrow> string option \<Rightarrow> graph_node list \<Rightarrow> nat \<times> graph_node list" where
  "add_stage st ins uid g = (length g, g @ [\<lparr>gn_stage = st, gn_inputs = ins, gn_uid = uid\<rparr>])"

text \<open>\<open>MetricAggregationJob.attach\<close> and \<open>SlidingWindowJob.attach\<close> on the stream keyed by service: they return the late events.\<close>

definition attach_aggregation :: "flink_settings \<Rightarrow> stream \<Rightarrow> graph_node list \<Rightarrow> stream \<times> graph_node list" where
  "attach_aggregation f s g =
     (let (agg, g1) = add_stage (Aggregate me_service_id (Tumbling tumbling_window_seconds) ''late-tumbling'') [s]
                        (Some ''tumbling-60s-aggregate'') g;
          (snk, g2) = add_stage (Sink (build_kafka_sink f (fk_aggregated f) (fst (fk_txn_prefixes f)))) [Main agg]
                        (Some ''kafka-aggregated-metrics'') g1
      in (LateOf agg ''late-tumbling'', g2))"

definition attach_sliding :: "flink_settings \<Rightarrow> stream \<Rightarrow> graph_node list \<Rightarrow> stream \<times> graph_node list" where
  "attach_sliding f s g =
     (let (an, g1) = add_stage (ZScore me_service_id (Sliding sliding_window_seconds slide_interval_seconds) ''late-sliding'') [s]
                       (Some ''sliding-5m-30s-zscore'') g;
          (snk, g2) = add_stage (Sink (build_kafka_sink f (fk_anomalies f) (snd (fk_txn_prefixes f)))) [Main an]
                        (Some ''kafka-anomaly-events'') g1
      in (LateOf an ''late-sliding'', g2))"

definition job_graph :: "flink_settings \<Rightarrow> graph_node list" where
  "job_graph f =
     (let (raw, g0) = add_stage (Source (build_source f)) [] None [];
          (events, g1) = add_stage Decode [Main raw] (Some ''decode-span'') g0;
          (deduped, g2) = add_stage (Dedup me_span_id) [Main events] (Some ''dedup-bloom-rocksdb'') g1;
          (stamped, g3) = add_stage (Watermarks watermark_lag_seconds (fk_idleness_seconds f)) [Main deduped]
                            (Some ''watermarks-5s'') g2;
          (late1, g4) = attach_aggregation f (Main stamped) g3;
          (late2, g5) = attach_sliding f (Main stamped) g4;
          (late, g6) = add_stage CountLate [late1, late2] (Some ''count-late-events'') g5;
          (out, g7) = add_stage Print [Main late] None g6
      in g7)"

subsection \<open>The other Kafka clients\<close>

text \<open>\<open>JsonProducer\<close> and \<open>JsonConsumer\<close> of \<open>common/\<close>, and the clients that are built with them or without.\<close>

definition json_producer_config :: "string \<Rightarrow> pydict" where
  "json_producer_config servers =
     [(''bootstrap.servers'', PStr servers), (''acks'', PStr ''all''), (''enable.idempotence'', PBool True),
      (''compression.type'', PStr ''gzip''), (''linger.ms'', PInt 5), (''batch.size'', PInt 65536),
      (''message.timeout.ms'', PInt 30000)]"

definition direct_producer_config :: "sim_settings \<Rightarrow> pydict" where
  "direct_producer_config s =
     [(''bootstrap_servers'', PStr (ss_bootstrap s)), (''compression_type'', PStr ''gzip''), (''acks'', PStr ''all''),
      (''enable_idempotence'', PBool True), (''linger_ms'', PInt 5), (''max_batch_size'', PInt 65536)]"

record consumer =
  cn_topics :: "string list"
  cn_config :: pydict

definition json_consumer :: "string list \<Rightarrow> string \<Rightarrow> string \<Rightarrow> string \<Rightarrow> bool \<Rightarrow> consumer" where
  "json_consumer topics servers group_id reset auto_commit =
     \<lparr>cn_topics = topics,
      cn_config = [(''bootstrap.servers'', PStr servers), (''group.id'', PStr group_id), (''auto.offset.reset'', PStr reset),
        (''enable.auto.commit'', PBool auto_commit), (''isolation.level'', PStr ''read_committed'')]\<rparr>"

definition correlation_consumer :: "correlation_settings \<Rightarrow> consumer" where
  "correlation_consumer s = json_consumer [cs_anomalies s] (cs_bootstrap s) (cs_group s) (cs_reset s) True"

text \<open>\<open>tag8\<close> is the start of a fresh uuid.\<close>

definition dashboard_consumer :: "dashboard_settings \<Rightarrow> string \<Rightarrow> consumer" where
  "dashboard_consumer s tag8 =
     json_consumer (map fst (ds_topics s)) (ds_bootstrap s) (''dashboard-'' @ tag8) ''latest'' False"

text \<open>The orchestrator uses the \<open>KafkaConsumer\<close> of another library, which knows no isolation level.\<close>

definition orchestrator_consumer :: "orchestrator_settings \<Rightarrow> consumer" where
  "orchestrator_consumer s =
     \<lparr>cn_topics = [or_incidents s],
      cn_config = [(''bootstrap_servers'', PStr (or_bootstrap s)), (''group_id'', PStr (or_group s)),
        (''enable_auto_commit'', PBool False), (''auto_offset_reset'', PStr ''earliest'')]\<rparr>"

subsection \<open>The graph is sound\<close>

lemmas graph_defs = job_graph_def add_stage_def attach_aggregation_def attach_sliding_def

lemma job_graph_nodes:
  "map gn_inputs (job_graph f) =
     [[], [Main 0], [Main 1], [Main 2], [Main 3], [Main 4], [Main 3], [Main 6],
      [LateOf 4 ''late-tumbling'', LateOf 6 ''late-sliding''], [Main 8]]"
  "map gn_uid (job_graph f) =
     [None, Some ''decode-span'', Some ''dedup-bloom-rocksdb'', Some ''watermarks-5s'', Some ''tumbling-60s-aggregate'',
      Some ''kafka-aggregated-metrics'', Some ''sliding-5m-30s-zscore'', Some ''kafka-anomaly-events'',
      Some ''count-late-events'', None]"
  "map gn_stage (job_graph f) =
     [Source (build_source f), Decode, Dedup me_span_id, Watermarks watermark_lag_seconds (fk_idleness_seconds f),
      Aggregate me_service_id (Tumbling tumbling_window_seconds) ''late-tumbling'',
      Sink (build_kafka_sink f (fk_aggregated f) (fst (fk_txn_prefixes f))),
      ZScore me_service_id (Sliding sliding_window_seconds slide_interval_seconds) ''late-sliding'',
      Sink (build_kafka_sink f (fk_anomalies f) (snd (fk_txn_prefixes f))), CountLate, Print]"
  by (simp_all add: graph_defs Let_def)

definition job_sinks :: "flink_settings \<Rightarrow> kafka_sink list" where
  "job_sinks f = concat (map (\<lambda>n. case gn_stage n of Sink k \<Rightarrow> [k] | _ \<Rightarrow> []) (job_graph f))"
lemma job_sinks_eq: "job_sinks f =
    [build_kafka_sink f (fk_aggregated f) (fst (fk_txn_prefixes f)),
     build_kafka_sink f (fk_anomalies f) (snd (fk_txn_prefixes f))]"
proof -
  have "job_sinks f = concat (map (\<lambda>s. case s of Sink k \<Rightarrow> [k] | _ \<Rightarrow> []) (map gn_stage (job_graph f)))"
    by (simp add: job_sinks_def comp_def)
  then show ?thesis by (simp add: job_graph_nodes)
qed

text \<open>The operators of a graph are in an order in which each one's inputs exist; only the source has none.\<close>

definition well_formed_graph :: "graph_node list \<Rightarrow> bool" where
  "well_formed_graph g \<longleftrightarrow>
     (\<forall>i < length g. (gn_inputs (g ! i) = [] \<longleftrightarrow> i = 0) \<and> (\<forall>x \<in> set (gn_inputs (g ! i)). stream_node x < i))"

text \<open>The late events of an operator reach a stage.\<close>

definition late_handled :: "graph_node list \<Rightarrow> bool" where
  "late_handled g \<longleftrightarrow>
     (\<forall>i < length g. \<forall>k w tag. gn_stage (g ! i) \<in> {Aggregate k w tag, ZScore k w tag} \<longrightarrow>
        (\<exists>j < length g. gn_stage (g ! j) = CountLate \<and> LateOf i tag \<in> set (gn_inputs (g ! j))))"

lemma graph_at:
  assumes "i < length (job_graph f)"
  shows "gn_inputs (job_graph f ! i) = map gn_inputs (job_graph f) ! i" "gn_stage (job_graph f ! i) = map gn_stage (job_graph f) ! i"
  using assms by simp_all

lemma job_graph_length: "length (job_graph f) = 10"
  using arg_cong [OF job_graph_nodes(1), of length] by simp

text \<open>
  The job survives a restart from its checkpoints: every operator with state, but for the source, has a uid of its
  own; the graph is well formed, and late events of both windows are counted, none is dropped silently.
  Deduplication is keyed by the span and the windows by the service.
\<close>

theorem job_graph_sound:
  "well_formed_graph (job_graph f) \<and> late_handled (job_graph f) \<and>
   distinct (filter (\<lambda>u. u \<noteq> None) (map gn_uid (job_graph f))) \<and>
   (\<forall>n \<in> set (job_graph f). gn_uid n = None \<longrightarrow> (\<exists>src. gn_stage n = Source src) \<or> gn_stage n = Print) \<and>
   (\<forall>n \<in> set (job_graph f). \<forall>k w tag.
      (gn_stage n = Dedup k \<longrightarrow> k = me_span_id) \<and>
      (gn_stage n \<in> {Aggregate k w tag, ZScore k w tag} \<longrightarrow> k = me_service_id))"
proof (intro conjI)
  show "well_formed_graph (job_graph f)"
    by (auto simp: well_formed_graph_def graph_at job_graph_length job_graph_nodes less_Suc_eq numeral_eq_Suc)
  have "\<exists>j < length (job_graph f). gn_stage (job_graph f ! j) = CountLate \<and> LateOf i tag \<in> set (gn_inputs (job_graph f ! j))"
    if "(i, tag) \<in> {(4, ''late-tumbling''), (6, ''late-sliding'')}" for i tag
    using that by (intro exI [of _ 8]) (auto simp: graph_at job_graph_length job_graph_nodes)
  then show "late_handled (job_graph f)"
    by (auto simp: late_handled_def graph_at job_graph_length job_graph_nodes less_Suc_eq numeral_eq_Suc)
qed (simp_all add: graph_defs Let_def)
subsection \<open>Who sees what the job has written\<close>

lemma flink_aggregated: "flink_settings_of repo env = Inr f \<Longrightarrow> fk_aggregated f = ''aggregated-metrics''"
  by (auto simp: flink_settings_of_def rbind_Inr)




end
