(* ===== verification/Grpc_Stubs.thy ===== *)
theory Grpc_Stubs
  imports Wire_Format Sim_Publisher ML_Gateway
begin

section \<open>The gRPC stubs\<close>

text \<open>
  The generated client and server code, \<open>ingestion/proto/telemetry_pb2_grpc.py\<close> and
  \<open>ml_service/proto/ml_service_pb2_grpc.py\<close>: which path a stub calls, which method a server registers under it, what the
  base classes answer, and the check of the installed version; and the two ends together: the attempts of the
  simulator's \<open>_flush\<close> against the ingestion service. The gRPC library and the encoding of messages are parameters.
\<close>

subsection \<open>Messages, handlers and stubs\<close>

text \<open>
  The generated message classes of one method: \<open>SerializeToString\<close> and \<open>FromString\<close> of request and answer; \<open>'m\<close> is
  what they write on the wire.
\<close>

record ('q, 'r, 'm) messages =
  request_to_string :: "'q \<Rightarrow> 'm"
  request_from_string :: "'m \<Rightarrow> 'q option"
  response_to_string :: "'r \<Rightarrow> 'm"
  response_from_string :: "'m \<Rightarrow> 'r option"

definition messages_law :: "('q, 'r, 'm) messages \<Rightarrow> bool" where
  "messages_law ms \<longleftrightarrow>
     (\<forall>q. request_from_string ms (request_to_string ms q) = Some q) \<and>
     (\<forall>r. response_from_string ms (response_to_string ms r) = Some r)"

text \<open>\<open>unary_unary_rpc_method_handler\<close>, and what a server has registered: services with their methods, in order.\<close>

datatype ('s, 'q, 'r, 'm) method_handler = Unary "'m \<Rightarrow> 'q option" "'q \<Rightarrow> ('s, 'r) prog" "'r \<Rightarrow> 'm"

type_synonym ('s, 'q, 'r, 'm) rpc_server = "(string \<times> (string \<times> ('s, 'q, 'r, 'm) method_handler) list) list"

definition add_telemetry_servicer ::
  "('q, 'r, 'm) messages \<Rightarrow> ('q \<Rightarrow> ('s, 'r) prog) \<Rightarrow> ('s, 'q, 'r, 'm) rpc_server \<Rightarrow> ('s, 'q, 'r, 'm) rpc_server" where
  "add_telemetry_servicer ms servicer server =
     server @ [(''telemetry.TelemetryService'',
       [(''IngestSpanBatch'', Unary (request_from_string ms) servicer (response_to_string ms))])]"

definition add_inference_servicer ::
  "('q, 'r, 'm) messages \<Rightarrow> ('q \<Rightarrow> ('s, 'r) prog) \<Rightarrow> ('s, 'q, 'r, 'm) rpc_server \<Rightarrow> ('s, 'q, 'r, 'm) rpc_server" where
  "add_inference_servicer ms servicer server =
     server @ [(''mlservice.MLInferenceService'',
       [(''Infer'', Unary (request_from_string ms) servicer (response_to_string ms))])]"

text \<open>What a stub's constructor asks of its channel.\<close>

record ('q, 'r, 'm) multi_callable =
  mc_path :: string
  mc_serialize :: "'q \<Rightarrow> 'm"
  mc_deserialize :: "'m \<Rightarrow> 'r option"

definition telemetry_stub :: "('q, 'r, 'm) messages \<Rightarrow> ('q, 'r, 'm) multi_callable" where
  "telemetry_stub ms =
     \<lparr>mc_path = ''/telemetry.TelemetryService/IngestSpanBatch'', mc_serialize = request_to_string ms,
      mc_deserialize = response_from_string ms\<rparr>"

definition inference_stub :: "('q, 'r, 'm) messages \<Rightarrow> ('q, 'r, 'm) multi_callable" where
  "inference_stub ms =
     \<lparr>mc_path = ''/mlservice.MLInferenceService/Infer'', mc_serialize = request_to_string ms,
      mc_deserialize = response_from_string ms\<rparr>"

text \<open>The methods of the generated base classes, on the code and the details of the context.\<close>

datatype rpc_code = UNIMPLEMENTED | UNAVAILABLE | DEADLINE_EXCEEDED | INTERNAL | UNKNOWN

definition base_method :: "(rpc_code option \<times> string, 'r) prog" where
  "base_method ctx =
     (Inl (RuntimeError ''Method not implemented!''), (Some UNIMPLEMENTED, ''Method not implemented!''))"

text \<open>
  What the library documents: a call finds the first registered method of its path, \<open>/service/method\<close>; it ends
  with an error code before the method has run (the request was not delivered), after it (it raised, or the answer was
  lost), or with the answer.
\<close>

definition method_at :: "('s, 'q, 'r, 'm) rpc_server \<Rightarrow> string \<Rightarrow> ('s, 'q, 'r, 'm) method_handler option" where
  "method_at server =
     map_of (concat (map (\<lambda>(service, ms). map (\<lambda>(m, h). (''/'' @ service @ ''/'' @ m, h)) ms) server))"

definition rpc_results ::
  "('s, 'q, 'r, 'm) rpc_server \<Rightarrow> ('q, 'r, 'm) multi_callable \<Rightarrow> 'q \<Rightarrow> 's \<Rightarrow> ((rpc_code + 'r) \<times> 's) set" where
  "rpc_results server mc q s =
     {(Inl c, s) | c. True} \<union>
     (case method_at server (mc_path mc) of
        None \<Rightarrow> {}
      | Some (Unary dec f enc) \<Rightarrow>
          (case dec (mc_serialize mc q) of
             None \<Rightarrow> {}
           | Some q1 \<Rightarrow> {(Inl c, snd (f q1 s)) | c. True} \<union>
               {(Inr r1, snd (f q1 s)) | r r1. fst (f q1 s) = Inr r \<and> mc_deserialize mc (enc r) = Some r1}))"

type_synonym ('s, 'q, 'r, 'm) channel = "('q, 'r, 'm) multi_callable \<Rightarrow> 'q \<Rightarrow> 's \<Rightarrow> (rpc_code + 'r) \<times> 's"

definition channel_law :: "('s, 'q, 'r, 'm) rpc_server \<Rightarrow> ('s, 'q, 'r, 'm) channel \<Rightarrow> bool" where
  "channel_law server call \<longleftrightarrow> (\<forall>mc q s. call mc q s \<in> rpc_results server mc q s)"

lemma stub_served:
  assumes "messages_law ms" and "method_at server (mc_path mc) = Some (Unary (request_from_string ms) f (response_to_string ms))"
    and "mc_serialize mc = request_to_string ms" and "mc_deserialize mc = response_from_string ms"
  shows "rpc_results server mc q s =
    {(Inl c, s) | c. True} \<union> {(Inl c, snd (f q s)) | c. True} \<union> {(Inr r, snd (f q s)) | r. fst (f q s) = Inr r}"
  using assms by (auto simp: rpc_results_def messages_law_def)

lemma telemetry_registered:
  "method_at server (mc_path (telemetry_stub ms)) = None \<Longrightarrow>
   method_at (add_telemetry_servicer ms f server) (mc_path (telemetry_stub ms)) =
     Some (Unary (request_from_string ms) f (response_to_string ms))"
  by (simp add: method_at_def add_telemetry_servicer_def telemetry_stub_def map_add_def)

lemma inference_registered:
  "method_at server (mc_path (inference_stub ms)) = None \<Longrightarrow>
   method_at (add_inference_servicer ms f server) (mc_path (inference_stub ms)) =
     Some (Unary (request_from_string ms) f (response_to_string ms))"
  by (simp add: method_at_def add_inference_servicer_def inference_stub_def map_add_def)

lemma telemetry_results:
  assumes "messages_law ms"
  shows "rpc_results (add_telemetry_servicer ms f []) (telemetry_stub ms) q s =
    {(Inl c, s) | c. True} \<union> {(Inl c, snd (f q s)) | c. True} \<union> {(Inr r, snd (f q s)) | r. fst (f q s) = Inr r}"
  by (intro stub_served [OF assms] telemetry_registered) (simp_all add: method_at_def telemetry_stub_def)

lemma inference_results:
  assumes "messages_law ms"
  shows "rpc_results (add_inference_servicer ms f []) (inference_stub ms) q s =
    {(Inl c, s) | c. True} \<union> {(Inl c, snd (f q s)) | c. True} \<union> {(Inr r, snd (f q s)) | r. fst (f q s) = Inr r}"
  by (intro stub_served [OF assms] inference_registered) (simp_all add: method_at_def inference_stub_def)

lemma channel_result: "channel_law server call \<Longrightarrow> call mc q s \<in> rpc_results server mc q s"
  by (simp add: channel_law_def)

text \<open>
  Client and server agree on the name of each service and method: a call by the stub either fails with a code, having run
  nothing or the servicer's method once, or answers what the servicer's method returned.
\<close>

theorem stubs_reach_servicers:
  assumes "messages_law tm" and "channel_law (add_telemetry_servicer tm ingest_method []) call"
    and "messages_law im" and "channel_law (add_inference_servicer im infer_method []) call2"
  shows "call (telemetry_stub tm) q s \<in>
           {(Inl c, s) | c. True} \<union> {(Inl c, snd (ingest_method q s)) | c. True} \<union>
           {(Inr r, snd (ingest_method q s)) | r. fst (ingest_method q s) = Inr r} \<and>
         call2 (inference_stub im) q2 s2 \<in>
           {(Inl c, s2) | c. True} \<union> {(Inl c, snd (infer_method q2 s2)) | c. True} \<union>
           {(Inr r, snd (infer_method q2 s2)) | r. fst (infer_method q2 s2) = Inr r}"
  using channel_result [OF assms(2)] channel_result [OF assms(4)]
  unfolding telemetry_results [OF assms(1), symmetric] inference_results [OF assms(3), symmetric] by blast

subsection \<open>The attempts of a flush\<close>

text \<open>
  The loop of \<open>_flush\<close> on one batch, against the state of the ingestion service: each attempt is a call over a channel
  of its own behaviour, and only an error code leads to the next. \<open>None\<close> is a batch that is dropped.
\<close>

fun send_batch ::
  "('s, 'q, 'r, 'm) channel list \<Rightarrow> ('q, 'r, 'm) multi_callable \<Rightarrow> 'q \<Rightarrow> 's \<Rightarrow> 'r option \<times> 's" where
  "send_batch [] mc q s = (None, s)"
| "send_batch (call # calls) mc q s =
     (case call mc q s of (Inr r, t) \<Rightarrow> (Some r, t) | (Inl c, t) \<Rightarrow> send_batch calls mc q t)"

text \<open>\<open>TelemetryServicer.IngestSpanBatch\<close>, its rejections logged at one clock reading.\<close>

definition ingest_method ::
  "'w ingest_env \<Rightarrow> real \<Rightarrow> proto_span list \<Rightarrow> ('w ingest, ingest_response) prog" where
  "ingest_method env now spans = ingest_batch env (map (Pair now) spans)"

text \<open>
  A duplicate filter that answers: it remembers every id it was asked about (\<open>ids\<close> observes them), and takes a
  remembered id for a duplicate.
\<close>

definition remembering :: "'w ingest_env \<Rightarrow> ('w \<Rightarrow> string set) \<Rightarrow> bool" where
  "remembering env ids \<longleftrightarrow>
     producer_keeps (ie_producer env) ids \<and>
     (\<exists>seen. ie_dedup env = Some seen \<and>
        (\<forall>i w. \<exists>b w1. seen i w = (Inr b, w1) \<and> ids w1 = insert i (ids w) \<and> (i \<in> ids w \<longrightarrow> b)))"

lemma sent_publish_most:
  assumes law: "sent_law env sent" and pub: "publish_span (ie_producer env) d k s = (r, t)"
  shows "length (sent (ing_world t)) \<le> Suc (length (sent (ing_world s)))"
proof -
  obtain a s1 where a: "on_ingest (avro_serialize (ie_producer env) d) s = (a, s1)" by fastforce
  have s1: "sent (ing_world s1) = sent (ing_world s)"
    using law by (intro sent_on_ingest [OF a]) (simp add: sent_law_def)
  show ?thesis
  proof (cases a)
    case (Inl e)
    with pub a s1 show ?thesis by (auto simp: publish_span_def sent_dead_letter [OF law])
  next
    case (Inr p)
    obtain b s2 where b: "produce_span (ie_producer env) p k s1 = (b, s2)" by fastforce
    note s2 = sent_produce [OF law b]
    show ?thesis
    proof (cases "b = Inl BufferError")
      case False
      with pub a Inr b s2 s1 show ?thesis by (cases b) (auto simp: publish_span_def)
    next
      case True
      obtain c s3 where c: "produce_span (ie_producer env) p k (serve_reports (ie_producer env) (1 / 2) s2) = (c, s3)"
        by fastforce
      from sent_produce [OF law c] s2 s1 pub a Inr b c True show ?thesis
        by (cases c) (auto simp: publish_span_def sent_serve_reports [OF law])
    qed
  qed
qed

text \<open>The ids a batch may publish under.\<close>

definition batch_ids :: "coercions \<Rightarrow> pydict list \<Rightarrow> string set" where
  "batch_ids co ds = {pl_span_id sp | d sp. d \<in> set ds \<and> validate_span co d = Some sp}"

lemma finite_batch_ids: "finite (batch_ids co ds)" and card_batch_ids: "card (batch_ids co ds) \<le> length ds"
proof -
  have sub: "batch_ids co ds \<subseteq> (\<lambda>d. pl_span_id (the (validate_span co d))) ` set ds"
    by (force simp: batch_ids_def)
  then show "finite (batch_ids co ds)" by (rule finite_subset) simp
  have "card (batch_ids co ds) \<le> card ((\<lambda>d. pl_span_id (the (validate_span co d))) ` set ds)"
    using sub by (intro card_mono) auto
  also have "\<dots> \<le> length ds" by (metis card_image_le card_length finite_set le_trans)
  finally show "card (batch_ids co ds) \<le> length ds" .
qed

text \<open>Records sent plus ids of the batch not yet remembered: this never grows.\<close>

definition budget :: "string set \<Rightarrow> ('w \<Rightarrow> (string \<times> payload) list) \<Rightarrow> ('w \<Rightarrow> string set) \<Rightarrow> 'w ingest \<Rightarrow> nat" where
  "budget B sent ids s = length (sent (ing_world s)) + card (B - ids (ing_world s))"

lemma ingest_span_budget:
  assumes law: "sent_law env sent" and rem: "remembering env ids" and fin: "finite B"
    and ran: "ingest_span env now d s = (r, t)"
    and B: "\<And>sp. validate_span (ie_coercions env) d = Some sp \<Longrightarrow> pl_span_id sp \<in> B"
  shows "budget B sent ids t \<le> budget B sent ids s"
proof (cases "validate_span (ie_coercions env) d")
  case None
  with ran show ?thesis by (auto simp: ingest_span_def Let_def log_reject_def budget_def)
next
  case (Some sp)
  from rem obtain seen where seen: "ie_dedup env = Some seen"
    "\<And>i w. \<exists>b w1. seen i w = (Inr b, w1) \<and> ids w1 = insert i (ids w) \<and> (i \<in> ids w \<longrightarrow> b)"
    and keeps: "producer_keeps (ie_producer env) ids"
    unfolding remembering_def by blast
  let ?i = "pl_span_id sp" and ?w = "ing_world s"
  obtain b w1 where b: "seen ?i ?w = (Inr b, w1)" "ids w1 = insert ?i (ids ?w)" "?i \<in> ids ?w \<longrightarrow> b"
    using seen(2) [of ?i ?w] by (elim exE conjE)
  have "sent (snd (seen ?i ?w)) = sent ?w" using law seen(1) unfolding sent_law_def by blast
  then have sent1: "sent w1 = sent ?w" by (simp add: b)
  obtain dup s2 where dup: "check_duplicate env ?i (s\<lparr>n_received := Suc (n_received s)\<rparr>) = (dup, s2)" by fastforce
  have s2: "dup = b" "ing_world s2 = w1"
    using dup seen(1) b(1) by (auto simp: check_duplicate_def on_ingest_def split: if_splits)
  show ?thesis
  proof (cases b)
    case True
    have "card (B - insert ?i (ids ?w)) \<le> card (B - ids ?w)" using fin by (intro card_mono) auto
    with True ran Some dup s2 b(2) sent1 show ?thesis by (auto simp: ingest_span_def Let_def budget_def)
  next
    case False
    with b(3) have new: "?i \<notin> ids ?w" by blast
    obtain r1 t1 where pub: "publish_span (ie_producer env) (dump_span sp) (pl_service_id sp) s2 = (r1, t1)" by fastforce
    have "ingest_span env now d s = (case r1 of Inl e \<Rightarrow> (Inl e, t1)
        | Inr ok \<Rightarrow> if ok then (Inr Accepted, index_log env sp (t1\<lparr>n_accepted := Suc (n_accepted t1)\<rparr>)) else (Inr Failed, t1))"
      using dup pub by (simp add: ingest_span_def Some Let_def s2(1) False split: sum.split bool.split)
    then have t: "ing_world t = ing_world t1"
      using ran by (simp add: index_log_def split: sum.splits if_splits)
    have split: "B - ids ?w = insert ?i (B - insert ?i (ids ?w))" using new B [OF Some] by blast
    have "card (insert ?i (B - insert ?i (ids ?w))) = Suc (card (B - insert ?i (ids ?w)))"
      using fin by (intro card_insert_disjoint) auto
    with split have "card (B - ids ?w) = Suc (card (B - insert ?i (ids ?w)))" by argo
    moreover have "ids (ing_world t1) = insert ?i (ids ?w)" using publish_span_keeps [OF keeps pub] s2 b(2) by simp
    moreover have "length (sent (ing_world t1)) \<le> Suc (length (sent ?w))"
      using sent_publish_most [OF law pub] s2 sent1 by simp
    ultimately show ?thesis by (simp add: budget_def t)
  qed
qed

lemma ingest_all_budget:
  assumes "sent_law env sent" and "remembering env ids" and "finite B"
  shows "batch_ids (ie_coercions env) (map snd rs) \<subseteq> B \<Longrightarrow>
    budget B sent ids (snd (ingest_all env rs s)) \<le> budget B sent ids s"
proof (induction rs arbitrary: s)
  case (Cons nd rs)
  obtain now d where nd: "nd = (now, d)" by fastforce
  obtain r t where t: "ingest_span env now d s = (r, t)" by fastforce
  have "budget B sent ids t \<le> budget B sent ids s"
    using Cons.prems by (intro ingest_span_budget [OF assms t]) (auto simp: batch_ids_def nd)
  moreover have "budget B sent ids (snd (ingest_all env rs t)) \<le> budget B sent ids t"
    using Cons.prems by (intro Cons.IH) (auto simp: batch_ids_def)
  ultimately show ?case by (auto simp: nd t split: sum.splits prod.splits)
qed simp

lemma snd_ingest_batch:
  "snd (ingest_batch env xs s) = snd (ingest_all env (map (\<lambda>(now, sp). (now, span_to_dict sp)) xs) s)"
  by (simp add: ingest_batch_def split: prod.split sum.split)

lemma ingest_method_budget:
  assumes "sent_law env sent" and "remembering env ids" and "finite B"
    and "batch_ids (ie_coercions env) (map span_to_dict spans) \<subseteq> B"
  shows "budget B sent ids (snd (ingest_method env now spans s)) \<le> budget B sent ids s"
proof -
  have "batch_ids (ie_coercions env) (map snd (map (\<lambda>(now, sp). (now, span_to_dict sp)) (map (Pair now) spans))) \<subseteq> B"
    using assms(4) by (simp add: comp_def)
  from ingest_all_budget [OF assms(1-3) this, of s] show ?thesis
    by (simp only: ingest_method_def snd_ingest_batch)
qed

text \<open>What every run of the method keeps, the attempts of a batch keep; an answer is the answer of such a run.\<close>

lemma send_batch_keeps:
  assumes laws: "messages_law ms"
    and calls: "\<And>call. call \<in> set calls \<Longrightarrow> \<exists>now. channel_law (add_telemetry_servicer ms (ingest_method env now) []) call"
    and keep: "\<And>now u. good u \<Longrightarrow> good (snd (ingest_method env now spans u))"
    and start: "good s" and run: "send_batch calls (telemetry_stub ms) spans s = (r, t)"
  shows "good t \<and> (\<forall>resp. r = Some resp \<longrightarrow> (\<exists>now u. good u \<and> ingest_method env now spans u = (Inr resp, t)))"
  using calls start run
proof (induction calls arbitrary: s)
  case (Cons call calls)
  obtain x u where x: "call (telemetry_stub ms) spans s = (x, u)" by fastforce
  from Cons.prems(1) [of call] obtain now where law: "channel_law (add_telemetry_servicer ms (ingest_method env now) []) call"
    by auto
  have "(x, u) \<in> {(Inl c, s) | c. True} \<union> {(Inl c, snd (ingest_method env now spans s)) | c. True} \<union>
      {(Inr r, snd (ingest_method env now spans s)) | r. fst (ingest_method env now spans s) = Inr r}"
    using channel_result [OF law, of "telemetry_stub ms" spans s] x by (simp only: telemetry_results [OF laws])
  with keep [OF Cons.prems(2), of now] Cons.prems(2) have u: "good u"
    and ans: "\<And>resp. x = Inr resp \<Longrightarrow> ingest_method env now spans s = (Inr resp, u)"
    by (auto simp: prod_eq_iff)
  show ?case
  proof (cases x)
    case (Inl c)
    with Cons.prems(3) x have "send_batch calls (telemetry_stub ms) spans u = (r, t)" by simp
    from Cons.IH [OF _ u this] Cons.prems(1) show ?thesis by fastforce
  next
    case (Inr resp)
    with Cons.prems(2,3) x u ans [OF Inr] show ?thesis by auto
  qed
qed simp


subsection \<open>The versions the generated code needs\<close>

text \<open>
  The import of \<open>ml_service_pb2_grpc\<close>: it first imports \<open>ml_service_pb2\<close>, which needs \<open>google.protobuf.runtime_version\<close>
  and its check for 6.33.5 (\<open>None\<close> when the installed protobuf has no such module), then compares the installed gRPC with
  1.81.1. \<open>lower\<close> is \<open>first_version_is_lower\<close>, \<open>None\<close> when the installed gRPC does not have it.
\<close>

definition generated_protobuf :: "nat \<times> nat \<times> nat" where
  "generated_protobuf = (6, 33, 5)"

definition generated_grpc :: string where
  "generated_grpc = ''1.81.1''"

definition import_error :: exn where
  "import_error = ExternalError ''ImportError''"

definition ml_pb2_import :: "(nat \<times> nat \<times> nat \<Rightarrow> exn + unit) option \<Rightarrow> exn + unit" where
  "ml_pb2_import validate = (case validate of None \<Rightarrow> Inl import_error | Some check \<Rightarrow> check generated_protobuf)"

definition ml_grpc_import ::
  "(nat \<times> nat \<times> nat \<Rightarrow> exn + unit) option \<Rightarrow> (string \<Rightarrow> string \<Rightarrow> bool) option \<Rightarrow> string \<Rightarrow> exn + unit" where
  "ml_grpc_import validate lower version =
     rbind (ml_pb2_import validate) (\<lambda>_.
       if (case lower of None \<Rightarrow> True | Some is_lower \<Rightarrow> is_lower version generated_grpc)
       then Inl (RuntimeError (''The grpc package installed is at version '' @ version @
              '', but the generated code in ml_service_pb2_grpc.py depends on grpcio>='' @ generated_grpc))
       else Inr ())"

text \<open>What \<open>ml_service/requirements.txt\<close> pins of the two.\<close>

definition pinned_requirements :: "(string \<times> string) list" where
  "pinned_requirements = [(''grpcio'', ''1.62.1''), (''protobuf'', ''4.25.3'')]"

text \<open>
  The ML service cannot start as it is pinned: whatever protobuf answers, with gRPC 1.62.1, which is lower
  than 1.81.1 or has no comparison at all, the import of the generated code raises, and with protobuf 4.25.3, which has
  no \<open>runtime_version\<close>, it already raises there.
\<close>

theorem pinned_ml_service_cannot_start:
  assumes "map_of pinned_requirements ''grpcio'' = Some version"
    and "case lower of None \<Rightarrow> True | Some is_lower \<Rightarrow> is_lower ''1.62.1'' ''1.81.1''"
  shows "(\<exists>e. ml_grpc_import validate lower version = Inl e) \<and> ml_grpc_import None lower version = Inl import_error"
proof -
  have "version = ''1.62.1''" using assms(1) by (simp add: pinned_requirements_def)
  with assms(2) have "case lower of None \<Rightarrow> True | Some is_lower \<Rightarrow> is_lower version generated_grpc"
    by (cases lower) (simp_all add: generated_grpc_def)
  then show ?thesis by (cases "ml_pb2_import validate") (simp_all add: ml_grpc_import_def ml_pb2_import_def)
qed

theorem pinned_ml_service_cannot_start_witness:
  "\<exists>e. ml_grpc_import (Some (\<lambda>_. Inr ())) (Some (\<lambda>v w. v = ''1.62.1'')) ''1.62.1'' = Inl e"
  using pinned_ml_service_cannot_start [of "''1.62.1''" "Some (\<lambda>v w. v = ''1.62.1'')" "Some (\<lambda>_. Inr ())"]
  by (simp add: pinned_requirements_def)

subsection \<open>A concrete call\<close>

definition ex_messages :: "('q, 'r, 'q + 'r) messages" where
  "ex_messages =
     \<lparr>request_to_string = Inl, request_from_string = (\<lambda>m. case m of Inl q \<Rightarrow> Some q | Inr r \<Rightarrow> None),
      response_to_string = Inr, response_from_string = (\<lambda>m. case m of Inl q \<Rightarrow> None | Inr r \<Rightarrow> Some r)\<rparr>"

lemma ex_messages_law: "messages_law ex_messages"
  by (simp add: messages_law_def ex_messages_def)

text \<open>A channel that delivers and answers, and one that loses the answer.\<close>

definition ex_channel :: "bool \<Rightarrow> ('s, 'q, 'r, 'm) rpc_server \<Rightarrow> ('s, 'q, 'r, 'm) channel" where
  "ex_channel loses server mc q s =
     (case method_at server (mc_path mc) of
        None \<Rightarrow> (Inl UNIMPLEMENTED, s)
      | Some (Unary dec f enc) \<Rightarrow>
          (case dec (mc_serialize mc q) of
             None \<Rightarrow> (Inl INTERNAL, s)
           | Some q1 \<Rightarrow>
               (case f q1 s of
                  (Inl e, t) \<Rightarrow> (Inl UNKNOWN, t)
                | (Inr r, t) \<Rightarrow>
                    (if loses then (Inl DEADLINE_EXCEEDED, t)
                     else case mc_deserialize mc (enc r) of None \<Rightarrow> (Inl INTERNAL, t) | Some r1 \<Rightarrow> (Inr r1, t)))))"

lemma ex_channel_law: "channel_law server (ex_channel loses server)"
  by (simp add: channel_law_def rpc_results_def ex_channel_def split: option.split method_handler.split prod.split sum.split)

theorem stubs_reach_servicers_witness:
  "ex_channel False (add_inference_servicer ex_messages (\<lambda>q s. (Inr (q + 1), s + q)) []) (inference_stub ex_messages)
     (3 :: nat) (4 :: nat) \<in> {(Inl c, 4) | c. True} \<union> {(Inl c, 7) | c. True} \<union> {(Inr 4, 7)}"
  using stubs_reach_servicers [OF ex_messages_law ex_channel_law [of _ False] ex_messages_law ex_channel_law [of _ False],
      of "\<lambda>q s. (Inr (q + 1), s + q)" "3 :: nat" "4 :: nat" "\<lambda>q s. (Inr (q + 1), s + q)" "3 :: nat" "4 :: nat"]
  by auto

text \<open>A broker and a filter that remembers, and the span of the ingestion example as a request.\<close>

type_synonym ex_topic_store = "(string \<times> payload) list \<times> string set"

definition ex_service :: "ex_topic_store ingest_env" where
  "ex_service =
     \<lparr>ie_coercions = ex_coercions,
      ie_dedup = Some (\<lambda>i (ms, ids). (Inr (i \<in> ids), (ms, insert i ids))),
      ie_producer = \<lparr>avro_serialize = (\<lambda>d w. (Inr ''avro'', w)), json_dumps = (\<lambda>d. ''{}''),
        produce_to = (\<lambda>topic k v why (ms, ids). (Inr (), (if topic = raw_topic then ms @ [(k, v)] else ms, ids))),
        poll_kafka = (\<lambda>t w. ([], w))\<rparr>,
      ie_es_config = default_es_config, ie_format = (\<lambda>n x. ''0'')\<rparr>"

definition ex_service_start :: "ex_topic_store ingest" where
  "ex_service_start =
     \<lparr>n_received = 0, n_accepted = 0, n_rejected = 0, n_duplicate = 0, n_published = 0, n_failed = 0,
      n_dlq = 0, n_dedup_errors = 0, last_reject_log = 0, reject_lines = 0, indexer = None, ing_world = ([], {})\<rparr>"

lemma ex_service_laws: "sent_law ex_service fst" "remembering ex_service snd"
  by (auto simp: sent_law_def remembering_def producer_keeps_def ex_service_def)



end
