(* ===== verification/Sim_Process.thy ===== *)
theory Sim_Process
  imports Topology Sim_Publisher Flink_Runtime
begin

section \<open>The simulator process\<close>

text \<open>
  \<open>main\<close> of \<open>simulator/main.py\<close>: the topology is pushed, the publisher chosen and started, one task per service runs its
  loop, and at the end the tasks are cancelled and the publisher is stopped. Neo4j, the metrics server and the publishers
  are parameters. The tasks interleave round by round; a round that is cancelled is one whose publish raises.
\<close>

subsection \<open>Start, tasks, end\<close>

record 'w sim_api =
  si_graph :: "'w graph_api"
  si_http :: "int \<Rightarrow> ('w, unit) prog"
  si_start :: "publish_mode \<Rightarrow> ('w, unit) prog"
  si_publish :: "publish_mode \<Rightarrow> sim_span \<Rightarrow> string \<Rightarrow> ('w, unit) prog"
  si_stop :: "publish_mode \<Rightarrow> ('w, unit) prog"

text \<open>Up to the running publisher; \<open>setting\<close> is \<open>PUBLISH_MODE\<close>.\<close>

definition sim_boot ::
  "'w sim_api \<Rightarrow> (string \<Rightarrow> string) \<Rightarrow> registry_draws \<Rightarrow> rng \<Rightarrow> int \<Rightarrow> string \<Rightarrow>
     ('w, ((string \<times> service) list \<times> cascade_map) \<times> publish_mode) prog" where
  "sim_boot api md5 dr g port setting =
     bnd (push_topology (si_graph api) md5 dr g) (\<lambda>topology.
     bnd (start_metrics_server (si_http api) port) (\<lambda>_.
     bnd (lift_res (create_publisher setting)) (\<lambda>mode.
     bnd (si_start api mode) (\<lambda>_. ret (topology, mode)))))"

text \<open>A round of one of the tasks: the service, its draws and the chance of a cascade.\<close>

type_synonym sim_tick = "string \<times> (nat \<Rightarrow> emission) \<times> real"

definition task_round ::
  "(sim_span \<Rightarrow> string \<Rightarrow> ('w, unit) prog) \<Rightarrow> (string \<times> service) list \<Rightarrow> cascade_map \<Rightarrow> sim_tick \<Rightarrow> 'w sim \<Rightarrow> 'w sim" where
  "task_round publish registry cm tick s =
     (case tick of (sid, em, chance) \<Rightarrow>
        (case map_of registry sid of
           None \<Rightarrow> s
         | Some svc \<Rightarrow> snd (service_round publish cm em chance (fst svc) s)))"

text \<open>The left result is a start that failed; else what \<open>stop\<close> answered and the final state.\<close>

definition simulator_main ::
  "'w sim_api \<Rightarrow> (string \<Rightarrow> string) \<Rightarrow> registry_draws \<Rightarrow> rng \<Rightarrow> int \<Rightarrow> string \<Rightarrow> sim_tick list \<Rightarrow> 'w \<Rightarrow>
     (exn \<times> 'w) + ((exn + unit) \<times> 'w sim)" where
  "simulator_main api md5 dr g port setting ticks w =
     (case sim_boot api md5 dr g port setting w of
        (Inl e, w1) \<Rightarrow> Inl (e, w1)
      | (Inr ((registry, cm), mode), w1) \<Rightarrow>
          (let s = fold (task_round (si_publish api mode) registry cm) ticks
                     \<lparr>sm_services = map_of registry, sm_publisher = w1\<rparr>;
               (r, w2) = si_stop api mode (sm_publisher s)
           in Inr (r, s\<lparr>sm_publisher := w2\<rparr>)))"

subsection \<open>What the fleet publishes\<close>

text \<open>
  \<open>heard\<close> observes the spans handed to the publisher, in order; nothing else hands over spans, and only the push of the
  topology touches the graph.
\<close>

definition handing_law :: "'w sim_api \<Rightarrow> ('w \<Rightarrow> graph_view) \<Rightarrow> ('w \<Rightarrow> sim_span list) \<Rightarrow> bool" where
  "handing_law api view heard \<longleftrightarrow>
     (\<forall>m sp sid w. heard (snd (si_publish api m sp sid w)) = heard w @ [sp] \<and>
        view (snd (si_publish api m sp sid w)) = view w) \<and>
     (\<forall>p w. heard (snd (si_http api p w)) = heard w \<and> view (snd (si_http api p w)) = view w) \<and>
     (\<forall>m w. heard (snd (si_start api m w)) = heard w \<and> view (snd (si_start api m w)) = view w) \<and>
     (\<forall>m w. heard (snd (si_stop api m w)) = heard w \<and> view (snd (si_stop api m w)) = view w) \<and>
     (\<forall>p w. heard (snd (execute_write (si_graph api) p w)) = heard w) \<and>
     (\<forall>w. heard (snd (close_driver (si_graph api) w)) = heard w)"

definition fleet_span :: "coercions \<Rightarrow> string set \<Rightarrow> sim_span \<Rightarrow> bool" where
  "fleet_span co ids sp \<longleftrightarrow>
     ss_service_id sp \<in> ids \<and> validate_span co (span_to_dict (to_proto_span sp)) = Some (payload_of sp)"

definition fleet_ok ::
  "coercions \<Rightarrow> string set \<Rightarrow> ('w \<Rightarrow> sim_span list) \<Rightarrow> ('w \<Rightarrow> graph_view) \<Rightarrow> graph_view \<Rightarrow> 'w sim \<Rightarrow> bool" where
  "fleet_ok co ids heard view v s \<longleftrightarrow>
     (\<forall>sp \<in> set (heard (sm_publisher s)). fleet_span co ids sp) \<and>
     (\<forall>sid. sm_services s sid \<noteq> None \<longrightarrow> sid \<in> ids) \<and> view (sm_publisher s) = v"

lemma generated_span:
  assumes "coercion_law co" and "emission_ok em" and "length sid \<in> {1..64}" and "sid \<in> ids"
    and "generate_metrics (em_normal em) svc = (m, svc1)" and "maybe_inject em m p = (m1, ty)"
  shows "fleet_span co ids (generate_span em sid m1 label)"
proof -
  have "metrics_ok m1"
    using maybe_inject_ok [OF assms(2), of m p] generate_metrics_ok [of "em_normal em" svc] assms(5,6) by simp
  from span_validates [OF assms(1,2) this assms(3)] assms(4) show ?thesis
    by (simp add: fleet_span_def generate_span_def)
qed

lemma publish_fleet:
  assumes "handing_law api view heard" and "fleet_ok co ids heard view v s" and "fleet_span co ids sp"
  shows "fleet_ok co ids heard view v (snd (publish_with (si_publish api m) sp sid s))"
proof -
  have "heard (snd (si_publish api m sp sid w)) = heard w @ [sp]" "view (snd (si_publish api m sp sid w)) = view w" for w
    using assms(1) unfolding handing_law_def by blast+
  with assms(2,3) show ?thesis by (simp add: fleet_ok_def publish_with_def case_prod_unfold Let_def)
qed

lemma services_fleet:
  "fleet_ok co ids heard view v s \<Longrightarrow> sid \<in> ids \<Longrightarrow> fleet_ok co ids heard view v (s\<lparr>sm_services := (sm_services s)(sid \<mapsto> x)\<rparr>)"
  by (simp add: fleet_ok_def)

lemma emit_cascade_fleet:
  assumes law: "handing_law api view heard" and co: "coercion_law co" and em: "\<forall>i. emission_ok (em i)"
    and ids: "\<forall>i \<in> ids. length i \<in> {1..64}" and ok: "fleet_ok co ids heard view v s"
  shows "fleet_ok co ids heard view v (snd (emit_cascade (si_publish api mode) em i as s))"
  using ok
proof (induction as arbitrary: i s)
  case (Cons a as)
  show ?case
  proof (cases "sm_services s a")
    case None
    with Cons show ?thesis by simp
  next
    case (Some svc)
    obtain m svc1 where g: "generate_metrics (em_normal (em i)) svc = (m, svc1)" by (rule prod.exhaust)
    obtain m1 ty where j: "maybe_inject (em i) m affected_probability = (m1, ty)" by fastforce
    from Some Cons.prems have a: "a \<in> ids" by (auto simp: fleet_ok_def)
    with ids have "length a \<in> {1..64}" by blast
    from generated_span [OF co _ this a g j] em have "fleet_span co ids (generate_span (em i) a m1 (Some ''CASCADE''))" by blast
    note step = publish_fleet [OF law services_fleet [OF Cons.prems a, of svc1] this, of mode a]
    obtain r u where u: "publish_with (si_publish api mode) (generate_span (em i) a m1 (Some ''CASCADE'')) a
        (s\<lparr>sm_services := (sm_services s)(a \<mapsto> svc1)\<rparr>) = (r, u)" by fastforce
    with step have "fleet_ok co ids heard view v u" by simp
    with Cons.IH show ?thesis by (cases r) (simp_all add: Some g j u)
  qed
qed simp

lemma service_round_fleet:
  assumes law: "handing_law api view heard" and co: "coercion_law co" and em: "\<forall>i. emission_ok (em i)"
    and ids: "\<forall>i \<in> ids. length i \<in> {1..64}" and ok: "fleet_ok co ids heard view v s" and cfg: "cf_id cfg \<in> ids"
  shows "fleet_ok co ids heard view v (snd (service_round (si_publish api mode) cm em chance cfg s))"
proof -
  let ?svc = "case sm_services s (cf_id cfg) of None \<Rightarrow> (cfg, None) | Some v \<Rightarrow> v"
  obtain m svc1 where g: "generate_metrics (em_normal (em 0)) ?svc = (m, svc1)" by (rule prod.exhaust)
  obtain m1 ty where j: "maybe_inject (em 0) m anomaly_probability = (m1, ty)" by fastforce
  from ids cfg have "length (cf_id cfg) \<in> {1..64}" by blast
  from generated_span [OF co _ this cfg g j] em have "fleet_span co ids (generate_span (em 0) (cf_id cfg) m1 ty)" by blast
  note step = publish_fleet [OF law services_fleet [OF ok cfg, of svc1] this, of mode "cf_id cfg"]
  obtain r u where u: "publish_with (si_publish api mode) (generate_span (em 0) (cf_id cfg) m1 ty) (cf_id cfg)
      (s\<lparr>sm_services := (sm_services s)(cf_id cfg \<mapsto> svc1)\<rparr>) = (r, u)" by fastforce
  with step have "fleet_ok co ids heard view v u" by simp
  with emit_cascade_fleet [OF law co em ids this] show ?thesis
    by (cases r) (simp_all add: service_round_def g j u)
qed

lemma set_update_cases: "e \<in> set (AList.update k v es) \<Longrightarrow> e = (k, v) \<or> e \<in> set es"
  by (induction es) (auto split: if_splits)

lemma registry_entries:
  "(sid, svc) \<in> set (build_registry md5 dr) \<Longrightarrow> cf_id (fst svc) = sid \<and> (\<exists>name. sid = service_id_of md5 name)"
proof -
  have "\<forall>(sid, svc) \<in> set (build_registry md5 dr). cf_id (fst svc) = sid \<and> (\<exists>name. sid = service_id_of md5 name)"
    unfolding build_registry_def
    by (rule fold_invariant [where Q = "\<lambda>_. True"])
       (auto simp: config_of_def dest!: set_update_cases)
  then show "(sid, svc) \<in> set (build_registry md5 dr) \<Longrightarrow> cf_id (fst svc) = sid \<and> (\<exists>name. sid = service_id_of md5 name)"
    by auto
qed

lemma fleet_rounds:
  assumes law: "handing_law api view heard" and co: "coercion_law co"
    and em: "\<forall>(sid, em, chance) \<in> set ticks. \<forall>i. emission_ok (em i)"
    and ids: "\<forall>i \<in> ids. length i \<in> {1..64}" and ok: "fleet_ok co ids heard view v s"
    and registry: "\<forall>(sid, svc) \<in> set registry. cf_id (fst svc) \<in> ids"
  shows "fleet_ok co ids heard view v (fold (task_round (si_publish api mode) registry cm) ticks s)"
  using em ok
proof (induction ticks arbitrary: s)
  case (Cons tick ticks)
  obtain sid em chance where tick: "tick = (sid, em, chance)" by (cases tick rule: prod_cases3)
  from Cons.prems(1) have "\<forall>i. emission_ok (em i)" by (simp add: tick)
  then have "fleet_ok co ids heard view v (task_round (si_publish api mode) registry cm tick s)"
    using service_round_fleet [OF law co _ ids Cons.prems(2)] registry Cons.prems(2)
    by (auto simp: task_round_def tick split: option.split dest!: map_of_SomeD)
  with Cons show ?case by simp
qed simp

lemma heard_load: "handing_law api view heard \<Longrightarrow> heard (snd (load_topology (si_graph api) registry cm w)) = heard w"
  by (simp add: handing_law_def load_topology_def)

lemma heard_push:
  assumes "handing_law api view heard"
  shows "heard (snd (push_topology (si_graph api) md5 dr g w)) = heard w"
proof -
  have close: "heard (snd (close_driver (si_graph api) u)) = heard u" for u
    using assms unfolding handing_law_def by blast
  obtain r w1 where w1: "load_topology (si_graph api) (build_registry md5 dr)
      (build_cascade_map g (map fst (build_registry md5 dr))) w = (r, w1)" by fastforce
  with heard_load [OF assms] have "heard w1 = heard w" by (metis snd_conv)
  then show ?thesis using close [of w1] by (auto simp: push_topology_def w1 Let_def split: prod.split sum.split)
qed

lemma boot_after_push:
  assumes law: "handing_law api view heard" and boot: "sim_boot api md5 dr g port setting w = (r, w1)"
  shows "heard w1 = heard w \<and>
    (\<forall>topology mode. r = Inr (topology, mode) \<longrightarrow>
       (\<exists>w0. push_topology (si_graph api) md5 dr g w = (Inr topology, w0) \<and> view w1 = view w0))"
proof -
  obtain r0 w0 where push: "push_topology (si_graph api) md5 dr g w = (r0, w0)" by fastforce
  with heard_push [OF law, of md5 dr g w] have h0: "heard w0 = heard w" by simp
  show ?thesis
  proof (cases r0)
    case (Inl e)
    with boot push h0 show ?thesis by (auto simp: sim_boot_def bnd_def)
  next
    case (Inr topology)
    obtain b wm where m: "start_metrics_server (si_http api) port w0 = (b, wm)" by fastforce
    have "heard wm = heard w0 \<and> view wm = view w0"
      using law m unfolding handing_law_def start_metrics_server_def
      by (smt (verit) case_prod_conv prod.collapse snd_conv sum.case_eq_if)
    moreover have "heard (snd (si_start api mode wm)) = heard wm \<and> view (snd (si_start api mode wm)) = view wm" for mode
      using law unfolding handing_law_def by blast
    ultimately show ?thesis
      using boot push h0 Inr m
      by (auto simp: sim_boot_def bnd_def ret_def lift_res_def split: sum.splits prod.splits) (metis snd_conv)+
  qed
qed

lemma stop_keeps:
  assumes "handing_law api view heard"
  shows "heard (snd (si_stop api m w)) = heard w" "view (snd (si_stop api m w)) = view w"
  using assms unfolding handing_law_def by blast+

lemma loaded_nodes:
  "sid \<in> fst ` set registry \<Longrightarrow> fst (loaded_graph registry cm v) sid \<noteq> None"
  by (auto simp: loaded_graph_def map_of_eq_None_iff split: option.split)

lemma simulator_fleet:
  assumes "handing_law api view heard" and "graph_law (si_graph api) view" and "coercion_law co"
    and "\<And>name. 8 \<le> length (md5 name)" and "heard w = []"
    and "\<forall>(sid, em, chance) \<in> set ticks. \<forall>i. emission_ok (em i)"
  shows "case simulator_main api md5 dr g port setting ticks w of
           Inl (e, w1) \<Rightarrow> heard w1 = []
         | Inr (r, s) \<Rightarrow> \<forall>sp \<in> set (heard (sm_publisher s)).
             validate_span co (span_to_dict (to_proto_span sp)) = Some (payload_of sp) \<and>
             fst (view (sm_publisher s)) (ss_service_id sp) \<noteq> None"
proof -
  obtain r w1 where boot: "sim_boot api md5 dr g port setting w = (r, w1)" by fastforce
  note after = boot_after_push [OF assms(1) boot]
  show ?thesis
  proof (cases r)
    case (Inl e)
    with boot after assms(5) show ?thesis by (simp add: simulator_main_def)
  next
    case (Inr out)
    obtain registry cm mode where out: "out = ((registry, cm), mode)" by (metis prod.exhaust)
    with after Inr obtain w0 where push: "push_topology (si_graph api) md5 dr g w = (Inr (registry, cm), w0)"
      and v: "view w1 = view w0" by blast
    from pushed_graph [OF assms(2) push] v have reg: "registry = build_registry md5 dr"
      and graph: "view w1 = loaded_graph registry cm (view w)" by simp_all
    let ?ids = "fst ` set registry"
    let ?s = "fold (task_round (si_publish api mode) registry cm) ticks \<lparr>sm_services = map_of registry, sm_publisher = w1\<rparr>"
    have entry: "cf_id (fst svc) = sid \<and> length sid \<in> {1..64}" if "(sid, svc) \<in> set registry" for sid svc
      using registry_entries [of sid svc md5 dr] that service_id_length [of md5] assms(4) by (auto simp: reg)
    have "fleet_ok co ?ids heard view (view w1) ?s"
    proof (rule fleet_rounds [OF assms(1,3,6)])
      show "\<forall>i \<in> ?ids. length i \<in> {1..64}" using entry by fastforce
      show "fleet_ok co ?ids heard view (view w1) \<lparr>sm_services = map_of registry, sm_publisher = w1\<rparr>"
        using after assms(5) by (auto simp: fleet_ok_def map_of_eq_None_iff)
      show "\<forall>(sid, svc) \<in> set registry. cf_id (fst svc) \<in> ?ids" using entry by force
    qed
    then have ok: "\<forall>sp \<in> set (heard (sm_publisher ?s)). fleet_span co ?ids sp" "view (sm_publisher ?s) = view w1"
      by (simp_all add: fleet_ok_def)
    obtain r2 w2 where stop: "si_stop api mode (sm_publisher ?s) = (r2, w2)" by fastforce
    with stop_keeps [OF assms(1), of mode "sm_publisher ?s"] ok
    have "\<forall>sp \<in> set (heard w2). fleet_span co ?ids sp" "view w2 = view w1" by simp_all
    with graph loaded_nodes [of _ registry cm "view w"] show ?thesis
      by (simp add: simulator_main_def boot Inr out stop Let_def fleet_span_def)
  qed
qed

text \<open>
  C30. Whatever the fleet draws and in whatever order its tasks run, with any failures of the publisher, every span the
  process hands over passes the validation of the ingestion service and belongs to a service that is a node of
  the graph in Neo4j, so the correlation engine can place it. Without Neo4j, with an unknown publish mode or without an
  ingestion service the process ends and hands over nothing.
\<close>

theorem fleet_is_known:
  assumes "handing_law api view heard" and "graph_law (si_graph api) view" and "coercion_law co"
    and "\<And>name. 8 \<le> length (md5 name)" and "heard w = []"
    and "\<forall>(sid, em, chance) \<in> set ticks. \<forall>i. emission_ok (em i)"
  shows "case simulator_main api md5 dr g port setting ticks w of
           Inl (e, w1) \<Rightarrow> heard w1 = []
         | Inr (r, s) \<Rightarrow> \<forall>sp \<in> set (heard (sm_publisher s)).
             validate_span co (span_to_dict (to_proto_span sp)) = Some (payload_of sp) \<and>
             fst (view (sm_publisher s)) (ss_service_id sp) \<noteq> None"
  using assms by (rule simulator_fleet)

subsection \<open>A concrete fleet\<close>

text \<open>A graph store beside the list of the spans handed over.\<close>

definition on_graph :: "(ex_graph_store, 'a) prog \<Rightarrow> (ex_graph_store \<times> sim_span list, 'a) prog" where
  "on_graph p w = (let (r, v) = p (fst w) in (r, (v, snd w)))"

text \<open>A transaction's function runs on the store alone.\<close>

definition ex_fleet_graph :: "(ex_graph_store \<times> sim_span list) graph_api" where
  "ex_fleet_graph =
     \<lparr>merge_service = (\<lambda>i a. on_graph (merge_service ex_graph i a)),
      merge_call = (\<lambda>i j l v. on_graph (merge_call ex_graph i j l v)),
      match_related = (\<lambda>i n. on_graph (match_related ex_graph i n)),
      execute_write = (\<lambda>p w. case p w of (Inl e, w1) \<Rightarrow> (Inl e, w) | (Inr u, w1) \<Rightarrow> (Inr u, (fst w1, snd w))),
      close_driver = on_graph (close_driver ex_graph)\<rparr>"

definition ex_fleet :: "(ex_graph_store \<times> sim_span list) sim_api" where
  "ex_fleet =
     \<lparr>si_graph = ex_fleet_graph, si_http = (\<lambda>p w. (Inl os_error, w)), si_start = (\<lambda>m w. (Inr (), w)),
      si_publish = (\<lambda>m sp sid w. (Inr (), (fst w, snd w @ [sp]))), si_stop = (\<lambda>m w. (Inr (), w))\<rparr>"

lemma ex_fleet_graph_law: "graph_law ex_fleet_graph (\<lambda>w. ex_view (fst w))"
  unfolding graph_law_def
proof (intro conjI allI impI)
  fix p w w' assume "execute_write ex_fleet_graph p w = (Inr (), w')"
  then show "\<exists>w0 w1. ex_view (fst w0) = ex_view (fst w) \<and> p w0 = (Inr (), w1) \<and> ex_view (fst w') = ex_view (fst w1)"
    by (intro exI [of _ w] exI [of _ "snd (p w)"]) (auto simp: ex_fleet_graph_def split: prod.splits sum.splits)
next
  fix p w e w' assume "execute_write ex_fleet_graph p w = (Inl e, w')"
  then show "ex_view (fst w') = ex_view (fst w)" by (auto simp: ex_fleet_graph_def split: prod.splits sum.splits)
next
  fix i n w js w' es
  assume "match_related ex_fleet_graph i n w = (Inr js, w')" and es: "set es = dom (snd (ex_view (fst w)))"
  then have "\<exists>v. match_related ex_graph i n (fst w) = (Inr js, v)"
    by (auto simp: ex_fleet_graph_def on_graph_def split: prod.splits)
  with ex_graph_law es show "set js = set (trails es n i)" unfolding graph_law_def by blast
qed (auto simp: ex_fleet_graph_def on_graph_def ex_graph_def ex_view_def update_conv' finite_dom_map_of case_prod_unfold Let_def)

lemma ex_handing_law: "handing_law ex_fleet (\<lambda>w. ex_view (fst w)) snd"
  by (auto simp: handing_law_def ex_fleet_def ex_fleet_graph_def on_graph_def ex_graph_def split: prod.splits sum.splits)

lemma fold_update_keys:
  "fst ` set (fold (\<lambda>(i, name). AList.update (f name) (h i name)) xs es) = fst ` set es \<union> f ` snd ` set xs"
  by (induction xs arbitrary: es) (simp_all add: dom_update case_prod_beta)

lemma registry_ids:
  "fst ` set (build_registry md5 dr) = service_id_of md5 ` set (take num_services service_names)"
proof -
  have "snd ` set (zip [0..<num_services] (take num_services service_names)) = set (take num_services service_names)"
    by (metis diff_zero length_take length_upt list.set_map map_snd_zip_take min.cobounded2 min.commute take_all take_take)
  then show ?thesis
    using fold_update_keys [of "service_id_of md5" "\<lambda>i name. (config_of md5 dr i name, None)"
        "zip [0..<num_services] (take num_services service_names)" "[]"]
    by (simp add: build_registry_def)
qed

lemma ex_fleet_loads: "\<exists>w'. load_topology ex_fleet_graph registry cm w = (Inr (), w')"
proof -
  have merges: "\<exists>w'. merge_node ex_fleet_graph e w = (Inr (), w')" "\<exists>w'. merge_edge ex_fleet_graph registry ed w = (Inr (), w')" for e ed w
    by (cases w; auto simp: merge_node_def merge_edge_def ex_fleet_graph_def on_graph_def ex_graph_def Let_def ret_def
        split: option.splits)+
  obtain w1 where "run_all (map (merge_node ex_fleet_graph) registry) w = (Inr (), w1)"
    using run_all_returns [of "map (merge_node ex_fleet_graph) registry" w] merges(1) by auto
  moreover obtain w2 where "run_all (map (merge_edge ex_fleet_graph registry) (edges_of cm)) w1 = (Inr (), w2)"
    using run_all_returns [of "map (merge_edge ex_fleet_graph registry) (edges_of cm)" w1] merges(2) by auto
  ultimately have "merge_topology ex_fleet_graph registry cm w = (Inr (), w2)" by (simp add: merge_topology_def bnd_def)
  then show ?thesis by (simp add: load_topology_def ex_fleet_graph_def)
qed

definition ex_md5 :: "string \<Rightarrow> string" where
  "ex_md5 name = name @ ''00000000''"

definition ex_fleet_draws :: registry_draws where
  "ex_fleet_draws = \<lparr>rd_tier = \<lambda>_. 0, rd_team = \<lambda>_. 0, rd_unit = \<lambda>_ _. 0\<rparr>"

lemma ex_close: "si_graph ex_fleet = ex_fleet_graph" "close_driver ex_fleet_graph w = (Inr (), w)"
  by (simp_all add: ex_fleet_def ex_fleet_graph_def on_graph_def ex_graph_def)

lemma ex_fleet_boots:
  "\<exists>cm w1. sim_boot ex_fleet ex_md5 ex_fleet_draws ex_rng 9100 ''grpc'' (([], []), []) =
     (Inr ((build_registry ex_md5 ex_fleet_draws, cm), Grpc), w1)"
proof -
  obtain w1 where "load_topology ex_fleet_graph (build_registry ex_md5 ex_fleet_draws)
      (build_cascade_map ex_rng (map fst (build_registry ex_md5 ex_fleet_draws))) (([], []), []) = (Inr (), w1)"
    using ex_fleet_loads by blast
  then have "\<exists>cm w2. push_topology (si_graph ex_fleet) ex_md5 ex_fleet_draws ex_rng (([], []), []) =
      (Inr (build_registry ex_md5 ex_fleet_draws, cm), w2)"
    using ex_close by (simp add: push_topology_def Let_def del: split_paired_Ex)
  then show ?thesis
    by (auto simp: sim_boot_def bnd_def ret_def lift_res_def create_publisher_def start_metrics_server_def)
      (auto simp: ex_fleet_def bnd_def ret_def lift_res_def)
qed

text \<open>One service emits an anomalous span, without a cascade.\<close>

definition ex_ticks :: "sim_tick list" where
  "ex_ticks = [(''svc-auth-ser'', \<lambda>i. ex_emission, 1)]"

lemma ex_round_heard:
  "\<exists>sp. snd (sm_publisher (snd (service_round (si_publish ex_fleet m) cm (\<lambda>i. ex_emission) 1 cfg s))) =
     snd (sm_publisher s) @ [sp]"
  by (simp add: service_round_def publish_with_def maybe_inject_def ex_emission_def anomaly_probability_def
      cascade_probability_def generate_metrics_def Let_def ex_fleet_def split: option.split prod.split)

lemma ex_fleet_heard:
  "\<exists>r s. simulator_main ex_fleet ex_md5 ex_fleet_draws ex_rng 9100 ''grpc'' ex_ticks (([], []), []) = Inr (r, s) \<and>
     snd (sm_publisher s) \<noteq> []"
proof -
  obtain cm w1 where boot: "sim_boot ex_fleet ex_md5 ex_fleet_draws ex_rng 9100 ''grpc'' (([], []), []) =
      (Inr ((build_registry ex_md5 ex_fleet_draws, cm), Grpc), w1)" using ex_fleet_boots by blast
  have "''auth-service'' \<in> set (take num_services service_names)" by (simp add: service_names_def num_services_def)
  then have "service_id_of ex_md5 ''auth-service'' \<in> fst ` set (build_registry ex_md5 ex_fleet_draws)"
    unfolding registry_ids by blast
  then have "map_of (build_registry ex_md5 ex_fleet_draws) ''svc-auth-ser'' \<noteq> None"
    by (simp add: service_id_of_def ex_md5_def map_of_eq_None_iff)
  then obtain svc where svc: "map_of (build_registry ex_md5 ex_fleet_draws) ''svc-auth-ser'' = Some svc" by blast
  let ?s = "snd (service_round (si_publish ex_fleet Grpc) cm (\<lambda>i. ex_emission) 1 (fst svc)
    \<lparr>sm_services = map_of (build_registry ex_md5 ex_fleet_draws), sm_publisher = w1\<rparr>)"
  obtain sp where "snd (sm_publisher ?s) = snd w1 @ [sp]"
    using ex_round_heard [of Grpc cm "fst svc" "\<lparr>sm_services = map_of (build_registry ex_md5 ex_fleet_draws), sm_publisher = w1\<rparr>"]
    by auto
  moreover have "si_stop ex_fleet Grpc w = (Inr (), w)" for w by (simp add: ex_fleet_def)
  ultimately show ?thesis by (simp add: simulator_main_def boot ex_ticks_def task_round_def svc Let_def)
qed

theorem fleet_is_known_witness:
  "\<exists>r s. simulator_main ex_fleet ex_md5 ex_fleet_draws ex_rng 9100 ''grpc'' ex_ticks (([], []), []) = Inr (r, s) \<and>
     snd (sm_publisher s) \<noteq> [] \<and> fst (ex_view (fst (sm_publisher s))) (ss_service_id (hd (snd (sm_publisher s)))) \<noteq> None"
proof -
  from ex_fleet_heard obtain r s where s: "simulator_main ex_fleet ex_md5 ex_fleet_draws ex_rng 9100 ''grpc'' ex_ticks
      (([], []), []) = Inr (r, s)" "snd (sm_publisher s) \<noteq> []" by blast
  have "\<forall>(sid, em, chance) \<in> set ex_ticks. \<forall>i. emission_ok (em i)"
    by (simp add: ex_ticks_def emission_ok_def ex_emission_def hex_of_def)
  with fleet_is_known [OF ex_handing_law _ ex_coercion_law, of ex_md5 "(([], []), [])" ex_ticks ex_fleet_draws ex_rng 9100 "''grpc''"]
  have "\<forall>sp \<in> set (snd (sm_publisher s)). fst (ex_view (fst (sm_publisher s))) (ss_service_id sp) \<noteq> None"
    using ex_fleet_graph_law by (simp add: s(1) ex_md5_def ex_close(1))
  with s show ?thesis by (meson hd_in_set)
qed

end
