(* ===== verification/ML_Lstm_Training.thy ===== *)
theory ML_Lstm_Training
  imports ML_Training
begin

section \<open>Training the LSTM\<close>

text \<open>
  \<open>ml_service/training/train_lstm.py\<close>, the script for the network behind TorchServe. It imports a name that
  \<open>dataset.py\<close> does not have, so what its training data would be is unknown: here they are an array, as the list
  of its items along the first axis. Epochs, batches and the threshold are those of the transformer's training.
\<close>

subsection \<open>The import\<close>

text \<open>What \<open>dataset.py\<close> defines, and what the script imports from it.\<close>

definition dataset_names :: "string list" where
  "dataset_names =
     [''_ar1_process'', ''generate_service_series'', ''generate_synthetic_dataset'', ''chronological_split'',
      ''MetricWindowDataset'']"

definition lstm_imports :: "string list" where
  "lstm_imports = [''MetricWindowDataset'', ''generate_synthetic_data'']"

definition from_import :: "string list \<Rightarrow> string list \<Rightarrow> exn + unit" where
  "from_import names wanted = (if set wanted \<subseteq> set names then Inr () else Inl (ExternalError ''ImportError''))"

subsection \<open>The training\<close>

text \<open>
  \<open>normalized\<close> subtracts the mean of the first axis and divides by its widened deviation; \<open>split n ds\<close> is the \<open>random_split\<close>
  into \<open>n\<close> items and the rest. A shuffling loader refuses an empty set, and without an epoch the errors are unbound.
\<close>

record 'm lstm_trained =
  lt_saved :: "'m option"
  lt_threshold :: "threshold_stats option"

definition train_lstm ::
  "('m, 'b list) train_api \<Rightarrow> stats_ops \<Rightarrow> ('b list list \<Rightarrow> 'b list list) \<Rightarrow>
     (nat \<Rightarrow> 'b list list \<Rightarrow> 'b list list \<times> 'b list list) \<Rightarrow> nat \<Rightarrow> nat \<Rightarrow> 'm \<Rightarrow> 'b list list \<Rightarrow> exn + 'm lstm_trained" where
  "train_lstm api np normalized split batch_size epochs m raw =
     (let ds = dataset_windows lstm_sequence_len (normalized raw);
          val_size = nat \<lfloor>real (length ds) * (2 / 10)\<rfloor>;
          (tr, va) = split (length ds - val_size) ds
      in if tr = [] then Inl ValueError
         else if epochs = 0 then Inl (ExternalError ''UnboundLocalError'')
         else let s = train_epochs api batch_size tr va m epochs
              in Inr \<lparr>lt_saved = tn_saved s,
                      lt_threshold = (if tn_val_errors s = [] then None
                                      else Some (compute_threshold (np_std np) (tn_val_errors s)))\<rparr>)"

text \<open>The script: its imports, then the call of the missing function (\<open>generate\<close>) and the training of 60 epochs.\<close>

definition lstm_script ::
  "string list \<Rightarrow> (nat \<Rightarrow> nat \<Rightarrow> 'b list list) \<Rightarrow> ('m, 'b list) train_api \<Rightarrow> stats_ops \<Rightarrow> ('b list list \<Rightarrow> 'b list list) \<Rightarrow>
     (nat \<Rightarrow> 'b list list \<Rightarrow> 'b list list \<times> 'b list list) \<Rightarrow> 'm \<Rightarrow> exn + 'm lstm_trained" where
  "lstm_script names generate api np normalized split m =
     rbind (from_import names lstm_imports) (\<lambda>_. train_lstm api np normalized split 32 60 m (generate 20 5000))"

text \<open>\<open>normalized\<close> keeps the shape, \<open>split\<close> distributes the windows.\<close>

definition array_laws ::
  "('b list list \<Rightarrow> 'b list list) \<Rightarrow> (nat \<Rightarrow> 'b list list \<Rightarrow> 'b list list \<times> 'b list list) \<Rightarrow> bool" where
  "array_laws normalized split \<longleftrightarrow>
     (\<forall>a. map length (normalized a) = map length a) \<and>
     (\<forall>n ds tr va. split n ds = (tr, va) \<longrightarrow> length tr = min n (length ds) \<and> mset tr + mset va = mset ds)"

lemma sliding_short: "length xs \<le> k \<Longrightarrow> sliding k xs = []"
  by (simp add: sliding_def)

lemma windows_empty:
  assumes "\<forall>r \<in> set a. length r \<le> k"
  shows "dataset_windows k a = []"
  using assms by (simp add: dataset_windows_def sliding_short)

text \<open>
  The LSTM is never trained. As the repository is, the script raises at its import. With the import repaired by a
  table of readings (items of the first axis are time steps of at most 60 numbers), the data set takes every time step for a
  service, finds no window, and the loader raises: no model and no threshold are written.
\<close>

theorem lstm_never_trained:
  assumes laws: "array_laws normalized split"
    and short: "\<forall>r \<in> set raw. length r \<le> lstm_sequence_len"
  shows "lstm_script dataset_names generate api np normalized split m = Inl (ExternalError ''ImportError'') \<and>
         train_lstm api np normalized split k n m raw = Inl ValueError"
proof
  show "lstm_script dataset_names generate api np normalized split m = Inl (ExternalError ''ImportError'')"
    by (simp add: lstm_script_def from_import_def lstm_imports_def dataset_names_def)
  have "set (map length (normalized raw)) = set (map length raw)" using laws by (simp add: array_laws_def)
  then have shape: "length ` set (normalized raw) = length ` set raw" by simp
  have "length r \<le> lstm_sequence_len" if "r \<in> set (normalized raw)" for r
  proof -
    from that have "length r \<in> length ` set (normalized raw)" by simp
    then have "length r \<in> length ` set raw" by (simp only: shape)
    with short show ?thesis by auto
  qed
  then have ds: "dataset_windows lstm_sequence_len (normalized raw) = []" by (intro windows_empty) simp
  obtain tr va where split: "split 0 [] = (tr, va)" by fastforce
  with laws have "tr = []" by (fastforce simp: array_laws_def)
  with ds split show "train_lstm api np normalized split k n m raw = Inl ValueError" by (simp add: train_lstm_def)
qed

lemma mset_take_drop: "mset (take n ds) + mset (drop n ds) = mset ds"
  by (simp flip: mset_append)

lemma array_laws_plain: "array_laws (\<lambda>a. a) (\<lambda>n ds. (take n ds, drop n ds))"
  by (simp add: array_laws_def min.commute mset_take_drop)

theorem lstm_never_trained_witness:
  "\<forall>api np m. train_lstm api np (\<lambda>a. a) (\<lambda>n ds. (take n ds, drop n ds)) 32 60 m [[1::real, 2], [3, 4]] = Inl ValueError"
  by (intro allI conjunct2 [OF lstm_never_trained [OF array_laws_plain]]) (simp add: lstm_sequence_len_def)

end
