(* ===== verification/ML_Evaluation.thy ===== *)
theory ML_Evaluation
  imports ML_Training
begin

section \<open>From the trained files to the verdicts\<close>

text \<open>
  The forest on disk (\<open>ml_service/models/isolation_forest.py\<close>, \<open>training/train_iforest.py\<close>), the start of the gateway from
  the files that training left, and the two evaluations of the repository: \<open>training/test_debounce.py\<close>, which compares
  persistence settings on a labelled set, and \<open>gateway/test_gateway_e2e.py\<close>, which feeds a series to the gateway.
  scikit-learn, torch, joblib and the file system are parameters.
\<close>

subsection \<open>The forest on disk\<close>

text \<open>
  \<open>'f\<close> is a fitted forest; a model object holds one or none. \<open>fo_dump\<close> is \<open>joblib.dump\<close> after the \<open>mkdir\<close>, \<open>fo_found\<close> whether
  the file exists, \<open>fo_load\<close> is \<open>joblib.load\<close>.
\<close>

record ('f, 'w) forest_api =
  fo_fit :: "real list list \<Rightarrow> exn + 'f"
  fo_decide :: "'f \<Rightarrow> real list \<Rightarrow> exn + real"
  fo_dump :: "'f option \<Rightarrow> ('w, unit) prog"
  fo_found :: "'w \<Rightarrow> bool"
  fo_load :: "('w, 'f option) prog"

definition file_not_found :: exn where
  "file_not_found = ExternalError ''FileNotFoundError''"

definition forest_train :: "('f, 'w) forest_api \<Rightarrow> real list list \<Rightarrow> 'f option \<Rightarrow> (exn + unit) \<times> 'f option" where
  "forest_train api X model = (case fo_fit api X of Inl e \<Rightarrow> (Inl e, model) | Inr f \<Rightarrow> (Inr (), Some f))"

definition forest_save :: "('f, 'w) forest_api \<Rightarrow> 'f option \<Rightarrow> ('w, unit) prog" where
  "forest_save api model = fo_dump api model"

definition forest_load :: "('f, 'w) forest_api \<Rightarrow> ('w, 'f option) prog" where
  "forest_load api w = (if fo_found api w then fo_load api w else (Inl file_not_found, w))"

definition iforest_window :: nat where
  "iforest_window = 60"

text \<open>\<open>train\<close> of the script on the generated series of normal behaviour.\<close>

definition train_iforest :: "('f, 'w) forest_api \<Rightarrow> stats_ops \<Rightarrow> reading list list \<Rightarrow> ('w, unit) prog" where
  "train_iforest api np services w =
     (case forest_train api (forest_training_set np iforest_window services) None of
        (Inl e, _) \<Rightarrow> (Inl e, w)
      | (Inr _, model) \<Rightarrow> forest_save api model w)"

subsection \<open>The start of the gateway\<close>

text \<open>The other files: each reader raises, \<open>FileNotFoundError\<close> when there is no file, or gives what it read.\<close>

record 'w gateway_files =
  gf_network :: "('w, real list list \<Rightarrow> exn + real) prog"
  gf_threshold :: "('w, real) prog"
  gf_stats :: "('w, real list \<times> real list) prog"

definition or_missing :: "('w, 'a) prog \<Rightarrow> ('w, 'a option) prog" where
  "or_missing p =
     catch (bnd p (\<lambda>x. ret (Some x))) (\<lambda>e. if e = file_not_found then ret None else raise e)"

text \<open>Prediction with a loaded object, which may be empty.\<close>

definition forest_decision :: "('f, 'w) forest_api \<Rightarrow> 'f option \<Rightarrow> real list \<Rightarrow> exn + real" where
  "forest_decision api model x =
     (case model of None \<Rightarrow> Inl (RuntimeError ''Model not loaded. Call load() first.'') | Some f \<Rightarrow> fo_decide api f x)"

definition gateway_start :: "'w gateway_files \<Rightarrow> ('f, 'w) forest_api \<Rightarrow> stats_ops \<Rightarrow> ('w, gateway_env) prog" where
  "gateway_start files api np =
     bnd (or_missing (gf_network files)) (\<lambda>net.
     bnd (or_missing (gf_threshold files)) (\<lambda>threshold.
     bnd (or_missing (gf_stats files)) (\<lambda>stats.
     bnd (or_missing (forest_load api)) (\<lambda>forest.
     ret (gateway_of_files net threshold stats (map_option (forest_decision api) forest) np)))))"

text \<open>
  A dump that returns is found and loaded again, and reading changes nothing; a fitted forest decides on every vector of as
  many features as it was fitted on.
\<close>

definition disk_law :: "'w gateway_files \<Rightarrow> ('f, 'w) forest_api \<Rightarrow> bool" where
  "disk_law files api \<longleftrightarrow>
     (\<forall>m w w1. fo_dump api m w = (Inr (), w1) \<longrightarrow> fo_found api w1 \<and> fo_load api w1 = (Inr m, w1)) \<and>
     (\<forall>w. snd (gf_network files w) = w) \<and> (\<forall>w. snd (gf_threshold files w) = w) \<and> (\<forall>w. snd (gf_stats files w) = w) \<and>
     (\<forall>X f x k. fo_fit api X = Inr f \<longrightarrow> (\<forall>r \<in> set X. length r = k) \<longrightarrow> length x = k \<longrightarrow> (\<exists>d. fo_decide api f x = Inr d))"

lemma or_missing_keeps:
  assumes "\<And>w. snd (p w) = w"
  shows "snd (or_missing p w) = w"
proof -
  obtain r w1 where p: "p w = (r, w1)" by fastforce
  with assms [of w] have "w1 = w" by simp
  with p show ?thesis by (cases r) (simp_all add: or_missing_def prog_defs)
qed

lemma or_missing_found: "p w = (Inr x, w1) \<Longrightarrow> or_missing p w = (Inr (Some x), w1)"
  by (simp add: or_missing_def prog_defs)

lemma bnd_Inr: "bnd m f w = (Inr y, w2) \<longleftrightarrow> (\<exists>x w1. m w = (Inr x, w1) \<and> f x w1 = (Inr y, w2))"
  by (auto simp: bnd_def split: prod.splits sum.splits)

lemma trained_set_rows: "r \<in> set (forest_training_set np k services) \<Longrightarrow> length r = 7"
  by (auto simp: forest_training_set_def extract_features_def Let_def)

lemma features_length: "length (extract_features np rows) = 7"
  by (simp add: extract_features_def Let_def)

lemma train_iforest_saved:
  assumes "train_iforest api np services w = (Inr (), w1)"
  obtains f where "fo_fit api (forest_training_set np iforest_window services) = Inr f" "fo_dump api (Some f) w = (Inr (), w1)"
  using assms by (auto simp: train_iforest_def forest_train_def forest_save_def split: sum.splits)

lemma gateway_start_after_training:
  assumes law: "disk_law files api" and trained: "train_iforest api np services w = (Inr (), w1)"
    and started: "gateway_start files api np w1 = (Inr env, w2)"
  obtains f where "ge_forest env = Some (fo_decide api f)" "ge_np env = np"
    "fo_fit api (forest_training_set np iforest_window services) = Inr f"
proof -
  obtain f where f: "fo_fit api (forest_training_set np iforest_window services) = Inr f" "fo_dump api (Some f) w = (Inr (), w1)"
    by (rule train_iforest_saved [OF trained])
  with law have found: "fo_found api w1" "fo_load api w1 = (Inr (Some f), w1)" unfolding disk_law_def by blast+
  have keep: "snd (gf_network files v) = v" "snd (gf_threshold files v) = v" "snd (gf_stats files v) = v" for v
    using law unfolding disk_law_def by blast+
  from started obtain net threshold stats forest wa wb wc where
    run: "or_missing (gf_network files) w1 = (Inr net, wa)" "or_missing (gf_threshold files) wa = (Inr threshold, wb)"
      "or_missing (gf_stats files) wb = (Inr stats, wc)" "or_missing (forest_load api) wc = (Inr forest, w2)"
    and env: "env = gateway_of_files net threshold stats (map_option (forest_decision api) forest) np"
    by (auto simp: gateway_start_def bnd_Inr ret_def)
  have "wa = w1" "wb = wa" "wc = wb"
    using run or_missing_keeps [of "gf_network files" w1] or_missing_keeps [of "gf_threshold files" wa]
      or_missing_keeps [of "gf_stats files" wb] keep by simp_all
  then have "wc = w1" by simp
  moreover have "or_missing (forest_load api) w1 = (Inr (Some (Some f)), w1)"
    using found by (intro or_missing_found) (simp add: forest_load_def)
  ultimately have "forest = Some (Some f)" using run(4) by simp
  then have "ge_forest env = Some (fo_decide api f)" "ge_np env = np"
    by (simp_all add: env gateway_of_files_def forest_decision_def fun_eq_iff)
  with f(1) show thesis by (intro that)
qed

text \<open>
  C26. After the forest was trained no request goes without a verdict: a gateway started from the disk answers every
  request that carries a reading, from the first one of a service on and whatever the other files hold, by the transformer
  or the forest, and while the window fills by the forest, with a score between 0 and 1 that is above 0.7 exactly for an
  anomaly.
\<close>

theorem trained_forest_covers_warmup:
  assumes "disk_law files api" and "train_iforest api np services w = (Inr (), w1)"
    and "gateway_start files api np w1 = (Inr env, w2)" and "transformer_features \<le> length f"
  shows "(let j = fst (infer env clock sid f s)
          in inf_model j \<noteq> NoModel \<and>
             (Suc (length (get_buffer sid s)) < transformer_len \<longrightarrow>
                inf_model j = Isolation_Forest \<and> 0 < inf_score j \<and> inf_score j < 1 \<and>
                (inf_anomaly j \<longleftrightarrow> 7 / 10 < inf_score j)))"
proof -
  obtain m where env: "ge_forest env = Some (fo_decide api m)" "ge_np env = np"
    and fit: "fo_fit api (forest_training_set np iforest_window services) = Inr m"
    by (rule gateway_start_after_training [OF assms(1-3)])
  let ?buf = "get_buffer sid (add_reading sid f s)"
  have "\<forall>r \<in> set (forest_training_set np iforest_window services). length r = 7" using trained_set_rows by blast
  then have "\<exists>d. fo_decide api m (extract_features np (buffer_to_rows ?buf)) = Inr d"
    using assms(1) fit features_length unfolding disk_law_def by blast
  then obtain d where d: "fo_decide api m (extract_features np (buffer_to_rows ?buf)) = Inr d" ..
  define x where "x = 1 / (1 + exp (- (- d) * 5))"
  have predict: "forest_predict (Some (fo_decide api m)) (extract_features np (buffer_to_rows ?buf)) = Inr x"
    using d by (simp add: forest_predict_def x_def)
  note range = forest_score_range [OF this]
  have buf: "?buf \<noteq> []" "length ?buf = min transformer_len (Suc (length (get_buffer sid s)))"
    using assms(4) by (auto simp: deque_append_def take_last_def transformer_len_def)
  obtain j1 s2 where j1: "judge_transformer env sid ?buf (add_reading sid f s) = (j1, s2)" by fastforce
  have j: "inf_model (fst (infer env clock sid f s)) = ju_model (judge_forest env ?buf j1)"
    "inf_score (fst (infer env clock sid f s)) = ju_score (judge_forest env ?buf j1)"
    "inf_anomaly (fst (infer env clock sid f s)) = ju_anomaly (judge_forest env ?buf j1)"
    by (simp_all add: infer_def Let_def j1 del: get_buffer_add)
  have forest: "judge_forest env ?buf j1 =
      (if ju_model j1 = NoModel then j1\<lparr>ju_score := x, ju_model := Isolation_Forest, ju_anomaly := (7 / 10 < x)\<rparr> else j1)"
    using buf(1) predict by (simp add: judge_forest_def env del: get_buffer_add)
  have "ju_model j1 = NoModel" if "Suc (length (get_buffer sid s)) < transformer_len"
    using j1 buf(2) that
    by (auto simp: judge_transformer_def no_judgement_def split: option.splits simp del: get_buffer_add)
  then show ?thesis unfolding Let_def j forest using range by auto
qed


definition ex_forest :: "(unit, unit option option) forest_api" where
  "ex_forest =
     \<lparr>fo_fit = (\<lambda>X. Inr ()), fo_decide = (\<lambda>f x. Inr (- 1)), fo_dump = (\<lambda>m w. (Inr (), Some m)), fo_found = (\<lambda>w. w \<noteq> None),
      fo_load = (\<lambda>w. case w of None \<Rightarrow> (Inl file_not_found, w) | Some m \<Rightarrow> (Inr m, w))\<rparr>"

definition ex_no_files :: "unit option option gateway_files" where
  "ex_no_files = \<lparr>gf_network = raise file_not_found, gf_threshold = raise file_not_found, gf_stats = raise file_not_found\<rparr>"

lemma ex_disk_law: "disk_law ex_no_files ex_forest"
  by (auto simp: disk_law_def ex_forest_def ex_no_files_def raise_def)

theorem trained_forest_covers_warmup_witness:
  "\<exists>env w2. gateway_start ex_no_files ex_forest ex_np (Some (Some ())) = (Inr env, w2) \<and>
     inf_model (fst (infer env (0, 1) ''a'' [1, 2, 0, 3] new_gateway)) = Isolation_Forest"
proof -
  have trained: "train_iforest ex_forest ex_np [] None = (Inr (), Some (Some ()))"
    by (simp add: train_iforest_def forest_train_def forest_save_def ex_forest_def)
  have start: "gateway_start ex_no_files ex_forest ex_np (Some (Some ())) =
      (Inr (gateway_of_files None None None (Some (forest_decision ex_forest (Some ()))) ex_np), Some (Some ()))"
    by (simp add: gateway_start_def or_missing_def forest_load_def prog_defs ex_forest_def ex_no_files_def)
  have "transformer_features \<le> length [1, 2, 0, 3 :: real]" by (simp add: transformer_features_def)
  from trained_forest_covers_warmup [OF ex_disk_law trained start this, of "(0, 1)" "''a''" new_gateway] start
  show ?thesis by (simp add: Let_def get_buffer_def new_gateway_def transformer_len_def)
qed

subsection \<open>Persistence settings compared\<close>

text \<open>
  \<open>compute_eval_errors\<close>: the error and the label of every window, service by service; \<open>err\<close> is the loaded network
  on one window, \<open>st\<close> the loaded statistics.
\<close>

definition eval_traces ::
  "(net_window \<Rightarrow> real) \<Rightarrow> real list \<times> real list \<Rightarrow> reading list list \<Rightarrow> bool list list \<Rightarrow> (real \<times> bool) list list" where
  "eval_traces err st services masks =
     map (\<lambda>(d, m).
       map (\<lambda>i. (err (take transformer_len (drop i d)), list_ex id (take transformer_len (drop i m)))) [0..<length d - transformer_len])
       (zip (normalize_services st services) masks)"

fun debounced_checks :: "debouncer \<Rightarrow> real list \<Rightarrow> bool list" where
  "debounced_checks d [] = []"
| "debounced_checks d (e # es) = (let (b, d1) = db_check e d in b # debounced_checks d1 es)"

text \<open>scikit-learn's scores, and its confusion matrix read row by row.\<close>

record metrics_api =
  me_scores :: "bool list \<Rightarrow> bool list \<Rightarrow> exn + real \<times> real \<times> real"
  me_confusion :: "bool list \<Rightarrow> bool list \<Rightarrow> nat list"

record summary =
  su_tp :: nat
  su_fp :: nat
  su_fn :: nat
  su_tn :: nat
  su_scores :: "real \<times> real \<times> real"

text \<open>\<open>summarize\<close>: unpacking anything but four counts raises.\<close>

definition summarize :: "metrics_api \<Rightarrow> bool list \<Rightarrow> bool list \<Rightarrow> exn + summary" where
  "summarize me truth predicted =
     rbind (me_scores me truth predicted) (\<lambda>sc.
       case me_confusion me truth predicted of
         [tn, fp, fn, tp] \<Rightarrow> Inr \<lparr>su_tp = tp, su_fp = fp, su_fn = fn, su_tn = tn, su_scores = sc\<rparr>
       | _ \<Rightarrow> Inl ValueError)"

definition truths :: "(real \<times> bool) list list \<Rightarrow> bool list" where
  "truths traces = concat (map (map snd) traces)"

definition raw_predictions :: "real \<Rightarrow> (real \<times> bool) list list \<Rightarrow> bool list" where
  "raw_predictions threshold traces = concat (map (map (\<lambda>(e, _). threshold < e)) traces)"

definition debounced_predictions :: "real \<Rightarrow> nat \<Rightarrow> (real \<times> bool) list list \<Rightarrow> bool list" where
  "debounced_predictions threshold k traces =
     concat (map (\<lambda>tr. debounced_checks (new_debouncer threshold k) (map fst tr)) traces)"

definition evaluate_persistence ::
  "metrics_api \<Rightarrow> (real \<times> bool) list list \<Rightarrow> real \<Rightarrow> nat \<Rightarrow> exn + summary \<times> summary" where
  "evaluate_persistence me traces threshold k =
     rbind (summarize me (truths traces) (raw_predictions threshold traces)) (\<lambda>raw.
     rbind (summarize me (truths traces) (debounced_predictions threshold k traces)) (\<lambda>deb. Inr (raw, deb)))"

text \<open>\<open>sweep\<close>: a row for each setting and the raw result of the last; without a setting there is nothing to unpack.\<close>

fun sweep_rows ::
  "metrics_api \<Rightarrow> (real \<times> bool) list list \<Rightarrow> real \<Rightarrow> nat list \<Rightarrow> exn + (nat \<times> summary) list \<times> summary option" where
  "sweep_rows me traces threshold [] = Inr ([], None)"
| "sweep_rows me traces threshold (k # ks) =
     rbind (evaluate_persistence me traces threshold k) (\<lambda>(raw, deb).
     rbind (sweep_rows me traces threshold ks) (\<lambda>(rows, last_raw).
       Inr ((k, deb) # rows, Some (case last_raw of None \<Rightarrow> raw | Some r \<Rightarrow> r))))"

definition sweep :: "metrics_api \<Rightarrow> (real \<times> bool) list list \<Rightarrow> real \<Rightarrow> nat list \<Rightarrow> exn + (nat \<times> summary) list \<times> summary" where
  "sweep me traces threshold ks =
     rbind (sweep_rows me traces threshold ks) (\<lambda>(rows, raw).
       case raw of None \<Rightarrow> Inl TypeError | Some r \<Rightarrow> Inr (rows, r))"

text \<open>
  What scikit-learn documents: with both labels present the four counts, otherwise a smaller matrix (\<open>ravel\<close> of a one by one).
\<close>

definition count_pairs :: "bool \<Rightarrow> bool \<Rightarrow> bool list \<Rightarrow> bool list \<Rightarrow> nat" where
  "count_pairs t p truth predicted = length (filter (\<lambda>x. x = (t, p)) (zip truth predicted))"

definition confusion_law :: "metrics_api \<Rightarrow> bool" where
  "confusion_law me \<longleftrightarrow>
     (\<forall>truth predicted. length truth = length predicted \<longrightarrow>
        me_confusion me truth predicted =
          (if {True, False} \<subseteq> set truth \<union> set predicted
           then [count_pairs False False truth predicted, count_pairs False True truth predicted,
                 count_pairs True False truth predicted, count_pairs True True truth predicted]
           else [length truth]))"

lemma count_pairs_simps [simp]:
  "count_pairs t p [] ps = 0" "count_pairs t p ys [] = 0"
  "count_pairs t p (y # ys) (q # ps) = (if (y, q) = (t, p) then Suc (count_pairs t p ys ps) else count_pairs t p ys ps)"
  by (simp_all add: count_pairs_def)

lemma count_pairs_mono:
  assumes "list_all2 (\<longrightarrow>) ps qs" and "length ys = length ps"
  shows "count_pairs t True ys ps \<le> count_pairs t True ys qs"
proof -
  have "length ps = length qs" using assms(1) by (rule list_all2_lengthD)
  with assms(2) show ?thesis using assms(1) by (induction ys ps qs rule: list_induct3) (auto simp: le_SucI)
qed

lemma count_pairs_total:
  "length ys = length ps \<Longrightarrow>
     count_pairs t True ys ps + count_pairs t False ys ps = length (filter (\<lambda>y. y = t) ys)"
  by (induction ys ps rule: list_induct2) auto

lemma summarize_counts:
  assumes "confusion_law me" and "length truth = length predicted" and "summarize me truth predicted = Inr s"
  shows "su_tp s = count_pairs True True truth predicted" "su_fp s = count_pairs False True truth predicted"
    "su_fn s = count_pairs True False truth predicted" "su_tn s = count_pairs False False truth predicted"
  using assms by (auto simp: summarize_def confusion_law_def rbind_def split: sum.splits if_splits)


text \<open>Each check of a trace, by the errors up to it.\<close>

definition persistent :: "nat \<Rightarrow> real \<Rightarrow> real list \<Rightarrow> bool" where
  "persistent k threshold es \<longleftrightarrow> k \<le> length es \<and> (\<forall>x \<in> set (take_last k es). threshold < x)"

lemma debounced_checks_from:
  assumes "0 < k"
  shows "debounced_checks (fold (\<lambda>e d. snd (db_check e d)) pre (new_debouncer threshold k)) es =
    map (\<lambda>i. persistent k threshold (pre @ take (Suc i) es)) [0..<length es]"
proof (induction es arbitrary: pre)
  case (Cons e es)
  let ?d = "fold (\<lambda>e d. snd (db_check e d)) pre (new_debouncer threshold k)"
  have "debounced_checks ?d (e # es) = fst (db_check e ?d) # debounced_checks (snd (db_check e ?d)) es"
    by (simp add: case_prod_unfold Let_def)
  also have "debounced_checks (snd (db_check e ?d)) es =
      map (\<lambda>i. persistent k threshold ((pre @ [e]) @ take (Suc i) es)) [0..<length es]"
    using Cons.IH [of "pre @ [e]"] by simp
  also have "fst (db_check e ?d) = persistent k threshold (pre @ [e])"
    using debounced_verdict [OF assms, of e pre threshold] by (simp add: persistent_def)
  finally show ?case by (simp add: upt_conv_Cons map_Suc_upt [symmetric] comp_def del: upt_Suc)
qed simp

lemma debounced_checks_new:
  assumes "0 < k"
  shows "debounced_checks (new_debouncer threshold k) es = map (\<lambda>i. persistent k threshold (take (Suc i) es)) [0..<length es]"
  using debounced_checks_from [OF assms, of "[]"] by simp

lemma take_last_fewer: "j \<le> k \<Longrightarrow> set (take_last j xs) \<subseteq> set (take_last k xs)"
  by (simp add: take_last_def set_drop_subset_set_drop)

lemma persistent_antimono: "j \<le> k \<Longrightarrow> persistent k threshold es \<Longrightarrow> persistent j threshold es"
  using take_last_fewer [of j k es] by (auto simp: persistent_def)

lemma persistent_last:
  assumes "0 < k" and "persistent k threshold es"
  shows "threshold < last es"
proof -
  have "persistent 1 threshold es" using assms by (intro persistent_antimono [of 1 k]) simp_all
  moreover have "take_last 1 es = [last es]" if "es \<noteq> []" using that by (cases es rule: rev_cases) (simp_all add: take_last_def)
  ultimately show ?thesis by (cases "es = []") (auto simp: persistent_def)
qed

lemma all2_concat: "list_all2 (list_all2 P) xss yss \<Longrightarrow> list_all2 P (concat xss) (concat yss)"
  by (induction rule: list_all2_induct) (simp_all add: list_all2_appendI)

lemma debounced_implies:
  assumes "0 < j" and "j \<le> k"
  shows "list_all2 (\<longrightarrow>) (debounced_predictions threshold k traces) (debounced_predictions threshold j traces)"
    and "list_all2 (\<longrightarrow>) (debounced_predictions threshold k traces) (raw_predictions threshold traces)"
proof -
  have "list_all2 (\<longrightarrow>) (debounced_checks (new_debouncer threshold k) es) (debounced_checks (new_debouncer threshold j) es)" for es
    using assms by (auto simp: debounced_checks_new list_all2_conv_all_nth intro: persistent_antimono)
  then show "list_all2 (\<longrightarrow>) (debounced_predictions threshold k traces) (debounced_predictions threshold j traces)"
    by (simp add: debounced_predictions_def all2_concat list.rel_map list.rel_refl)
  have "list_all2 (\<longrightarrow>) (debounced_checks (new_debouncer threshold k) (map fst tr)) (map (\<lambda>(e, _). threshold < e) tr)" for tr :: "(real \<times> bool) list"
    using assms persistent_last [of k threshold]
    by (fastforce simp: debounced_checks_new list_all2_conv_all_nth take_Suc_conv_app_nth case_prod_unfold)
  then show "list_all2 (\<longrightarrow>) (debounced_predictions threshold k traces) (raw_predictions threshold traces)"
    by (simp add: debounced_predictions_def raw_predictions_def all2_concat list.rel_map list.rel_refl)
qed


lemma prediction_lengths:
  assumes "0 < k"
  shows "length (debounced_predictions threshold k traces) = length (truths traces)"
    and "length (raw_predictions threshold traces) = length (truths traces)"
  using assms by (simp_all add: debounced_predictions_def raw_predictions_def truths_def debounced_checks_new length_concat comp_def)

text \<open>What a sweep that ends has: its rows are the summaries of the settings in order.\<close>

lemma sweep_rows_summaries:
  assumes "sweep_rows me traces threshold ks = Inr (rows, raw)"
  shows "map fst rows = ks \<and>
    (\<forall>(k, s) \<in> set rows. k \<in> set ks \<and> summarize me (truths traces) (debounced_predictions threshold k traces) = Inr s) \<and>
    (\<forall>r. raw = Some r \<longrightarrow> summarize me (truths traces) (raw_predictions threshold traces) = Inr r)"
  using assms
proof (induction ks arbitrary: rows raw)
  case (Cons k ks)
  from Cons.prems obtain r deb rows1 raw1 where
    run: "evaluate_persistence me traces threshold k = Inr (r, deb)" "sweep_rows me traces threshold ks = Inr (rows1, raw1)"
    and out: "rows = (k, deb) # rows1" "raw = Some (case raw1 of None \<Rightarrow> r | Some x \<Rightarrow> x)"
    by (auto simp: rbind_def split: sum.splits prod.splits)
  from run(1) have "summarize me (truths traces) (raw_predictions threshold traces) = Inr r"
    "summarize me (truths traces) (debounced_predictions threshold k traces) = Inr deb"
    by (auto simp: evaluate_persistence_def rbind_def split: sum.splits)
  with Cons.IH [OF run(2)] out show ?case by (cases raw1) auto
qed simp

text \<open>
  C39. A longer persistence never finds more: whatever the network's errors and the labels, in a sweep that ends each
  setting has at most the true and at most the false alarms of every smaller setting and of the undebounced network; the windows
  it is judged on are the same, so what it no longer reports of the anomalies it misses. The settings are reported in
  the order given.
\<close>

theorem sweep_monotone:
  assumes "confusion_law me" and "sweep me traces threshold ks = Inr (rows, raw)" and "0 \<notin> set ks"
  shows "map fst rows = ks \<and>
     (\<forall>(k, s) \<in> set rows. su_tp s \<le> su_tp raw \<and> su_fp s \<le> su_fp raw \<and>
        su_tp s + su_fn s = length (filter id (truths traces)) \<and>
        su_fp s + su_tn s = length (filter Not (truths traces))) \<and>
     (\<forall>(j, s) \<in> set rows. \<forall>(k, t) \<in> set rows. j \<le> k \<longrightarrow> su_tp t \<le> su_tp s \<and> su_fp t \<le> su_fp s)"
proof -
  from assms(2) have run: "sweep_rows me traces threshold ks = Inr (rows, Some raw)"
    by (auto simp: sweep_def rbind_def split: sum.splits option.splits)
  note found = sweep_rows_summaries [OF run]
  let ?ys = "truths traces" and ?deb = "\<lambda>k. debounced_predictions threshold k traces"
  have pos: "0 < k" if "(k, s) \<in> set rows" for k s using found that assms(3) by (cases k) auto
  have deb: "su_tp s = count_pairs True True ?ys (?deb k)" "su_fp s = count_pairs False True ?ys (?deb k)"
    "su_fn s = count_pairs True False ?ys (?deb k)" "su_tn s = count_pairs False False ?ys (?deb k)" if "(k, s) \<in> set rows" for k s
    using summarize_counts [OF assms(1) prediction_lengths(1) [OF pos [OF that], symmetric], where s = s] found that by auto
  have raw: "su_tp raw = count_pairs True True ?ys (raw_predictions threshold traces)"
    "su_fp raw = count_pairs False True ?ys (raw_predictions threshold traces)"
    using summarize_counts [OF assms(1) prediction_lengths(2) [of 1, symmetric], where s = raw] found by auto
  have most: "count_pairs b True ?ys (?deb k) \<le> count_pairs b True ?ys (raw_predictions threshold traces)" if "0 < k" for b k
    using debounced_implies(2) [OF that order_refl] that by (intro count_pairs_mono) (simp_all add: prediction_lengths)
  have fewer: "count_pairs b True ?ys (?deb k) \<le> count_pairs b True ?ys (?deb j)" if "0 < j" "j \<le> k" for b j k
    using debounced_implies(1) [OF that] that by (intro count_pairs_mono) (simp_all add: prediction_lengths)
  have total: "count_pairs b True ?ys (?deb k) + count_pairs b False ?ys (?deb k) = length (filter (\<lambda>y. y = b) ?ys)" if "0 < k" for b k
    using prediction_lengths(1) [OF that] by (intro count_pairs_total) simp
  have filters: "filter (\<lambda>y. y = True) ?ys = filter id ?ys" "filter (\<lambda>y. y = False) ?ys = filter Not ?ys"
    by (rule filter_cong; simp)+
  show ?thesis
    using conjunct1 [OF found] deb raw pos most fewer total [of _ True] total [of _ False] filters by (auto simp: case_prod_unfold)
qed


definition ex_metrics :: metrics_api where
  "ex_metrics =
     \<lparr>me_scores = (\<lambda>ys ps. Inr (0, 0, 0)),
      me_confusion = (\<lambda>ys ps. if {True, False} \<subseteq> set ys \<union> set ps
        then [count_pairs False False ys ps, count_pairs False True ys ps, count_pairs True False ys ps, count_pairs True True ys ps]
        else [length ys])\<rparr>"

theorem sweep_monotone_witness:
  "\<exists>rows raw. sweep ex_metrics [[(5, True), (6, True), (0, False)]] 2 [2, 3] = Inr (rows, raw) \<and>
     map fst rows = [2, 3] \<and> su_tp raw = 2 \<and> map (su_tp \<circ> snd) rows = [1, 0]"
proof -
  let ?run = "sweep ex_metrics [[(5, True), (6, True), (0, False)]] 2 [2, 3]"
  have law: "confusion_law ex_metrics" by (simp add: confusion_law_def ex_metrics_def)
  have "\<exists>rows raw. ?run = Inr (rows, raw) \<and> su_tp raw = 2 \<and> map (su_tp \<circ> snd) rows = [1, 0]"
    by (simp add: sweep_def evaluate_persistence_def summarize_def truths_def raw_predictions_def
        debounced_predictions_def ex_metrics_def db_check_def new_debouncer_def push_flag_def deque_append_def
        take_last_def numeral_2_eq_2 numeral_3_eq_3 Let_def)
  then obtain rows raw where run: "?run = Inr (rows, raw)" "su_tp raw = 2" "map (su_tp \<circ> snd) rows = [1, 0]"
    by (elim exE conjE)
  with sweep_monotone [OF law run(1)] show ?thesis by (intro exI [of _ rows] exI [of _ raw]) simp
qed

subsection \<open>A series through the gateway\<close>

text \<open>
  \<open>run_e2e_test\<close>: one request for each step of a generated series, and what is counted: the model used, the first tick
  the transformer answers, the alerts, and the answers against the label of the window that ends with the step.
\<close>

record e2e =
  ee_gateway :: gateway
  ee_counts :: "model_name \<Rightarrow> nat"
  ee_first :: "nat option"
  ee_alerts :: "(nat \<times> bool \<times> real \<times> model_name) list"
  ee_tp :: nat
  ee_fp :: nat
  ee_fn :: nat
  ee_tn :: nat

definition e2e_start :: e2e where
  "e2e_start =
     \<lparr>ee_gateway = new_gateway, ee_counts = (\<lambda>_. 0), ee_first = None, ee_alerts = [], ee_tp = 0, ee_fp = 0, ee_fn = 0, ee_tn = 0\<rparr>"

definition e2e_service :: string where
  "e2e_service = ''e2e-test-service''"

definition window_truth :: "bool list \<Rightarrow> nat \<Rightarrow> bool" where
  "window_truth marks i = list_ex id (drop (Suc i - transformer_len) (take (Suc i) marks))"

definition e2e_tick ::
  "gateway_env \<Rightarrow> (nat \<Rightarrow> real \<times> real) \<Rightarrow> reading list \<Rightarrow> bool list \<Rightarrow> nat \<Rightarrow> e2e \<Rightarrow> e2e" where
  "e2e_tick env clock data marks i s =
     (let (r, g) = infer env (clock i) e2e_service (reading_row (data ! i)) (ee_gateway s);
          m = inf_model r; bad = inf_anomaly r; truth = window_truth marks i
      in s\<lparr>ee_gateway := g,
           ee_counts := (ee_counts s)(m := Suc (ee_counts s m)),
           ee_first := (if m = Transformer \<and> ee_first s = None then Some i else ee_first s),
           ee_alerts := (if bad then ee_alerts s @ [(i, truth, inf_error r, m)] else ee_alerts s),
           ee_tp := ee_tp s + of_bool (truth \<and> bad), ee_fn := ee_fn s + of_bool (truth \<and> \<not> bad),
           ee_fp := ee_fp s + of_bool (\<not> truth \<and> bad), ee_tn := ee_tn s + of_bool (\<not> truth \<and> \<not> bad)\<rparr>)"

text \<open>The test is aborted without a transformer; a missing forest is only a warning.\<close>

definition run_e2e ::
  "gateway_env \<Rightarrow> (nat \<Rightarrow> real \<times> real) \<Rightarrow> reading list \<Rightarrow> bool list \<Rightarrow> nat \<Rightarrow> e2e option" where
  "run_e2e env clock data marks n =
     (if ge_transformer env = None then None else Some (fold (e2e_tick env clock data marks) [0..<n] e2e_start))"

subsection \<open>What the series run counts\<close>

text \<open>Every step counts once.\<close>

interpretation e2e_meter: metered_system "e2e_tick env clock data marks" "\<lambda>_. True"
  "\<lambda>s. ee_tp s + ee_fp s + ee_fn s + ee_tn s" for env clock data marks
  by unfold_locales (simp_all add: e2e_tick_def Let_def case_prod_unfold of_bool_def)

text \<open>The requests of the first \<open>n\<close> steps, and the windows the gateway has then seen.\<close>

definition e2e_requests :: "(nat \<Rightarrow> real \<times> real) \<Rightarrow> reading list \<Rightarrow> nat \<Rightarrow> ((real \<times> real) \<times> string \<times> real list) list" where
  "e2e_requests clock data n = map (\<lambda>i. (clock i, e2e_service, reading_row (data ! i))) [0..<n]"

lemma reading_row_length [simp]: "length (reading_row x) = 4"
  by (cases x) simp

lemma e2e_full: "full_readings e2e_service (e2e_requests clock data n)"
  by (simp add: full_readings_def e2e_requests_def list_all_iff transformer_features_def)

lemma e2e_readings: "n \<le> length data \<Longrightarrow> readings_of e2e_service (e2e_requests clock data n) = take n (map reading_row data)"
  by (simp add: readings_of_def e2e_requests_def filter_map comp_def transformer_features_def take_map list_eq_iff_nth_eq)


text \<open>One request of the run: who answers and what.\<close>

lemma e2e_answer:
  assumes works: "transformer_works env err" and i: "i < length data" and rows: "rows = map reading_row data"
    and g: "g = infer_run env (e2e_requests clock data i) new_gateway"
  shows "inf_model (fst (infer env (clock i) e2e_service (reading_row (data ! i)) g)) = Transformer \<longleftrightarrow> transformer_len \<le> Suc i"
    and "transformer_len \<le> Suc i \<Longrightarrow>
      inf_anomaly (fst (infer env (clock i) e2e_service (reading_row (data ! i)) g)) \<longleftrightarrow>
        transformer_len \<le> i \<and> ge_threshold env < err (window_of env (take i rows)) \<and>
        ge_threshold env < err (window_of env (take (Suc i) rows))"
proof -
  have len: "transformer_features \<le> length (reading_row (data ! i))" by (simp add: transformer_features_def)
  have read: "readings_of e2e_service (e2e_requests clock data i) = take i rows"
    using i by (simp add: e2e_readings rows)
  have row: "take transformer_features (reading_row (data ! i)) = rows ! i"
    using i by (simp add: rows transformer_features_def)
  have length_rows: "length rows = length data" by (simp add: rows)
  have next_rows: "take i rows @ [rows ! i] = take (Suc i) rows" using i by (simp add: rows take_Suc_conv_app_nth)
  have buf: "length (get_buffer e2e_service g) = min transformer_len i"
    using infer_run_state [OF works e2e_full, of clock data i] i by (simp add: g read rows min.commute)
  have full: "inf_model (fst (infer env (clock i) e2e_service (reading_row (data ! i)) g)) = Transformer \<and>
      (inf_anomaly (fst (infer env (clock i) e2e_service (reading_row (data ! i)) g)) \<longleftrightarrow>
        transformer_len \<le> i \<and> ge_threshold env < err (window_of env (take i rows)) \<and>
        ge_threshold env < err (window_of env (take (Suc i) rows)))" if "transformer_len \<le> Suc i"
    using transformer_decides [OF works e2e_full len read [symmetric] row [symmetric], of "clock i"] that i
    by (simp add: Let_def g next_rows length_rows)
  have warm: "inf_model (fst (infer env (clock i) e2e_service (reading_row (data ! i)) g)) \<noteq> Transformer" if "Suc i < transformer_len"
    using that buf by (intro infer_warming) (simp add: deque_append_def transformer_features_def)
  show "inf_model (fst (infer env (clock i) e2e_service (reading_row (data ! i)) g)) = Transformer \<longleftrightarrow> transformer_len \<le> Suc i"
    using full warm by (cases "transformer_len \<le> Suc i") auto
  show "transformer_len \<le> Suc i \<Longrightarrow> inf_anomaly (fst (infer env (clock i) e2e_service (reading_row (data ! i)) g)) \<longleftrightarrow>
        transformer_len \<le> i \<and> ge_threshold env < err (window_of env (take i rows)) \<and>
        ge_threshold env < err (window_of env (take (Suc i) rows))" using full by blast
qed

definition alerts_explained :: "gateway_env \<Rightarrow> (net_window \<Rightarrow> real) \<Rightarrow> real list list \<Rightarrow> (nat \<times> bool \<times> real \<times> model_name) list \<Rightarrow> bool" where
  "alerts_explained env err rows alerts \<longleftrightarrow>
     (\<forall>(i, truth, e, m) \<in> set alerts. m = Transformer \<longrightarrow>
        transformer_len \<le> i \<and> ge_threshold env < err (window_of env (take i rows)) \<and>
        ge_threshold env < err (window_of env (take (Suc i) rows)))"

lemma e2e_run_state:
  assumes works: "transformer_works env err" and n: "n \<le> length data"
    and s: "s = fold (e2e_tick env clock data marks) [0..<n] e2e_start"
  shows "ee_gateway s = infer_run env (e2e_requests clock data n) new_gateway \<and>
    ee_first s = (if transformer_len \<le> n then Some (transformer_len - 1) else None) \<and>
    ee_counts s Transformer = n - (transformer_len - 1) \<and>
    ee_tp s + ee_fp s + ee_fn s + ee_tn s = n \<and> ee_tp s + ee_fp s = length (ee_alerts s) \<and>
    alerts_explained env err (map reading_row data) (ee_alerts s)"
  using n s
proof (induction n arbitrary: s)
  case 0
  then show ?case by (simp add: e2e_start_def e2e_requests_def infer_run_def transformer_len_def alerts_explained_def)
next
  case (Suc n)
  define t where "t = fold (e2e_tick env clock data marks) [0..<n] e2e_start"
  have IH: "ee_gateway t = infer_run env (e2e_requests clock data n) new_gateway"
    "ee_first t = (if transformer_len \<le> n then Some (transformer_len - 1) else None)"
    "ee_counts t Transformer = n - (transformer_len - 1)"
    "ee_tp t + ee_fp t = length (ee_alerts t)"
    "alerts_explained env err (map reading_row data) (ee_alerts t)"
    using Suc.IH [OF _ t_def] Suc.prems(1) by simp_all
  obtain r g where r: "infer env (clock n) e2e_service (reading_row (data ! n)) (ee_gateway t) = (r, g)" by fastforce
  have "n < length data" using Suc.prems(1) by simp
  note answer = e2e_answer [OF works this refl IH(1), unfolded r fst_conv]
  have g: "g = infer_run env (e2e_requests clock data (Suc n)) new_gateway"
    using r by (simp add: IH(1) e2e_requests_def infer_run_def)
  have "s = e2e_tick env clock data marks n t" using Suc.prems(2) by (simp add: t_def)
  then have s: "s = t\<lparr>ee_gateway := g,
      ee_counts := (ee_counts t)(inf_model r := Suc (ee_counts t (inf_model r))),
      ee_first := (if inf_model r = Transformer \<and> ee_first t = None then Some n else ee_first t),
      ee_alerts := (if inf_anomaly r then ee_alerts t @ [(n, window_truth marks n, inf_error r, inf_model r)] else ee_alerts t),
      ee_tp := ee_tp t + of_bool (window_truth marks n \<and> inf_anomaly r), ee_fn := ee_fn t + of_bool (window_truth marks n \<and> \<not> inf_anomaly r),
      ee_fp := ee_fp t + of_bool (\<not> window_truth marks n \<and> inf_anomaly r), ee_tn := ee_tn t + of_bool (\<not> window_truth marks n \<and> \<not> inf_anomaly r)\<rparr>"
    by (simp add: e2e_tick_def r Let_def)
  have pos: "0 < transformer_len" by (simp add: transformer_len_def)
  show ?case
  proof (intro conjI)
    show "ee_gateway s = infer_run env (e2e_requests clock data (Suc n)) new_gateway" by (simp add: s g)
    show "ee_first s = (if transformer_len \<le> Suc n then Some (transformer_len - 1) else None)"
      using answer(1) pos IH(2) by (auto simp: s)
    show "ee_counts s Transformer = Suc n - (transformer_len - 1)"
      using answer(1) pos IH(3) by (cases "inf_model r = Transformer") (simp_all add: s)
    show "ee_tp s + ee_fp s + ee_fn s + ee_tn s = Suc n"
      unfolding Suc.prems(2) by (subst e2e_meter.run_total) (simp_all add: e2e_start_def)
    show "ee_tp s + ee_fp s = length (ee_alerts s)"
      using IH(4) by (cases "inf_anomaly r"; cases "window_truth marks n") (simp_all add: s)
    show "alerts_explained env err (map reading_row data) (ee_alerts s)"
    proof (cases "inf_anomaly r")
      case False
      with IH(5) show ?thesis by (simp add: s)
    next
      case True
      with answer(1,2) have "inf_model r = Transformer \<longrightarrow> transformer_len \<le> n \<and>
          ge_threshold env < err (window_of env (take n (map reading_row data))) \<and>
          ge_threshold env < err (window_of env (take (Suc n) (map reading_row data)))" by blast
      with IH(5) True show ?thesis by (simp only: alerts_explained_def s) simp
    qed
  qed
qed

text \<open>
  The end-to-end test sees what it expects: with a working network the transformer answers first at step 59, the one
  the script announces, and every later step; every step is counted once against its label, the alerts are the true and
  the false positives together, and each alert of the transformer is one of two consecutive windows above the threshold.
\<close>

theorem e2e_as_expected:
  assumes "transformer_works env err" and "n \<le> length data" and "run_e2e env clock data marks n = Some s"
  shows "ee_first s = (if transformer_len \<le> n then Some (transformer_len - 1) else None) \<and>
         ee_counts s Transformer = n - (transformer_len - 1) \<and>
         ee_tp s + ee_fp s + ee_fn s + ee_tn s = n \<and> ee_tp s + ee_fp s = length (ee_alerts s) \<and>
         alerts_explained env err (map reading_row data) (ee_alerts s)"
proof -
  have "s = fold (e2e_tick env clock data marks) [0..<n] e2e_start"
    using assms(3) by (simp add: run_e2e_def split: if_splits)
  from e2e_run_state [OF assms(1,2) this] show ?thesis by blast
qed

theorem e2e_as_expected_witness:
  "\<exists>s. run_e2e ex_gateway (\<lambda>i. (0, 1)) (replicate 61 (1, 2, 0, 3)) (replicate 61 False) 61 = Some s \<and>
     ee_first s = Some 59 \<and> ee_counts s Transformer = 2"
proof -
  have "ge_transformer ex_gateway \<noteq> None" using ex_gateway_works by (auto simp: transformer_works_def)
  then obtain s where s: "run_e2e ex_gateway (\<lambda>i. (0, 1)) (replicate 61 (1, 2, 0, 3)) (replicate 61 False) 61 = Some s"
    by (simp add: run_e2e_def)
  have "61 \<le> length (replicate 61 (1, 2, 0, 3 :: real) :: reading list)" by simp
  from e2e_as_expected [OF ex_gateway_works this s] s show ?thesis by (simp add: transformer_len_def)
qed

end
