(* ===== verification/Dashboard_Live.thy ===== *)
theory Dashboard_Live
  imports Dashboard_Hub
begin

section \<open>The websocket handler of the dashboard\<close>

text \<open>
  \<open>live\<close> and \<open>health\<close> of \<open>dashboard_api/main.py\<close> on the hub: one handler for every browser, in one of the phases below
  between two awaits, beside the broadcasts of the feed. A handler is cancelled only when the process ends, which is left out.
\<close>

datatype live_phase = Unseen | Accepting | Replaying | Receiving | Left

record live_app =
  la_hub :: hub
  la_phase :: "nat \<Rightarrow> live_phase"

definition new_live_app :: live_app where
  "new_live_app = \<lparr>la_hub = new_hub, la_phase = (\<lambda>_. Unseen)\<rparr>"

definition in_phase :: "nat \<Rightarrow> live_phase \<Rightarrow> live_app \<Rightarrow> live_app" where
  "in_phase ws p d = d\<lparr>la_phase := (la_phase d)(ws := p)\<rparr>"

definition on_live_hub :: "(hub \<Rightarrow> hub) \<Rightarrow> live_app \<Rightarrow> live_app" where
  "on_live_hub f d = d\<lparr>la_hub := f (la_hub d)\<rparr>"

text \<open>The handler starts: \<open>hub.connect\<close> awaits \<open>accept\<close>, which raises before the browser is registered.\<close>

definition live_open :: "nat \<Rightarrow> live_app \<Rightarrow> live_app" where
  "live_open ws d = (if la_phase d ws = Unseen then in_phase ws Accepting d else d)"

definition live_accept :: "nat \<Rightarrow> bool \<Rightarrow> live_app \<Rightarrow> live_app" where
  "live_accept ws ok d =
     (if la_phase d ws = Accepting
      then if ok then in_phase ws Replaying (on_live_hub (hub_connect ws) d) else in_phase ws Left d
      else d)"

text \<open>One frame of the replay, or its end; \<open>connect\<close> returns normally after a failure too, and the handler goes on to receive.\<close>

definition live_replay :: "nat \<Rightarrow> bool \<Rightarrow> live_app \<Rightarrow> live_app" where
  "live_replay ws ok d =
     (if la_phase d ws = Replaying
      then if hub_replay (la_hub d) ws = [] then in_phase ws Receiving d
           else let e = on_live_hub (hub_replay_step ws ok) d in if ok then e else in_phase ws Receiving e
      else d)"

text \<open>One \<open>receive_text\<close>: a text is ignored; whatever is raised, the \<open>finally\<close> takes the browser off.\<close>

definition live_receive :: "nat \<Rightarrow> exn + string \<Rightarrow> live_app \<Rightarrow> live_app" where
  "live_receive ws r d =
     (if la_phase d ws = Receiving
      then case r of Inr _ \<Rightarrow> d | Inl _ \<Rightarrow> in_phase ws Left (on_live_hub (hub_disconnect ws) d)
      else d)"

text \<open>\<open>/health\<close>; the flag is \<open>app.state.feed.connected\<close>.\<close>

definition health :: "bool \<Rightarrow> live_app \<Rightarrow> pydict" where
  "health up d =
     [(''status'', PStr ''ok''), (''kafka_feed'', PBool up),
      (''ws_clients'', PInt (int (card (hub_clients (la_hub d)))))]"

subsection \<open>Runs\<close>

text \<open>As in \<open>hub_run\<close>: the frames due to each browser and the browsers that left or that a send failed to.\<close>

inductive live_run :: "nat \<Rightarrow> live_app \<Rightarrow> (nat \<Rightarrow> frame list option) \<Rightarrow> nat set \<Rightarrow> bool" for cap where
  start: "live_run cap new_live_app (\<lambda>_. None) {}"
| knock: "live_run cap d due gone \<Longrightarrow> live_run cap (live_open ws d) due gone"
| accept: "live_run cap d due gone \<Longrightarrow> la_phase d ws = Accepting \<Longrightarrow>
     live_run cap (live_accept ws ok d) (if ok then due(ws \<mapsto> hub_recent (la_hub d)) else due) gone"
| replay: "live_run cap d due gone \<Longrightarrow> la_phase d ws = Replaying \<Longrightarrow>
     live_run cap (live_replay ws ok d) due
       (if ok \<or> hub_replay (la_hub d) ws = [] then gone else insert ws gone)"
| receive: "live_run cap d due gone \<Longrightarrow> la_phase d ws = Receiving \<Longrightarrow>
     live_run cap (live_receive ws r d) due (case r of Inr _ \<Rightarrow> gone | Inl _ \<Rightarrow> insert ws gone)"
| broadcast: "live_run cap d due gone \<Longrightarrow> set order = hub_clients (la_hub d) \<Longrightarrow> distinct order \<Longrightarrow>
     live_run cap (on_live_hub (hub_broadcast cap order f) d)
       (\<lambda>ws. if ws \<in> hub_clients (la_hub d) then map_option (\<lambda>fs. fs @ [f]) (due ws) else due ws) gone"
| serve: "live_run cap d due gone \<Longrightarrow> i < length (hub_flights (la_hub d)) \<Longrightarrow>
     hub_flights (la_hub d) ! i = (f, ws # rest, dead) \<Longrightarrow>
     live_run cap (on_live_hub (hub_flight_step i ok) d) due (if ok then gone else insert ws gone)"
| finish: "live_run cap d due gone \<Longrightarrow> i < length (hub_flights (la_hub d)) \<Longrightarrow>
     hub_flights (la_hub d) ! i = (f, [], dead) \<Longrightarrow>
     live_run cap (on_live_hub (hub_flight_step i True) d) due gone"

lemmas live_defs = live_open_def live_accept_def live_replay_def live_receive_def

lemma live_updates [simp]:
  "la_phase (in_phase ws p d) = (la_phase d)(ws := p)" "la_hub (in_phase ws p d) = la_hub d"
  "la_phase (on_live_hub f d) = la_phase d" "la_hub (on_live_hub f d) = f (la_hub d)"
  by (simp_all add: in_phase_def on_live_hub_def)

text \<open>What ties the phase of a browser to the frames due to it and to its registration.\<close>

fun phase_ok :: "live_phase \<Rightarrow> bool \<Rightarrow> bool \<Rightarrow> bool" where
  "phase_ok Unseen known registered \<longleftrightarrow> \<not> known"
| "phase_ok Accepting known registered \<longleftrightarrow> \<not> known"
| "phase_ok Replaying known registered \<longleftrightarrow> known"
| "phase_ok Receiving known registered \<longleftrightarrow> known"
| "phase_ok Left known registered \<longleftrightarrow> \<not> registered"

definition phases_ok :: "(nat \<Rightarrow> live_phase) \<Rightarrow> (nat \<Rightarrow> frame list option) \<Rightarrow> nat set \<Rightarrow> bool" where
  "phases_ok ph due clients \<longleftrightarrow>
     (\<forall>ws. phase_ok (ph ws) (due ws \<noteq> None) (ws \<in> clients)) \<and> finite {ws. ph ws \<noteq> Unseen}"

lemma phases_okD: "phases_ok ph due clients \<Longrightarrow> phase_ok (ph ws) (due ws \<noteq> None) (ws \<in> clients)"
  by (simp add: phases_ok_def)

lemma phase_ok_fewer: "phase_ok p known c \<Longrightarrow> (c' \<Longrightarrow> c) \<Longrightarrow> phase_ok p known c'"
  by (cases p) auto

lemma phases_fewer:
  assumes "phases_ok ph due clients" and "clients' \<subseteq> clients" and "\<And>w. due' w = None \<longleftrightarrow> due w = None"
  shows "phases_ok ph due' clients'"
proof -
  have "phase_ok (ph w) (due' w \<noteq> None) (w \<in> clients')" for w
    using phases_okD [OF assms(1), of w] assms(2) by (auto simp: assms(3) intro: phase_ok_fewer)
  with assms(1) show ?thesis by (simp add: phases_ok_def)
qed

lemma phases_step:
  assumes ok: "phases_ok ph due clients" and new: "phase_ok p (due' ws \<noteq> None) (ws \<in> clients')"
    and due: "\<And>w. w \<noteq> ws \<Longrightarrow> due' w = due w" and fewer: "clients' - {ws} \<subseteq> clients"
  shows "phases_ok (ph(ws := p)) due' clients'"
proof -
  have "finite (insert ws {w. ph w \<noteq> Unseen})" using ok by (simp add: phases_ok_def)
  then have "finite {w. (ph(ws := p)) w \<noteq> Unseen}" by (rule rev_finite_subset) (auto split: if_splits)
  moreover have "phase_ok ((ph(ws := p)) w) (due' w \<noteq> None) (w \<in> clients')" for w
  proof (cases "w = ws")
    case False
    with fewer show ?thesis using phases_okD [OF ok, of w] by (auto simp: due intro: phase_ok_fewer)
  qed (use new in simp)
  ultimately show ?thesis by (simp add: phases_ok_def)
qed

lemma clients_mono:
  "hub_clients (hub_broadcast cap order f h) = hub_clients h"
  "hub_clients (hub_flight_step i ok h) \<subseteq> hub_clients h"
  "hub_clients (hub_replay_step ws ok h) \<subseteq> hub_clients h"
  "hub_clients (hub_connect ws h) = insert ws (hub_clients h)"
  "hub_clients (hub_disconnect ws h) = hub_clients h - {ws}"
  by (auto simp: hub_broadcast_def hub_flight_step_def hub_replay_step_def hub_connect_def hub_disconnect_def
      hub_send_def fold_disconnect split: prod.splits list.splits)

lemma live_run_sound:
  "live_run cap d due gone \<Longrightarrow> hub_run cap (la_hub d) due gone \<and> phases_ok (la_phase d) due (hub_clients (la_hub d))"
proof (induction rule: live_run.induct)
  case start
  show ?case by (simp add: new_live_app_def phases_ok_def hub_run.start)
next
  case (knock d due gone ws)
  show ?case
  proof (cases "la_phase d ws = Unseen")
    case True
    with knock have "phases_ok ((la_phase d)(ws := Accepting)) due (hub_clients (la_hub d))"
      using phases_okD [of "la_phase d" due _ ws] by (intro phases_step [where due = due]) auto
    with knock True show ?thesis by (simp add: live_open_def fun_upd_def)
  qed (use knock in \<open>simp add: live_open_def\<close>)
next
  case (accept d due gone ws ok)
  then have new: "due ws = None" using phases_okD [of "la_phase d" due _ ws] by auto
  with accept have "hub_run cap (hub_connect ws (la_hub d)) (due(ws \<mapsto> hub_recent (la_hub d))) gone"
    by (intro hub_run.connect) simp_all
  moreover have "phases_ok ((la_phase d)(ws := Replaying)) (due(ws \<mapsto> hub_recent (la_hub d)))
      (hub_clients (hub_connect ws (la_hub d)))"
    using accept by (intro phases_step [where due = due]) (auto simp: clients_mono)
  moreover have "ws \<notin> hub_clients (la_hub d)"
    using hub_invD(2) [OF hub_run_inv, of cap "la_hub d" due gone ws] accept new by (simp add: client_ok_def)
  then have "phases_ok ((la_phase d)(ws := Left)) due (hub_clients (la_hub d))"
    using accept by (intro phases_step [where due = due]) auto
  ultimately show ?case using accept by (simp add: live_defs fun_upd_def [of "la_phase d"])
next
  case (replay d due gone ws ok)
  then have run: "hub_run cap (hub_replay_step ws ok (la_hub d)) due (if ok then gone else insert ws gone)"
    by (intro hub_run.replay) simp
  have ok: "phases_ok (la_phase d) due (hub_clients (la_hub d))" and known: "due ws \<noteq> None"
    using replay phases_okD [of "la_phase d" due _ ws] by auto
  have "phases_ok (la_phase d) due (hub_clients (hub_replay_step ws ok (la_hub d)))"
    using ok clients_mono(3) by (rule phases_fewer) simp
  moreover have "phases_ok ((la_phase d)(ws := Receiving)) due C" if "C \<subseteq> hub_clients (la_hub d)" for C
    using ok known that by (intro phases_step [where due = due]) auto
  ultimately show ?case using replay run clients_mono(3) [of ws ok "la_hub d"]
    by (auto simp: live_defs Let_def fun_upd_def [of "la_phase d"])
next
  case (receive d due gone ws r)
  then have known: "due ws \<noteq> None" using phases_okD [of "la_phase d" due _ ws] by auto
  with receive have "hub_run cap (hub_disconnect ws (la_hub d)) due (insert ws gone)"
    by (intro hub_run.leave) simp_all
  moreover have "phases_ok ((la_phase d)(ws := Left)) due (hub_clients (hub_disconnect ws (la_hub d)))"
    using receive by (intro phases_step [where due = due]) (auto simp: clients_mono)
  ultimately show ?case using receive by (cases r) (simp_all add: live_defs fun_upd_def [of "la_phase d"])
next
  case (broadcast d due gone order f)
  then have "hub_run cap (hub_broadcast cap order f (la_hub d))
       (\<lambda>ws. if ws \<in> hub_clients (la_hub d) then map_option (\<lambda>fs. fs @ [f]) (due ws) else due ws) gone"
    by (intro hub_run.broadcast) simp_all
  with broadcast show ?case by (auto simp: clients_mono(1) elim!: phases_fewer split: if_splits)
next
  case (serve d due gone i f ws rest dead ok)
  then have "hub_run cap (hub_flight_step i ok (la_hub d)) due (if ok then gone else insert ws gone)"
    by (intro hub_run.serve) simp_all
  with serve show ?case using clients_mono(2) by (auto elim!: phases_fewer)
next
  case (finish d due gone i f dead)
  then have "hub_run cap (hub_flight_step i True (la_hub d)) due gone" by (intro hub_run.finish) simp_all
  with finish show ?case using clients_mono(2) by (auto elim!: phases_fewer)
qed

subsection \<open>Who is registered\<close>

definition is_open :: "live_app \<Rightarrow> nat \<Rightarrow> bool" where
  "is_open d ws \<longleftrightarrow> la_phase d ws \<in> {Replaying, Receiving}"

lemma open_known:
  assumes "live_run cap d due gone"
  shows "is_open d ws \<Longrightarrow> due ws \<noteq> None" and "ws \<in> hub_clients (la_hub d) \<Longrightarrow> is_open d ws"
    and "finite {ws. is_open d ws}"
proof -
  from live_run_sound [OF assms] have run: "hub_run cap (la_hub d) due gone"
    and ok: "phases_ok (la_phase d) due (hub_clients (la_hub d))" by simp_all
  show "is_open d ws \<Longrightarrow> due ws \<noteq> None" using phases_okD [OF ok, of ws] by (auto simp: is_open_def)
  show "ws \<in> hub_clients (la_hub d) \<Longrightarrow> is_open d ws"
    using phases_okD [OF ok, of ws] hub_invD(2) [OF hub_run_inv [OF run], of ws]
    by (cases "la_phase d ws") (auto simp: is_open_def client_ok_def)
  have "finite {ws. la_phase d ws \<noteq> Unseen}" using ok by (simp add: phases_ok_def)
  then show "finite {ws. is_open d ws}" by (rule rev_finite_subset) (auto simp: is_open_def)
qed

text \<open>
  C33. The handlers run the hub as its contract demands: whatever the browsers do, a browser whose handler is open and
  to which no send has failed is registered, and gets its frames exactly once; a browser whose handler has ended, or was refused, is not
  registered; and the number \<open>/health\<close> shows lies between the open handlers without a failed send and all open handlers.
\<close>

theorem handlers_keep_hub:
  assumes "live_run cap d due gone"
  shows "hub_run cap (la_hub d) due gone \<and>
         {ws. is_open d ws} - gone \<subseteq> hub_clients (la_hub d) \<and> hub_clients (la_hub d) \<subseteq> {ws. is_open d ws} \<and>
         map_of (health up d) ''ws_clients'' = Some (PInt (int (card (hub_clients (la_hub d))))) \<and>
         card ({ws. is_open d ws} - gone) \<le> card (hub_clients (la_hub d)) \<and>
         card (hub_clients (la_hub d)) \<le> card {ws. is_open d ws}"
proof -
  have run: "hub_run cap (la_hub d) due gone" using live_run_sound [OF assms] by simp
  have low: "{ws. is_open d ws} - gone \<subseteq> hub_clients (la_hub d)"
  proof
    fix ws assume "ws \<in> {ws. is_open d ws} - gone"
    then show "ws \<in> hub_clients (la_hub d)"
      using open_known(1) [OF assms, of ws] hub_invD(2) [OF hub_run_inv [OF run], of ws] by (auto simp: client_ok_def)
  qed
  have high: "hub_clients (la_hub d) \<subseteq> {ws. is_open d ws}" using open_known(2) [OF assms] by blast
  have "finite (hub_clients (la_hub d))" using high open_known(3) [OF assms] by (rule finite_subset)
  with run low high open_known(3) [OF assms] show ?thesis by (simp add: card_mono health_def)
qed

lemma live_run_accept_ok:
  "live_run cap d due gone \<Longrightarrow> la_phase d ws = Accepting \<Longrightarrow>
   live_run cap (live_accept ws True d) (due(ws \<mapsto> hub_recent (la_hub d))) gone"
  using live_run.accept [of cap d due gone ws True] by simp

theorem handlers_keep_hub_witness:
  "map_of (health True (live_accept 7 True (live_open 7 new_live_app))) ''ws_clients'' = Some (PInt 1) \<and>
   hub_clients (la_hub (live_accept 7 True (live_open 7 new_live_app))) = {7}"
proof -
  let ?d = "live_accept 7 True (live_open 7 new_live_app)"
  have "la_phase (live_open 7 new_live_app) 7 = Accepting" by (simp add: live_open_def new_live_app_def)
  from handlers_keep_hub [OF live_run_accept_ok [OF live_run.knock [OF live_run.start] this], of 50 True]
  have h: "map_of (health True ?d) ''ws_clients'' = Some (PInt (int (card (hub_clients (la_hub ?d)))))"
    and s: "{ws. is_open ?d ws} \<subseteq> hub_clients (la_hub ?d)" "hub_clients (la_hub ?d) \<subseteq> {ws. is_open ?d ws}" by simp_all
  have "{ws. is_open ?d ws} = {7}"
    by (auto simp: is_open_def live_defs new_live_app_def split: if_splits)
  with s have "hub_clients (la_hub ?d) = {7}" by blast
  with h show ?thesis by simp
qed

end
