(* ===== verification/Fleet_Delivery.thy ===== *)
theory Fleet_Delivery
  imports Grpc_Stubs Sim_Process
begin

section \<open>From the fleet into the topic\<close>

text \<open>The simulator process, the stub and the ingestion service together: what becomes of the batches of the fleet.\<close>

lemma valid_span_not_rejected:
  assumes "ingest_span env now d s = (r, t)" and "validate_span (ie_coercions env) d \<noteq> None"
  shows "n_rejected t = n_rejected s" and "r \<noteq> Inr Rejected"
proof -
  show "r \<noteq> Inr Rejected" using ingest_span_rejects(1) [of env now d s] assms by simp
  with ingest_span_decisions [OF assms(1)] show "n_rejected t = n_rejected s" by (simp add: decisions_def)
qed

lemma valid_spans_not_rejected:
  assumes "\<forall>(now, d) \<in> set rs. validate_span (ie_coercions env) d \<noteq> None"
  shows "n_rejected (snd (ingest_all env rs s)) = n_rejected s \<and>
    (\<forall>os. fst (ingest_all env rs s) = Inr os \<longrightarrow> Rejected \<notin> set os \<and> length os = length rs)"
  using assms
proof (induction rs arbitrary: s)
  case (Cons x rs)
  obtain now d where x: "x = (now, d)" by fastforce
  obtain r t where t: "ingest_span env now d s = (r, t)" by fastforce
  obtain q u where u: "ingest_all env rs t = (q, u)" by fastforce
  have "validate_span (ie_coercions env) d \<noteq> None" using Cons.prems by (simp add: x)
  note one = valid_span_not_rejected [OF t this]
  have "n_rejected u = n_rejected t" "\<And>os. q = Inr os \<Longrightarrow> Rejected \<notin> set os \<and> length os = length rs"
    using Cons.IH [of t] Cons.prems u by simp_all
  with one show ?case by (cases r; cases q) (auto simp: x t u)
qed simp

text \<open>An answer that reports no rejection: the outcomes behind it, one for each span.\<close>

definition answers_all :: "nat \<Rightarrow> ingest_response \<Rightarrow> bool" where
  "answers_all n resp \<longleftrightarrow> (\<exists>os. resp = batch_response os \<and> length os = n \<and> Rejected \<notin> set os \<and>
       (resp_success resp \<longleftrightarrow> Failed \<notin> set os))"

lemma method_never_rejects:
  assumes "\<forall>sp \<in> set spans. validate_span (ie_coercions env) (span_to_dict sp) \<noteq> None"
  shows "n_rejected (snd (ingest_method env now spans s)) = n_rejected s"
    and "fst (ingest_method env now spans s) = Inr resp \<Longrightarrow> answers_all (length spans) resp"
proof -
  let ?rs = "map (\<lambda>(now, sp). (now, span_to_dict sp)) (map (Pair now) spans)"
  have "\<forall>(now, d) \<in> set ?rs. validate_span (ie_coercions env) d \<noteq> None" using assms by auto
  note all = valid_spans_not_rejected [OF this, of s]
  then show "n_rejected (snd (ingest_method env now spans s)) = n_rejected s"
    by (simp only: ingest_method_def snd_ingest_batch)
  obtain q t where q: "ingest_all env ?rs s = (q, t)" by fastforce
  assume "fst (ingest_method env now spans s) = Inr resp"
  with q obtain os where "q = Inr os" "resp = batch_response os"
    by (auto simp: ingest_method_def ingest_batch_def split: sum.splits)
  with all q show "answers_all (length spans) resp" by (auto simp: answers_all_def batch_response_def Let_def count_list_0_iff)
qed




end
