(* ===== verification/Spec2Isabelle.thy ===== *)
theory Spec2Isabelle
  imports IncidentFilter RuleEngine K8sClient Notify Orchestrator Clusterer Kafka_Json Granger Correlation
    Flink_Decode Flink_Dedup Flink_Sinks Flink_Windows Flink_Job Flink_Runtime Ingest_Bloom Es_Indexer Ingestion
    Ingest_Delivery
    ML_Models ML_Gateway ML_Dataset ML_Training ML_Networks Dashboard_Hub Dashboard_Api
    Sim_Cascade Sim_Publisher Simulator Topology Pipeline Wire_Format Services
    Config Flink_Graph Grpc_Stubs Sim_Process ML_Lstm_Training ML_Evaluation Dashboard_Live Fleet_Delivery
begin

text \<open>
  DistroSense simulates a fleet of services, collects their spans, detects anomalies, correlates them into
  incidents and reacts to these. This library models its Python code (paths are relative to \<open>src/\<close>)
  and proves what each part promises to the next.

  \<^bold>\<open>The program and the theories.\<close> The theories are listed in the order in which data flows.

  \<^item> The simulator. \<open>Sim_Cascade\<close> is \<open>simulator/services/cascade_map.py\<close>: the random map of dependents and
    the bounded search. \<open>Simulator\<close> is the registry, the metric generator, the injected anomalies, the
    spans and \<open>run_service\<close> of \<open>simulator/main.py\<close>. \<open>Sim_Publisher\<close> is \<open>simulator/publisher/\<close>. \<open>Topology\<close> is
    \<open>correlation/graph/neo4j_client.py\<close> and the push of the topology at the start of the simulator; \<open>Sim_Process\<close> is
    \<open>main\<close> of \<open>simulator/main.py\<close>, with the tasks of all services.
  \<^item> The ingestion service. \<open>Ingest_Bloom\<close> is \<open>ingestion/dedup/redis_bloom.py\<close>, \<open>Es_Indexer\<close> is
    \<open>ingestion/logs/es_log_indexer.py\<close>, \<open>Ingestion\<close> is validation, publishing, \<open>IngestPipeline\<close> and the gRPC
    and REST front ends; \<open>Ingest_Delivery\<close> is the polling thread of \<open>kafka_producer.py\<close> beside the requests, and its
    \<open>close\<close>. \<open>Grpc_Stubs\<close> is the generated code between the simulator and it, and between a client and the ML service
    (\<open>ingestion/proto/\<close>, \<open>ml_service/proto/\<close>), with the attempts of one flush over the stub.
  \<^item> The Flink jobs. \<open>Flink_Decode\<close>, \<open>Flink_Dedup\<close>, \<open>Flink_Windows\<close> and \<open>Flink_Sinks\<close> are the operators and sinks
    of \<open>flink_jobs/\<close>: decoding of records, the rotating Bloom filter before the keyed state, the
    z-score test and the aggregation of windows, and the writes to TimescaleDB and Redis. \<open>Flink_Job\<close> composes them as
    \<open>jobs/anomaly_detection_job.py\<close> does, between the topics; \<open>Flink_Runtime\<close> is \<open>fetch_jars.py\<close>, \<open>runtime.py\<close> and the
    start of the job, with the metrics servers of \<open>observability/server.py\<close> and \<open>flink_jobs/metrics.py\<close>.
    \<open>Flink_Graph\<close> is the graph that \<open>build\<close> and the two \<open>attach\<close> hand to Flink, \<open>sinks/kafka_sink.py\<close>, and the settings of
    every other Kafka client.
  \<^item> Machine learning. \<open>ML_Dataset\<close> is \<open>ml_service/training/dataset.py\<close> with the training set of the forest,
    \<open>ML_Training\<close> is \<open>train_transformer.py\<close>;
    \<open>ML_Models\<close> is the debouncer, the thresholds, the forest's features and the TorchServe handler;
    \<open>ML_Gateway\<close> is \<open>ml_service/gateway/grpc_gateway.py\<close>; \<open>ML_Networks\<close> is the forward passes of the two autoencoders
    in \<open>ml_service/models/\<close>, and the gateway and the TorchServe handler on them. \<open>ML_Evaluation\<close> is the forest on disk
    (\<open>isolation_forest.py\<close>, \<open>train_iforest.py\<close>), the start of the gateway from the files, and the two evaluation scripts
    (\<open>test_debounce.py\<close>, \<open>test_gateway_e2e.py\<close>); \<open>ML_Lstm_Training\<close> is \<open>train_lstm.py\<close>.
  \<^item> Correlation. \<open>Clusterer\<close> is \<open>correlation/clustering/incident_clusterer.py\<close>, \<open>Granger\<close> is
    \<open>correlation/causality/granger_engine.py\<close>, \<open>Correlation\<close> is the store, the publisher and the loop of
    \<open>correlation/main.py\<close>. \<open>Kafka_Json\<close> is \<open>common/\<close>, the clients they share with the dashboard.
  \<^item> The orchestrator. \<open>IncidentFilter\<close>, \<open>RuleEngine\<close>, \<open>K8sClient\<close> and \<open>Notify\<close> are the files of these names under
    \<open>orchestrator/\<close>; \<open>Orchestrator\<close> is its consumer loop.
  \<^item> The dashboard. \<open>Dashboard_Hub\<close> is \<open>dashboard_api/hub.py\<close> and \<open>kafka_feed.py\<close>, \<open>Dashboard_Api\<close> is the
    endpoints of \<open>dashboard_api/main.py\<close>, \<open>Dashboard_Live\<close> its websocket handler and \<open>/health\<close> on the hub.
  \<^item> \<open>Pipeline\<close> puts the parts together: what one component emits the next one reads. \<open>Wire_Format\<close> is the
    way of a span through the topic, with \<open>ingestion/serialisation/avro_serialiser.py\<close> and its schema.
  \<^item> \<open>Services\<close> is the processes around the components: \<open>run\<close> of \<open>orchestrator/main.py\<close> and \<open>correlation/main.py\<close>,
    \<open>build_pipeline\<close> of \<open>ingestion/main.py\<close>, and the choice and the calls of the LLM in \<open>orchestrator/config.py\<close> and
    \<open>llm_runbook.py\<close>.
  \<^item> \<open>Config\<close> is the \<open>config.py\<close> of every service as a function of the environment.

  \<open>Prelude\<close> and \<open>Py_Values\<close> hold what all of them use: exceptions as values, programs over a state, the
  bounded deque, decoded JSON with Python's comparison and hashing, and the contracts of the library.

  \<^bold>\<open>State and operations.\<close> An object is a record of its attributes, an operation is a function from
  the state to a result and a new state, an exception is a left value that leaves the state as far as it
  had been changed. Services and third-party packages (Kafka, Redis, the databases, Kubernetes, numpy,
  torch, random draws, clocks) are parameters, gathered in records such as \<open>kube_api\<close>, \<open>tsdb_api\<close> or \<open>graph_api\<close>;
  what is assumed about them is a named law (\<open>txn_law\<close>, \<open>redis_law\<close>, \<open>flink_law\<close>, \<open>trafo_law\<close>, \<open>channel_law\<close>, \<open>disk_law\<close>, ...) with a concrete
  instance that satisfies it. Threads and coroutines are steps: a flush or a broadcast is split at its
  awaits, and an inductive relation (\<open>publisher_run\<close>, \<open>hub_run\<close>, \<open>live_run\<close>) ranges over all interleavings.

  \<^bold>\<open>Contracts.\<close> \<open>step_system\<close> (steps that keep an invariant), \<open>metered_system\<close> (each step counts once),
  \<open>recent_buffer\<close> (the last items of a stream) and \<open>bounded_retry\<close> (an operation tried a bounded number of times) are
  locales of \<open>Prelude\<close>, interpreted on the orchestrator's loop and clients, the filter, the clusterer, the finaliser,
  the log indexer, the debouncer, the gateway's buffers, the end-to-end evaluation, the hub, the TimescaleDB sink and
  the LLM client.

  \<^bold>\<open>What is shown.\<close> For each component: that nothing is lost or counted twice (messages, spans, anomalies,
  log documents, frames), invariants of its state over every run with every failure, the exact
  function of its decisions (rules, clusters, root cause, z-score, verdict of the gateway), equivalence of
  optimised code with what it stands for (the Bloom pre-check, the breadth-first searches, the
  debouncer), idempotence of retries and replays, and its behaviour on bad input. \<open>Topology\<close> and \<open>Pipeline\<close>
  show that the components fit: the simulator's spans pass the gate of the ingestion service, accepted
  spans survive serialising and decoding and, delivered any number of times, are counted once in the aggregate
  of their minute, detected anomalies are readable by the engine, a cascade stays within the reach
  of the correlation, and a published incident gets the response of the rule table. Theorems without a
  number support these or record limits of the code, such as \<open>failed_span_cannot_be_retried\<close>, \<open>missed_slide_unjudged\<close>
  or \<open>bar_breaks_top_anomalies\<close>. \<open>Services\<close> shows what is left when something is missing at the start (no cluster, no
  Redis) and what a restart forgets. \<open>Config\<close> and \<open>Flink_Graph\<close> show that the services meet: topics, brokers, databases and ports
  agree in every environment, and what the job writes in transactions is read committed. \<open>Grpc_Stubs\<close> shows that a retried
  batch publishes nothing twice, \<open>Sim_Process\<close> that every span of the fleet is valid and belongs to a known service,
  \<open>Fleet_Delivery\<close> that the ingestion service rejects none of them,
  \<open>ML_Evaluation\<close> that trained files give every request a verdict and what a longer persistence costs.

  \<^bold>\<open>Bounds.\<close> Nothing uses fuel: loops are structural over the messages or draws of a run, the retry loops
  count their attempts down (three for TimescaleDB, the publishers and the LLM), and the searches terminate
  by the number of unvisited services. Schema ids and record bytes are 32- and 8-bit words.

  \<^bold>\<open>Not modelled.\<close> Floats are reals without rounding errors, infinities or NaN. Flink itself (parallelism, offsets,
  checkpoints and recovery) and torch's layers are parameters. The message
  classes that the generated descriptors build and Avro's own encoding are parameters with round-trip laws. The web servers
  and threads around the handlers, the demo service, the migration, the front end and the registration of metrics are left
  out: they only call libraries or render. Printed progress lines are left out, throttled error logs are kept.
\<close>

end
